(* ===== verification/Prelude.thy ===== *)
theory Prelude
  imports Main "HOL-Library.Word"
begin

text \<open>
  Shared vocabulary of the development: the machine integer types the C code uses, byte
  buffers as lists, the two buffer primitives \<open>memcpy\<close> and \<open>memset\<close>, little- and
  big-endian byte layouts, and the induction principles for counted C loops.
  The collections \<open>buf_simps\<close> (lengths and lookups of written buffers) and
  \<open>loop_intros\<close> (invariants of counted loops) are what the component theories pass to
  the simplifier and to \<open>rule\<close>.
\<close>

unbundle bit_operations_syntax

section \<open>Machine integers and buffers\<close>

type_synonym u8 = "8 word"
type_synonym u16 = "16 word"
type_synonym u32 = "32 word"
type_synonym u64 = "64 word"

type_synonym bytes = "u8 list"

named_theorems buf_simps \<open>lengths and lookups of written buffers\<close>
named_theorems loop_intros \<open>invariant rules for counted loops\<close>

lemma unat_u64: "unat (x :: u64) < 2 ^ 64"
  using unsigned_less [of x] by simp

lemma unat_u32: "unat (x :: u32) < 2 ^ 32"
  using unsigned_less [of x] by simp

lemma unat_of_nat_u64: "n < 2 ^ 64 \<Longrightarrow> unat (of_nat n :: u64) = n"
  by (simp add: unat_of_nat)

section \<open>Writing into a buffer\<close>

text \<open>
  \<open>memcpy_at dst off src\<close> is the buffer \<open>dst\<close> after \<open>memcpy(dst + off, src, length src)\<close>;
  \<open>memset_at dst off n v\<close> is \<open>dst\<close> after \<open>memset(dst + off, v, n)\<close>. Both are meant for
  ranges inside the buffer, which every user of them establishes.
\<close>

definition memcpy_at :: "bytes \<Rightarrow> nat \<Rightarrow> bytes \<Rightarrow> bytes" where
  "memcpy_at dst off src = take off dst @ src @ drop (off + length src) dst"

definition memset_at :: "bytes \<Rightarrow> nat \<Rightarrow> nat \<Rightarrow> u8 \<Rightarrow> bytes" where
  "memset_at dst off n v = memcpy_at dst off (replicate n v)"

lemma length_memcpy_at [buf_simps]:
  "off + length src \<le> length dst \<Longrightarrow> length (memcpy_at dst off src) = length dst"
  by (simp add: memcpy_at_def)

lemma length_memset_at [buf_simps]:
  "off + n \<le> length dst \<Longrightarrow> length (memset_at dst off n v) = length dst"
  by (simp add: memset_at_def length_memcpy_at)

lemma take_memcpy_at [buf_simps]:
  "off \<le> length dst \<Longrightarrow> take (off + length src) (memcpy_at dst off src) = take off dst @ src"
  by (simp add: memcpy_at_def)

lemma memcpy_at_nil [simp]: "memcpy_at dst off [] = dst"
  by (simp add: memcpy_at_def)

lemma memcpy_at_mid [buf_simps]:
  "off = length xs \<Longrightarrow> length ys = length src \<Longrightarrow> memcpy_at (xs @ ys @ zs) off src = xs @ src @ zs"
  by (simp add: memcpy_at_def)

lemma memset_at_mid [buf_simps]:
  "off = length xs \<Longrightarrow> n = length ys \<Longrightarrow> memset_at (xs @ ys @ zs) off n v = xs @ replicate n v @ zs"
  by (simp add: memset_at_def memcpy_at_mid)

lemma list_split3:
  assumes "length xs = i + j + k"
  obtains as bs cs where "xs = as @ bs @ cs" "length as = i" "length bs = j" "length cs = k"
proof
  show "xs = take i xs @ take j (drop i xs) @ drop (i + j) xs"
    by (metis append_take_drop_id drop_drop add.commute)
qed (use assms in simp_all)

text \<open>The \<open>m\<close>-th aligned group of \<open>n\<close> bytes, and how writing one group changes it.\<close>

definition group_at :: "nat \<Rightarrow> 'a list \<Rightarrow> nat \<Rightarrow> 'a list" where
  "group_at n xs m = take n (drop (n * m) xs)"

lemma length_group_at [buf_simps]: "n * m + n \<le> length xs \<Longrightarrow> length (group_at n xs m) = n"
  by (simp add: group_at_def)

lemma group_at_memcpy [buf_simps]:
  assumes "length src = n" and "n * i + n \<le> length dst" and "n * m + n \<le> length dst"
  shows "group_at n (memcpy_at dst (n * i) src) m = (if m = i then src else group_at n dst m)"
proof (cases m i rule: linorder_cases)
  case less
  then have "n * m + n \<le> n * i" using mult_le_mono2 [of "Suc m" i n] by simp
  then show ?thesis using assms less
    by (simp add: group_at_def memcpy_at_def min_def) (simp add: take_drop min_def)
next
  case greater
  then have "n * i + n \<le> n * m" using mult_le_mono2 [of "Suc i" m n] by simp
  then obtain k where k: "n * m = n * i + n + k" by (meson nat_le_iff_add)
  have "drop (n * m) (memcpy_at dst (n * i) src) = drop (n * m) dst"
    unfolding k using assms by (simp add: memcpy_at_def ac_simps)
  then show ?thesis using greater by (simp add: group_at_def)
qed (use assms in \<open>simp add: group_at_def memcpy_at_def\<close>)

lemma concat_groups:
  "length xs = n * k \<Longrightarrow> concat (map (group_at n xs) [0..<k]) = xs"
proof (induction k arbitrary: xs)
  case 0
  then show ?case by simp
next
  case (Suc k)
  have "group_at n xs m = group_at n (take (n * k) xs) m" if "m < k" for m
  proof -
    have "n * m + n \<le> n * k" using that mult_le_mono2 [of "Suc m" k n] by simp
    then show ?thesis by (simp add: group_at_def take_drop min_def)
  qed
  then have "map (group_at n xs) [0..<k] = map (group_at n (take (n * k) xs)) [0..<k]" by simp
  then have "concat (map (group_at n xs) [0..<k]) = take (n * k) xs"
    using Suc.IH [of "take (n * k) xs"] Suc.prems by (simp only:) simp
  moreover have "group_at n xs k = drop (n * k) xs"
    using Suc.prems by (simp add: group_at_def)
  ultimately show ?case by simp
qed

section \<open>Counted loops\<close>

lemma fold_upt_invariant [loop_intros]:
  assumes "I 0 s" and "\<And>k s. k < n \<Longrightarrow> I k s \<Longrightarrow> I (Suc k) (f k s)"
  shows "I n (fold f [0..<n] s)"
  using assms(2)
proof (induction n)
  case 0
  then show ?case using assms(1) by simp
next
  case (Suc n)
  then have "I n (fold f [0..<n] s)" by simp
  then show ?case using Suc.prems by simp
qed

lemma fold_upt_from [loop_intros]:
  assumes "m \<le> n" and "I m s" and "\<And>k s. m \<le> k \<Longrightarrow> k < n \<Longrightarrow> I k s \<Longrightarrow> I (Suc k) (f k s)"
  shows "I n (fold f [m..<n] s)"
  using assms(1,3)
proof (induction n rule: dec_induct)
  case base
  then show ?case using assms(2) by simp
next
  case (step n)
  then have "I n (fold f [m..<n] s)" by simp
  then show ?case using step by simp
qed

lemma fold_upt_nested:
  "fold (\<lambda>i. fold (\<lambda>j. f (m * i + j)) [0..<m]) [0..<n] s = fold f [0..<m * n] s"
proof (induction n)
  case 0
  then show ?case by simp
next
  case (Suc n)
  have shift: "map (\<lambda>j. m * n + j) [0..<m] = [m * n..<m * n + m]"
    by (simp add: map_add_upt add.commute)
  have block: "fold (\<lambda>j. f (m * n + j)) [0..<m] t = fold f [m * n..<m * n + m] t" for t
    by (simp only: fold_map comp_def flip: shift)
  have "[0..<m * Suc n] = [0..<m * n] @ [m * n..<m * n + m]"
    using upt_add_eq_append [of 0 "m * n" m] by (simp add: add.commute)
  then show ?case
    using Suc by (simp add: block)
qed

lemma map_fold_inv: "(\<And>x s. x \<in> set xs \<Longrightarrow> g (f x s) = g s) \<Longrightarrow> g (fold f xs s) = g s"
  by (induction xs arbitrary: s) auto

text \<open>A loop \<open>for (i = 0; i < n; ++i) b[i] = f(i, b[i])\<close> rewrites each cell once.\<close>

lemma fold_update_cells:
  "n \<le> length b \<Longrightarrow>
     fold (\<lambda>i b. b[i := f i (b ! i)]) [0..<n] b = map (\<lambda>i. f i (b ! i)) [0..<n] @ drop n b"
proof (induction n)
  case 0
  then show ?case by simp
next
  case (Suc n)
  then show ?case
    by (simp add: nth_append list_update_append Cons_nth_drop_Suc [symmetric])
qed

section \<open>Byte layouts\<close>

definition be32 :: "u32 \<Rightarrow> bytes" where
  "be32 x = [ucast (drop_bit 24 x), ucast (drop_bit 16 x), ucast (drop_bit 8 x), ucast x]"

definition be64 :: "u64 \<Rightarrow> bytes" where
  "be64 x = map (\<lambda>i. ucast (drop_bit (8 * (7 - i)) x)) [0..<8]"

definition le16 :: "u16 \<Rightarrow> bytes" where
  "le16 x = [ucast x, ucast (drop_bit 8 x)]"

definition le32 :: "u32 \<Rightarrow> bytes" where
  "le32 x = rev (be32 x)"

definition le64 :: "u64 \<Rightarrow> bytes" where
  "le64 x = rev (be64 x)"

lemma length_be32 [buf_simps, simp]: "length (be32 x) = 4"
  by (simp add: be32_def)

lemma length_be64 [buf_simps, simp]: "length (be64 x) = 8"
  by (simp add: be64_def)

lemma length_le [buf_simps, simp]: "length (le16 x) = 2" "length (le32 y) = 4" "length (le64 z) = 8"
  by (simp_all add: le16_def le32_def le64_def)

lemma nat_and_15: "(n::nat) AND 15 = n mod 16"
proof -
  have "(15::nat) = mask 4" by (simp add: mask_eq_exp_minus_1)
  then show ?thesis by (simp only: take_bit_eq_mask [symmetric] take_bit_eq_mod) simp
qed

end
