(* ===== verification/Hash_Interface.thy ===== *)
theory Hash_Interface
  imports Prelude
begin

text \<open>
  The contract between a streaming hash and its callers. \<open>stream_hash\<close> is what a client
  may rely on when it feeds a message in pieces; \<open>hmac_hash\<close> is what the HMAC
  construction of RFC 2104 needs of the hash it is built on, and \<open>block_hash\<close> joins the two.
  The SHA-256 component interprets \<open>block_hash\<close>.
\<close>

section \<open>Feeding a message in pieces\<close>

locale stream_hash =
  fixes start :: "'s \<Rightarrow> bool"
    and feed :: "'s \<Rightarrow> bytes \<Rightarrow> 's"
    and finish :: "'s \<Rightarrow> bytes"
    and holds :: "bytes \<Rightarrow> 's \<Rightarrow> bool"
    and digest :: "bytes \<Rightarrow> bytes"
  assumes holds_start: "start s \<Longrightarrow> holds [] s"
    and holds_feed: "holds M s \<Longrightarrow> holds (M @ d) (feed s d)"
    and finish_digest: "holds M s \<Longrightarrow> finish s = digest M"
begin

lemma holds_feeds: "holds M s \<Longrightarrow> holds (M @ concat ds) (fold (\<lambda>d s. feed s d) ds s)"
proof (induction ds arbitrary: M s)
  case Nil
  then show ?case by simp
next
  case (Cons d ds)
  then have "holds ((M @ d) @ concat ds) (fold (\<lambda>d s. feed s d) ds (feed s d))"
    by (intro Cons.IH holds_feed)
  then show ?case by simp
qed

lemma stream_digest: "start s \<Longrightarrow> finish (fold (\<lambda>d s. feed s d) ds s) = digest (concat ds)"
  using holds_feeds [OF holds_start, of s ds] by (simp add: finish_digest)

lemma one_feed: "start s \<Longrightarrow> finish (feed s d) = digest d"
  using stream_digest [of s "[d]"] by simp

lemma two_feeds: "start s \<Longrightarrow> finish (feed (feed s d) e) = digest (d @ e)"
  using stream_digest [of s "[d, e]"] by simp

lemma rechunk:
  "start s \<Longrightarrow> start t \<Longrightarrow> concat ds = concat es \<Longrightarrow>
     finish (fold (\<lambda>d s. feed s d) ds s) = finish (fold (\<lambda>d s. feed s d) es t)"
  by (simp add: stream_digest)

end

section \<open>The HMAC construction\<close>

definition hmac_key :: "(bytes \<Rightarrow> bytes) \<Rightarrow> nat \<Rightarrow> bytes \<Rightarrow> bytes" where
  "hmac_key Hash B K =
     (let K' = (if B < length K then Hash K else K) in K' @ replicate (B - length K') 0)"

definition hmac_rfc2104 :: "(bytes \<Rightarrow> bytes) \<Rightarrow> nat \<Rightarrow> bytes \<Rightarrow> bytes \<Rightarrow> bytes" where
  "hmac_rfc2104 Hash B K M =
     (let K0 = hmac_key Hash B K
      in Hash (map ((XOR) 0x5c) K0 @ Hash (map ((XOR) 0x36) K0 @ M)))"

locale hmac_hash =
  fixes Hash :: "bytes \<Rightarrow> bytes" and B L :: nat
  assumes length_Hash: "length (Hash M) = L" and L_le_B: "L \<le> B"
begin

lemma length_hmac_key: "length (hmac_key Hash B K) = B"
  using L_le_B by (simp add: hmac_key_def Let_def length_Hash)

lemma length_hmac: "length (hmac_rfc2104 Hash B K M) = L"
  by (simp add: hmac_rfc2104_def Let_def length_Hash)

lemma hmac_long_key: "B < length K \<Longrightarrow> hmac_rfc2104 Hash B K M = hmac_rfc2104 Hash B (Hash K) M"
  using L_le_B by (simp add: hmac_rfc2104_def hmac_key_def length_Hash)

lemma hmac_zero_padded_key:
  assumes "length K + n \<le> B"
  shows "hmac_rfc2104 Hash B (K @ replicate n 0) M = hmac_rfc2104 Hash B K M"
proof -
  have "replicate n (0::u8) @ replicate (B - (length K + n)) 0 = replicate (B - length K) 0"
    using assms by (simp add: replicate_add [symmetric])
  then show ?thesis
    using assms by (simp add: hmac_rfc2104_def hmac_key_def)
qed

end

section \<open>A streaming hash that HMAC can use\<close>

locale block_hash = stream_hash start feed finish holds digest
  for start :: "'s \<Rightarrow> bool" and feed :: "'s \<Rightarrow> bytes \<Rightarrow> 's" and finish :: "'s \<Rightarrow> bytes"
    and holds :: "bytes \<Rightarrow> 's \<Rightarrow> bool" and digest :: "bytes \<Rightarrow> bytes" +
  fixes B L :: nat
  assumes length_digest: "length (digest M) = L" and L_le: "L \<le> B"

sublocale block_hash \<subseteq> mac: hmac_hash digest B L
  by unfold_locales (simp_all add: length_digest L_le)

context block_hash begin

lemma nested_feeds:
  assumes "start s" and "start t" and "K0 = hmac_key digest B K"
  shows "finish (feed (feed s (map ((XOR) 0x5c) K0)) (finish (feed (feed t (map ((XOR) 0x36) K0)) M)))
         = hmac_rfc2104 digest B K M"
  using assms by (simp add: two_feeds hmac_rfc2104_def Let_def)

end

end
