(* ===== verification/Sha256.thy ===== *)
theory Sha256
  imports Hash_Interface
begin

text \<open>
  \<open>src/src/boot/mftah_uefi/sha256.c\<close>: the streaming SHA-256 of the boot loader. The first
  section translates the code (\<open>right_rot\<close>, \<open>consume_chunk\<close> with its rolling 16-word
  schedule, \<open>sha_256_init\<close>, \<open>sha_256_write\<close>, \<open>sha_256_close\<close>, \<open>calc_sha_256\<close>); the
  second states the function of FIPS 180-4; the rest proves that the code computes it,
  however the input is cut into writes.
\<close>

section \<open>The code\<close>

definition right_rot :: "u32 \<Rightarrow> nat \<Rightarrow> u32" where
  "right_rot val count = drop_bit count val OR push_bit (32 - count) val"

definition sha_k :: "u32 list" where
  "sha_k = concat [
    [0x428a2f98, 0x71374491, 0xb5c0fbcf, 0xe9b5dba5, 0x3956c25b, 0x59f111f1, 0x923f82a4],
    [0xab1c5ed5, 0xd807aa98, 0x12835b01, 0x243185be, 0x550c7dc3, 0x72be5d74, 0x80deb1fe],
    [0x9bdc06a7, 0xc19bf174, 0xe49b69c1, 0xefbe4786, 0x0fc19dc6, 0x240ca1cc, 0x2de92c6f],
    [0x4a7484aa, 0x5cb0a9dc, 0x76f988da, 0x983e5152, 0xa831c66d, 0xb00327c8, 0xbf597fc7],
    [0xc6e00bf3, 0xd5a79147, 0x06ca6351, 0x14292967, 0x27b70a85, 0x2e1b2138, 0x4d2c6dfc],
    [0x53380d13, 0x650a7354, 0x766a0abb, 0x81c2c92e, 0x92722c85, 0xa2bfe8a1, 0xa81a664b],
    [0xc24b8b70, 0xc76c51a3, 0xd192e819, 0xd6990624, 0xf40e3585, 0x106aa070, 0x19a4c116],
    [0x1e376c08, 0x2748774c, 0x34b0bcb5, 0x391c0cb3, 0x4ed8aa4a, 0x5b9cca4f, 0x682e6ff3],
    [0x748f82ee, 0x78a5636f, 0x84c87814, 0x8cc70208, 0x90befffa, 0xa4506ceb, 0xbef9a3f7],
    [0xc67178f2]]"

definition load_be32 :: "bytes \<Rightarrow> u32" where
  "load_be32 p = push_bit 24 (ucast (p ! 0)) OR push_bit 16 (ucast (p ! 1))
     OR push_bit 8 (ucast (p ! 2)) OR ucast (p ! 3)"

text \<open>
  The locals of \<open>consume_chunk\<close>: the working variables \<open>ah[8]\<close>, the window \<open>w[16]\<close> of the
  message schedule and the read pointer \<open>p\<close> (the bytes it still has in front of it).
\<close>

record chunk_locals =
  ah :: "u32 list"
  w :: "u32 list"
  p :: bytes

definition consume_w :: "nat \<Rightarrow> nat \<Rightarrow> chunk_locals \<Rightarrow> chunk_locals" where
  "consume_w i j s =
     (if i = 0 then s\<lparr>w := (w s)[j := load_be32 (p s)], p := drop 4 (p s)\<rparr>
      else
        let s0 = right_rot (w s ! ((j + 1) AND 0xf)) 7
                 XOR right_rot (w s ! ((j + 1) AND 0xf)) 18
                 XOR drop_bit 3 (w s ! ((j + 1) AND 0xf));
            s1 = right_rot (w s ! ((j + 14) AND 0xf)) 17
                 XOR right_rot (w s ! ((j + 14) AND 0xf)) 19
                 XOR drop_bit 10 (w s ! ((j + 14) AND 0xf))
        in s\<lparr>w := (w s)[j := w s ! j + s0 + w s ! ((j + 9) AND 0xf) + s1]\<rparr>)"

definition consume_regs :: "nat \<Rightarrow> nat \<Rightarrow> chunk_locals \<Rightarrow> chunk_locals" where
  "consume_regs i j s =
     (let a = ah s;
          s1 = right_rot (a ! 4) 6 XOR right_rot (a ! 4) 11 XOR right_rot (a ! 4) 25;
          ch = (a ! 4 AND a ! 5) XOR (NOT (a ! 4) AND a ! 6);
          temp1 = a ! 7 + s1 + ch + sha_k ! (push_bit 4 i OR j) + w s ! j;
          s0 = right_rot (a ! 0) 2 XOR right_rot (a ! 0) 13 XOR right_rot (a ! 0) 22;
          maj = (a ! 0 AND a ! 1) XOR (a ! 0 AND a ! 2) XOR (a ! 1 AND a ! 2);
          temp2 = s0 + maj
      in s\<lparr>ah := [temp1 + temp2, a ! 0, a ! 1, a ! 2, a ! 3 + temp1, a ! 4, a ! 5, a ! 6]\<rparr>)"

text \<open>
  \<open>stack_w\<close> is what the uninitialised array \<open>w\<close> holds on entry; \<open>consume_chunk\<close> fixes it
  to zeros, and \<open>consume_chunk_stack\<close> below shows that the result does not depend on it.
\<close>

definition consume_chunk_with :: "u32 list \<Rightarrow> u32 list \<Rightarrow> bytes \<Rightarrow> u32 list" where
  "consume_chunk_with stack_w h data =
     (let s = fold (\<lambda>i. fold (\<lambda>j s. consume_regs i j (consume_w i j s)) [0..<16]) [0..<4]
                \<lparr>ah = h, w = stack_w, p = data\<rparr>
      in map (\<lambda>i. h ! i + ah s ! i) [0..<8])"

definition consume_chunk :: "u32 list \<Rightarrow> bytes \<Rightarrow> u32 list" where
  "consume_chunk h data = consume_chunk_with (replicate 16 0) h data"

text \<open>
  \<open>struct Sha_256\<close>. \<open>chunk_pos\<close> is the offset of the pointer into \<open>chunk\<close>; the \<open>hash\<close>
  pointer is the buffer that \<open>sha_256_close\<close> fills, here its result.
\<close>

record sha_256 =
  chunk :: bytes
  chunk_pos :: nat
  space_left :: nat
  total_len :: u64
  h :: "u32 list"

definition sha_256_init :: "bytes \<Rightarrow> sha_256" where
  "sha_256_init stack_chunk =
     \<lparr>chunk = stack_chunk, chunk_pos = 0, space_left = 64, total_len = 0,
      h = [0x6a09e667, 0xbb67ae85, 0x3c6ef372, 0xa54ff53a,
           0x510e527f, 0x9b05688c, 0x1f83d9ab, 0x5be0cd19]\<rparr>"

text \<open>The general case of the write loop: copy \<open>part\<close> into the chunk, hash it when full.\<close>

definition sha_256_fill :: "sha_256 \<Rightarrow> bytes \<Rightarrow> sha_256" where
  "sha_256_fill s part =
     (let s = s\<lparr>chunk := memcpy_at (chunk s) (chunk_pos s) part,
                space_left := space_left s - length part\<rparr>
      in if space_left s = 0
         then s\<lparr>h := consume_chunk (h s) (chunk s), chunk_pos := 0, space_left := 64\<rparr>
         else s\<lparr>chunk_pos := chunk_pos s + length part\<rparr>)"

function sha_256_write_loop :: "sha_256 \<Rightarrow> bytes \<Rightarrow> sha_256" where
  "sha_256_write_loop s q =
     (if q = [] then s
      else if space_left s = 64 \<and> 64 \<le> length q then
        sha_256_write_loop (s\<lparr>h := consume_chunk (h s) (take 64 q)\<rparr>) (drop 64 q)
      else
        let consumed_len = (if length q < space_left s then length q else space_left s)
        in sha_256_write_loop (sha_256_fill s (take consumed_len q)) (drop consumed_len q))"
  by pat_completeness auto
termination
  by (relation "measures [\<lambda>(s, q). length q, \<lambda>(s, q). if space_left s = 0 then 1 else 0]")
     (auto simp: Let_def sha_256_fill_def split: if_splits)

declare sha_256_write_loop.simps [simp del]

definition sha_256_write :: "sha_256 \<Rightarrow> bytes \<Rightarrow> sha_256" where
  "sha_256_write s data =
     sha_256_write_loop (s\<lparr>total_len := total_len s + of_nat (length data)\<rparr>) data"

text \<open>The big-endian bit count: the low byte from \<open>len << 3\<close>, the seven above from \<open>len >> 5\<close>.\<close>

definition len_bytes :: "u64 \<Rightarrow> bytes" where
  "len_bytes len =
     (let pos = (replicate 8 0)[7 := ucast (push_bit 3 len)];
          (pos', _) = fold (\<lambda>k (pos, len). (pos[6 - k := ucast len], drop_bit 8 len)) [0..<7]
                        (pos, drop_bit 5 len)
      in pos')"

definition sha_256_close :: "sha_256 \<Rightarrow> bytes" where
  "sha_256_close s =
     (let pos = chunk_pos s; left = space_left s;
          c = (chunk s)[pos := 0x80];
          pos = pos + 1; left = left - 1;
          (h', c, pos, left) =
            (if left < 8 then
               let c = memset_at c pos left 0
               in (consume_chunk (h s) c, c, 0, 64)
             else (h s, c, pos, left));
          pad = left - 8;
          c = memset_at c pos pad 0;
          c = memcpy_at c (pos + pad) (len_bytes (total_len s));
          h' = consume_chunk h' c
      in concat (map (\<lambda>i. be32 (h' ! i)) [0..<8]))"

definition calc_sha_256 :: "bytes \<Rightarrow> bytes" where
  "calc_sha_256 input =
     sha_256_close (sha_256_write (sha_256_init (replicate 64 0)) input)"

section \<open>FIPS 180-4\<close>

definition Sigma0 :: "u32 \<Rightarrow> u32" where
  "Sigma0 x = word_rotr 2 x XOR word_rotr 13 x XOR word_rotr 22 x"

definition Sigma1 :: "u32 \<Rightarrow> u32" where
  "Sigma1 x = word_rotr 6 x XOR word_rotr 11 x XOR word_rotr 25 x"

definition sigma0 :: "u32 \<Rightarrow> u32" where
  "sigma0 x = word_rotr 7 x XOR word_rotr 18 x XOR drop_bit 3 x"

definition sigma1 :: "u32 \<Rightarrow> u32" where
  "sigma1 x = word_rotr 17 x XOR word_rotr 19 x XOR drop_bit 10 x"

definition Ch :: "u32 \<Rightarrow> u32 \<Rightarrow> u32 \<Rightarrow> u32" where
  "Ch x y z = (x AND y) XOR (NOT x AND z)"

definition Maj :: "u32 \<Rightarrow> u32 \<Rightarrow> u32 \<Rightarrow> u32" where
  "Maj x y z = (x AND y) XOR (x AND z) XOR (y AND z)"

text \<open>The whole 64-entry schedule, with no window.\<close>

fun schedule :: "bytes \<Rightarrow> nat \<Rightarrow> u32" where
  "schedule M t =
     (if t < 16 then load_be32 (drop (4 * t) M)
      else sigma1 (schedule M (t - 2)) + schedule M (t - 7)
           + sigma0 (schedule M (t - 15)) + schedule M (t - 16))"

declare schedule.simps [simp del]

fun sha_round :: "u32 \<Rightarrow> u32 \<Rightarrow> u32 list \<Rightarrow> u32 list" where
  "sha_round K W [a, b, c, d, e, f, g, hh] =
     (let T1 = hh + Sigma1 e + Ch e f g + K + W;
          T2 = Sigma0 a + Maj a b c
      in [T1 + T2, a, b, c, d + T1, e, f, g])"
| "sha_round K W regs = regs"

definition compress :: "u32 list \<Rightarrow> bytes \<Rightarrow> u32 list" where
  "compress H M =
     map2 (+) H (fold (\<lambda>t. sha_round (sha_k ! t) (schedule M t)) [0..<64] H)"

fun hash_blocks :: "u32 list \<Rightarrow> bytes \<Rightarrow> u32 list" where
  "hash_blocks H M =
     (if length M < 64 then H else hash_blocks (compress H (take 64 M)) (drop 64 M))"

declare hash_blocks.simps [simp del]

definition H0 :: "u32 list" where
  "H0 = [0x6a09e667, 0xbb67ae85, 0x3c6ef372, 0xa54ff53a,
         0x510e527f, 0x9b05688c, 0x1f83d9ab, 0x5be0cd19]"

definition sha_pad :: "bytes \<Rightarrow> bytes" where
  "sha_pad M = M @ [0x80] @ replicate ((119 - length M mod 64) mod 64) 0
     @ be64 (of_nat (8 * length M))"

definition SHA256 :: "bytes \<Rightarrow> bytes" where
  "SHA256 M = concat (map be32 (hash_blocks H0 (sha_pad M)))"

section \<open>The rolling window computes the schedule\<close>

lemma right_rot_eq:
  assumes "0 < c" and "c < 32"
  shows "right_rot v c = word_rotr c v"
proof (rule bit_word_eqI)
  fix n assume "n < LENGTH(32)"
  then have n: "n < 32" by simp
  show "bit (right_rot v c) n = bit (word_rotr c v) n"
  proof (cases "n + c < 32")
    case True
    then have "\<not> 32 - c \<le> n" using assms by arith
    with True show ?thesis
      using assms n by (simp add: right_rot_def bit_simps add.commute)
  next
    case False
    then have "(n + c) mod 32 = n + c - 32" and "\<not> bit v (c + n)" and "32 - c \<le> n"
      and "n - (32 - c) = n + c - 32"
      using assms n by (auto simp: le_mod_geq dest: bit_imp_le_length)
    then show ?thesis
      using assms n False by (simp add: right_rot_def bit_simps)
  qed
qed

lemma length8E:
  assumes "length xs = 8"
  obtains a b c d e f g k where "xs = [a, b, c, d, e, f, g, k]"
  using assms by (auto simp: eval_nat_numeral length_Suc_conv)

lemma length_sha_round [simp]: "length (sha_round K W rs) = length rs"
  by (cases "(K, W, rs)" rule: sha_round.cases) (simp_all add: Let_def)

lemma consume_regs_round:
  assumes "length (ah s) = 8"
  shows "consume_regs i j s = s\<lparr>ah := sha_round (sha_k ! (push_bit 4 i OR j)) (w s ! j) (ah s)\<rparr>"
  using assms by (elim length8E)
    (simp add: consume_regs_def right_rot_eq Sigma0_def Sigma1_def Ch_def Maj_def Let_def)

definition rounds :: "bytes \<Rightarrow> u32 list \<Rightarrow> nat \<Rightarrow> u32 list" where
  "rounds M H t = fold (\<lambda>t. sha_round (sha_k ! t) (schedule M t)) [0..<t] H"

lemma rounds_0 [simp]: "rounds M H 0 = H"
  by (simp add: rounds_def)

lemma rounds_Suc [simp]:
  "rounds M H (Suc t) = sha_round (sha_k ! t) (schedule M t) (rounds M H t)"
  by (simp add: rounds_def)

lemma compress_rounds: "compress H M = map2 (+) H (rounds M H 64)"
  by (simp add: compress_def rounds_def)

lemma length_rounds [simp]: "length (rounds M H t) = length H"
  by (induction t) simp_all

text \<open>
  After \<open>t\<close> steps the window holds the last sixteen schedule words, each at its index
  modulo 16, and the read pointer has advanced four bytes for each of the first sixteen.
\<close>

definition step_inv :: "bytes \<Rightarrow> u32 list \<Rightarrow> nat \<Rightarrow> chunk_locals \<Rightarrow> bool" where
  "step_inv M H t s \<longleftrightarrow>
     length (w s) = 16 \<and> ah s = rounds M H t \<and> p s = drop (4 * min t 16) M \<and>
     (\<forall>k<t. t \<le> k + 16 \<longrightarrow> w s ! (k mod 16) = schedule M k)"

lemma step_inv_window:
  assumes "step_inv M H t s" and "k < t" and "t \<le> k + 16" and "n = k mod 16"
  shows "w s ! n = schedule M k"
  using assms by (simp add: step_inv_def)

lemma step_index: "j < 16 \<Longrightarrow> push_bit 4 i OR j = 16 * i + (j::nat)"
proof -
  assume "j < 16"
  then have j: "take_bit 4 j = j" by (simp add: take_bit_eq_mod)
  have "push_bit 4 i AND take_bit 4 j = 0"
    by (rule bit_eqI) (auto simp: bit_simps)
  then have "push_bit 4 i + j = push_bit 4 i OR j"
    using j by (metis disjunctive_add_eq_or)
  then show ?thesis by (simp add: push_bit_eq_mult mult.commute)
qed


lemma consume_w_inv:
  assumes inv: "step_inv M H (16 * i + j) s" and j: "j < 16" and M: "64 \<le> length M"
  defines "s' \<equiv> consume_w i j s"
  shows "length (w s') = 16" and "ah s' = ah s" and "p s' = drop (4 * min (Suc (16 * i + j)) 16) M"
    and "w s' = (w s)[j := schedule M (16 * i + j)]"
proof -
  let ?t = "16 * i + j"
  have len: "length (w s) = 16" and p: "p s = drop (4 * min ?t 16) M"
    using inv by (simp_all add: step_inv_def)
  have upd: "w s' = (w s)[j := schedule M ?t]"
  proof (cases "i = 0")
    case True
    then show ?thesis
      using p j by (simp add: s'_def consume_w_def schedule.simps [of M j])
  next
    case False
    then obtain i' where i: "i = Suc i'" by (cases i) auto
    then have t: "16 \<le> ?t" by simp
    have idx: "?t - 16 = j + 16 * i'" "?t - 15 = Suc j + 16 * i'"
      "?t - 7 = (j + 9) + 16 * i'" "?t - 2 = (j + 14) + 16 * i'"
      using i by simp_all
    have W: "w s ! j = schedule M (?t - 16)" "w s ! (Suc j AND 15) = schedule M (?t - 15)"
      "w s ! ((j + 9) AND 15) = schedule M (?t - 7)" "w s ! ((j + 14) AND 15) = schedule M (?t - 2)"
      unfolding idx nat_and_15
      by (rule step_inv_window [OF inv]; use i j in \<open>simp add: mod_mult_self2\<close>)+
    have "w s' = (w s)[j := schedule M (?t - 16) + sigma0 (schedule M (?t - 15))
                          + schedule M (?t - 7) + sigma1 (schedule M (?t - 2))]"
      using False by (simp add: s'_def consume_w_def Let_def W right_rot_eq sigma0_def sigma1_def)
    also have "\<dots> = (w s)[j := schedule M ?t]"
      using t by (subst schedule.simps [of M ?t]) (simp add: add_ac)
    finally show ?thesis .
  qed
  show "w s' = (w s)[j := schedule M ?t]" by (fact upd)
  then show "length (w s') = 16" using len by simp
  show "ah s' = ah s" by (simp add: s'_def consume_w_def Let_def)
  show "p s' = drop (4 * min (Suc ?t) 16) M"
  proof (cases "i = 0")
    case True
    then show ?thesis using p j by (simp add: s'_def consume_w_def add.commute)
  next
    case False
    then have "min ?t 16 = 16" and "min (Suc ?t) 16 = 16" by simp_all
    then show ?thesis using p False by (simp add: s'_def consume_w_def Let_def)
  qed
qed

lemma window_mod:
  assumes "k < 16 * i + j" and "16 * i + j < k + 16" and "j < (16::nat)"
  shows "k mod 16 \<noteq> j"
proof
  assume "k mod 16 = j"
  then obtain q where "k = 16 * q + j" by (metis mult_div_mod_eq)
  with assms have "q < i" and "i < Suc q" by simp_all
  then show False by simp
qed

lemma consume_step_inv:
  assumes inv: "step_inv M H (16 * i + j) s" and j: "j < 16"
    and M: "64 \<le> length M" and H: "length H = 8"
  shows "step_inv M H (Suc (16 * i + j)) (consume_regs i j (consume_w i j s))"
proof -
  let ?t = "16 * i + j" and ?s = "consume_w i j s"
  note W = consume_w_inv [OF inv j M]
  have ah: "ah s = rounds M H ?t" and win: "\<forall>k<?t. ?t \<le> k + 16 \<longrightarrow> w s ! (k mod 16) = schedule M k"
    and len: "length (w s) = 16" using inv by (simp_all add: step_inv_def)
  have regs: "consume_regs i j ?s = ?s\<lparr>ah := rounds M H (Suc ?t)\<rparr>"
    using consume_regs_round [of ?s i j] H W(2,4) ah j len by (simp add: step_index)
  have "w ?s ! (k mod 16) = schedule M k" if k: "k < Suc ?t" "Suc ?t \<le> k + 16" for k
  proof (cases "k = ?t")
    case True
    then show ?thesis using W(4) j len by simp
  next
    case False
    then have "k mod 16 \<noteq> j" using k j by (intro window_mod [of k i]) simp_all
    moreover have "w s ! (k mod 16) = schedule M k" using win k False by simp
    ultimately show ?thesis using W(4) by simp
  qed
  then show ?thesis
    using regs W(1,3) by (simp add: step_inv_def)
qed

lemma consume_chunk_with_eq:
  assumes M: "64 \<le> length M" and H: "length H = 8" and st: "length st = 16"
  shows "consume_chunk_with st H M = compress H M"
proof -
  let ?f = "\<lambda>i j s. consume_regs i j (consume_w i j s)"
  let ?s0 = "\<lparr>ah = H, w = st, p = M\<rparr>"
  have inner: "step_inv M H (16 * Suc i) (fold (?f i) [0..<16] s)"
    if "step_inv M H (16 * i) s" for i s
    using fold_upt_invariant [where I = "\<lambda>j. step_inv M H (16 * i + j)" and n = 16 and f = "?f i"]
      consume_step_inv [OF _ _ M H] that by (simp add: add.commute)
  have "step_inv M H (16 * 4) (fold (\<lambda>i. fold (?f i) [0..<16]) [0..<4] ?s0)"
    by (rule fold_upt_invariant [where I = "\<lambda>i. step_inv M H (16 * i)"])
       (use inner st in \<open>auto simp: step_inv_def\<close>)
  then have "ah (fold (\<lambda>i. fold (?f i) [0..<16]) [0..<4] ?s0) = rounds M H 64"
    by (simp add: step_inv_def)
  then show ?thesis
    using H by (simp add: consume_chunk_with_def compress_rounds Let_def list_eq_iff_nth_eq)
qed

section \<open>Streaming\<close>

lemma length_compress: "length H = 8 \<Longrightarrow> length (compress H M) = 8"
  by (simp add: compress_rounds)

lemma length_hash_blocks: "length H = 8 \<Longrightarrow> length (hash_blocks H M) = 8"
  by (induction H M rule: hash_blocks.induct) (simp add: hash_blocks.simps length_compress)

lemma hash_blocks_short [simp]: "length M < 64 \<Longrightarrow> hash_blocks H M = H"
  by (simp add: hash_blocks.simps)

lemma hash_blocks_one: "length B = 64 \<Longrightarrow> hash_blocks H (B @ M) = hash_blocks (compress H B) M"
  by (simp add: hash_blocks.simps [of H "B @ M"])

lemma hash_blocks_append:
  "64 dvd length A \<Longrightarrow> hash_blocks H (A @ B) = hash_blocks (hash_blocks H A) B"
proof (induction H A rule: hash_blocks.induct)
  case (1 H A)
  show ?case
  proof (cases "length A < 64")
    case True
    then have "A = []" using "1.prems" by auto
    then show ?thesis by simp
  next
    case False
    then have "64 dvd length (drop 64 A)" using "1.prems" by (simp add: dvd_minus_self)
    then show ?thesis
      using "1.IH" False hash_blocks.simps [of H A] hash_blocks.simps [of H "A @ B"] by simp
  qed
qed

lemma hash_blocks_snoc:
  assumes "64 dvd length A" and "length B = 64"
  shows "hash_blocks H (A @ B) = compress (hash_blocks H A) B"
  using hash_blocks_one [of B _ "[]"] by (simp add: hash_blocks_append assms)

lemma length_H0 [simp]: "length H0 = 8"
  by (simp add: H0_def)

lemma consume_chunk_eq:
  "64 \<le> length M \<Longrightarrow> length H = 8 \<Longrightarrow> consume_chunk H M = compress H M"
  by (simp add: consume_chunk_def consume_chunk_with_eq)

text \<open>
  The state holds the message \<open>M\<close> hashed so far: the whole blocks are in \<open>h\<close> and the rest
  is the used prefix of \<open>chunk\<close>, which is never full between writes.
\<close>

definition buffered :: "bytes \<Rightarrow> sha_256 \<Rightarrow> bool" where
  "buffered M s \<longleftrightarrow> length (chunk s) = 64 \<and>
     (\<exists>A r. M = A @ r \<and> 64 dvd length A \<and> length r < 64 \<and> h s = hash_blocks H0 A \<and>
       chunk_pos s = length r \<and> space_left s = 64 - length r \<and> take (length r) (chunk s) = r)"

definition sha_inv :: "bytes \<Rightarrow> sha_256 \<Rightarrow> bool" where
  "sha_inv M s \<longleftrightarrow> buffered M s \<and> total_len s = of_nat (length M)"

lemma bufferedI:
  assumes "M = A @ r" "64 dvd length A" "length r < 64" "length (chunk s) = 64"
    and "h s = hash_blocks H0 A" "chunk_pos s = length r" "space_left s = 64 - length r"
    and "take (length r) (chunk s) = r"
  shows "buffered M s"
  using assms unfolding buffered_def by blast

lemma bufferedE:
  assumes "buffered M s"
  obtains A r where "M = A @ r" "64 dvd length A" "length r < 64" "length (chunk s) = 64"
    and "h s = hash_blocks H0 A" "chunk_pos s = length r" "space_left s = 64 - length r"
    and "take (length r) (chunk s) = r"
  using assms unfolding buffered_def by blast

lemma sha_inv_init: "length st = 64 \<Longrightarrow> sha_inv [] (sha_256_init st)"
  unfolding sha_inv_def
  by (intro conjI bufferedI [where A = "[]" and r = "[]"]) (simp_all add: sha_256_init_def H0_def)

lemma buffered_block:
  assumes s: "buffered M s" and "space_left s = 64" and q: "64 \<le> length q"
  shows "buffered (M @ take 64 q) (s\<lparr>h := consume_chunk (h s) (take 64 q)\<rparr>)"
proof -
  from s obtain A r where A: "M = A @ r" "64 dvd length A" "length r < 64" "length (chunk s) = 64"
    "h s = hash_blocks H0 A" "chunk_pos s = length r" "space_left s = 64 - length r"
    by (elim bufferedE)
  then have "length r = 0" using assms(2) by arith
  then have r: "r = []" by simp
  show ?thesis
    by (rule bufferedI [where A = "A @ take 64 q" and r = "[]"])
       (use A r q in \<open>simp_all add: hash_blocks_snoc consume_chunk_eq length_hash_blocks min_def\<close>)
qed

lemma buffered_fill:
  assumes s: "buffered M s" and part: "length part \<le> space_left s"
  shows "buffered (M @ part) (sha_256_fill s part)"
proof -
  let ?s1 = "s\<lparr>chunk := memcpy_at (chunk s) (chunk_pos s) part, space_left := space_left s - length part\<rparr>"
  from s obtain A r where A: "M = A @ r" "64 dvd length A" "length r < 64" "length (chunk s) = 64"
    "h s = hash_blocks H0 A" "chunk_pos s = length r" "space_left s = 64 - length r"
    and r: "take (length r) (chunk s) = r"
    by (elim bufferedE)
  have c: "chunk ?s1 = r @ part @ drop (length r + length part) (chunk s)"
    using A r by (simp add: memcpy_at_def)
  show ?thesis
  proof (cases "space_left ?s1 = 0")
    case True
    then have full: "length r + length part = 64" using A part by simp
    then have c64: "chunk ?s1 = r @ part" "length (r @ part) = 64" using c A by simp_all
    show ?thesis
      by (rule bufferedI [where A = "A @ r @ part" and r = "[]"])
         (use True A c64 full in
           \<open>simp_all add: sha_256_fill_def Let_def hash_blocks_snoc consume_chunk_eq length_hash_blocks\<close>)
  next
    case False
    then have "length r + length part < 64" using A part by simp
    then show ?thesis
      by (intro bufferedI [where A = A and r = "r @ part"])
         (use False A c in \<open>simp_all add: sha_256_fill_def Let_def\<close>)
  qed
qed

lemma buffered_write_loop: "buffered M s \<Longrightarrow> buffered (M @ q) (sha_256_write_loop s q)"
proof (induction s q arbitrary: M rule: sha_256_write_loop.induct)
  case (1 s q)
  show ?case
  proof (cases "q = []")
    case True
    then show ?thesis using "1.prems" by (simp add: sha_256_write_loop.simps)
  next
    case q: False
    show ?thesis
    proof (cases "space_left s = 64 \<and> 64 \<le> length q")
      case True
      then have "buffered ((M @ take 64 q) @ drop 64 q)
          (sha_256_write_loop (s\<lparr>h := consume_chunk (h s) (take 64 q)\<rparr>) (drop 64 q))"
        using q "1.prems" by (intro "1.IH"(1) buffered_block) simp_all
      then show ?thesis using True q by (simp add: sha_256_write_loop.simps [of s q])
    next
      case False
      define n where "n = (if length q < space_left s then length q else space_left s)"
      have "buffered ((M @ take n q) @ drop n q)
          (sha_256_write_loop (sha_256_fill s (take n q)) (drop n q))"
        using q False n_def "1.prems" by (intro "1.IH"(2) buffered_fill) simp_all
      then show ?thesis
        unfolding sha_256_write_loop.simps [of s q] if_not_P [OF q] if_not_P [OF False]
          Let_def n_def [symmetric] by simp
    qed
  qed
qed

lemma total_len_fill [simp]: "total_len (sha_256_fill s part) = total_len s"
  by (simp add: sha_256_fill_def Let_def)

lemma total_len_write_loop [simp]: "total_len (sha_256_write_loop s q) = total_len s"
proof (induction s q rule: sha_256_write_loop.induct)
  case (1 s q)
  then show ?case by (subst sha_256_write_loop.simps) (auto simp: Let_def)
qed

lemma sha_inv_write:
  assumes "sha_inv M s"
  shows "sha_inv (M @ d) (sha_256_write s d)"
proof -
  have "buffered M (s\<lparr>total_len := total_len s + of_nat (length d)\<rparr>)"
    using assms by (simp add: sha_inv_def buffered_def)
  then show ?thesis
    using assms by (simp add: sha_inv_def sha_256_write_def buffered_write_loop)
qed

section \<open>Closing: the padded last block\<close>

lemma len_bytes_eq: "len_bytes len = be64 (push_bit 3 len)"
proof -
  have byte: "(ucast (drop_bit (k + 5) len) :: u8) = ucast (drop_bit (k + 8) (push_bit 3 len))"
    if "k < 49" for k
    by (rule bit_word_eqI) (use that in \<open>auto simp: bit_simps add_ac\<close>)
  have "len_bytes len = map (\<lambda>i. if i < 7 then ucast (drop_bit (8 * (6 - i) + 5) len)
      else ucast (push_bit 3 len)) [0..<8]"
    by (simp add: len_bytes_def Let_def eval_nat_numeral)
  also have "\<dots> = be64 (push_bit 3 len)"
    unfolding be64_def
  proof (rule map_cong)
    fix i assume "i \<in> set [0..<(8::nat)]"
    then have "i < 7 \<Longrightarrow> 8 * (7 - i) = 8 * (6 - i) + 8" and "\<not> i < 7 \<Longrightarrow> i = 7" by auto
    then show "(if i < 7 then ucast (drop_bit (8 * (6 - i) + 5) len) else ucast (push_bit 3 len) :: u8)
        = ucast (drop_bit (8 * (7 - i)) (push_bit 3 len))"
      using byte [of "8 * (6 - i)"] by auto
  qed simp
  finally show ?thesis .
qed

lemma be64_length_bits: "be64 (push_bit 3 (of_nat n)) = be64 (of_nat (8 * n))"
  by (simp add: push_bit_eq_mult mult.commute)

lemma mod_from_blocks:
  "64 dvd length A \<Longrightarrow> length r < 64 \<Longrightarrow> length (A @ r) mod 64 = length r"
  by (metis length_append mod_add_left_eq add.left_neutral dvd_imp_mod_0 mod_less)

text \<open>What \<open>sha_256_close\<close> leaves in \<open>chunk\<close> when the length still fits, and when it does not.\<close>

lemma close_short:
  assumes c: "length c = 64" and r: "take (length r) c = r" and short: "length r < 56"
    and n: "n = 55 - length r"
  shows "memcpy_at (memset_at (c[length r := 0x80]) (length r + 1) n 0) (length r + 1 + n) (len_bytes len)
         = r @ [0x80] @ replicate n 0 @ len_bytes len"
proof -
  have "length (drop (length r) c) = 1 + n + 8" using c short n by simp
  then obtain a m t where d: "drop (length r) c = a @ m @ t" "length a = 1" "length m = n" "length t = 8"
    by (elim list_split3)
  then have "c[length r := 0x80] = (r @ [0x80]) @ m @ t"
    using r append_take_drop_id [of "length r" c] by (auto simp: length_Suc_conv list_update_append)
  moreover have "memset_at ((r @ [0x80]) @ m @ t) (length r + 1) n 0 = (r @ [0x80]) @ replicate n 0 @ t"
    by (rule memset_at_mid) (use d in simp_all)
  ultimately have "memset_at (c[length r := 0x80]) (length r + 1) n 0 = (r @ [0x80] @ replicate n 0) @ t @ []"
    by simp
  moreover have "memcpy_at ((r @ [0x80] @ replicate n 0) @ t @ []) (length r + 1 + n) (len_bytes len)
      = (r @ [0x80] @ replicate n 0) @ len_bytes len @ []"
    by (rule memcpy_at_mid) (use d in \<open>simp_all add: len_bytes_eq\<close>)
  ultimately show ?thesis by simp
qed

lemma close_long:
  assumes c: "length c = 64" and r: "take (length r) c = r"
    and long: "56 \<le> length r" "length r < 64" and n: "n = 63 - length r"
  shows "memset_at (c[length r := 0x80]) (length r + 1) n 0 = r @ [0x80] @ replicate n 0"
proof -
  have "length (drop (length r) c) = 1 + n + 0" using c long n by simp
  then obtain a m t where d: "drop (length r) c = a @ m @ t" "length a = 1" "length m = n" "length t = 0"
    by (elim list_split3)
  then have "c[length r := 0x80] = (r @ [0x80]) @ m @ []"
    using r append_take_drop_id [of "length r" c] by (auto simp: length_Suc_conv list_update_append)
  moreover have "memset_at ((r @ [0x80]) @ m @ []) (length r + 1) n 0 = (r @ [0x80]) @ replicate n 0 @ []"
    by (rule memset_at_mid) (use d in simp_all)
  ultimately show ?thesis by simp
qed

lemma close_extra:
  "length c = 64 \<Longrightarrow>
     memcpy_at (memset_at c 0 56 0) (0 + 56) (len_bytes len) = replicate 56 0 @ len_bytes len"
  by (simp add: memset_at_def memcpy_at_def len_bytes_eq)

lemma concat_be32_index:
  assumes "length xs = 8"
  shows "concat (map (\<lambda>i. be32 (xs ! i)) [0..<8]) = concat (map be32 xs)"
proof -
  have "map (\<lambda>i. be32 (xs ! i)) [0..<8] = map be32 xs"
    using assms by (simp add: list_eq_iff_nth_eq)
  then show ?thesis by simp
qed

lemma hash_one:
  assumes "64 dvd length A" and "length B = 64" and "sha_pad M = A @ B"
  shows "SHA256 M = concat (map (\<lambda>i. be32 (consume_chunk (hash_blocks H0 A) B ! i)) [0..<8])"
  using assms
  by (simp add: SHA256_def hash_blocks_snoc consume_chunk_eq length_hash_blocks length_compress
      concat_be32_index)

lemma sha_256_close_eq:
  assumes "sha_inv M s"
  shows "sha_256_close s = SHA256 M"
proof -
  from assms have len: "total_len s = of_nat (length M)" and "buffered M s"
    by (simp_all add: sha_inv_def)
  then obtain A r where M: "M = A @ r" "64 dvd length A" "length r < 64" and c: "length (chunk s) = 64"
    and st: "h s = hash_blocks H0 A" "chunk_pos s = length r" "space_left s = 64 - length r"
    and r: "take (length r) (chunk s) = r"
    by (elim bufferedE)
  let ?L = "len_bytes (of_nat (length M))"
  have L: "be64 (of_nat (8 * length M)) = ?L" by (simp only: len_bytes_eq be64_length_bits)
  have pad: "sha_pad M = A @ r @ [0x80] @ replicate ((119 - length r) mod 64) 0 @ ?L"
    unfolding sha_pad_def L using M(1) mod_from_blocks [OF M(2,3)] by simp
  show ?thesis
  proof (cases "length r < 56")
    case True
    let ?n = "64 - length r - 1 - 8"
    have n: "?n = 55 - length r" by simp
    have "119 - length r = 64 + ?n" using True by simp
    then have "(119 - length r) mod 64 = ?n mod 64" by (simp only: mod_add_self1)
    then have "(119 - length r) mod 64 = ?n" by (simp only: mod_less)
    then have P: "sha_pad M = A @ (r @ [0x80] @ replicate ?n 0 @ ?L)" using pad by simp
    have "length (r @ [0x80] @ replicate ?n 0 @ ?L) = 64" using True by (simp add: len_bytes_eq)
    note hash_one [OF M(2) this P]
    moreover have "\<not> 64 - length r - 1 < 8" using True by simp
    ultimately show ?thesis
      unfolding sha_256_close_def Let_def st len
      by (simp only: if_False if_not_P prod.case close_short [OF c r True n])
  next
    case False
    then have long: "56 \<le> length r" by simp
    let ?n = "64 - length r - 1"
    let ?B = "r @ [0x80] @ replicate ?n 0"
    have n: "?n = 63 - length r" by simp
    have "(119 - length r) mod 64 = ?n + 56" using long M(3) by simp
    then have P: "sha_pad M = (A @ ?B) @ (replicate 56 0 @ ?L)"
      using pad by (simp only: replicate_add append_assoc)
    have B: "length ?B = 64" using long M(3) by simp
    have A: "64 dvd length (A @ ?B)" using M(2) B by (simp only: length_append dvd_add_triv_right_iff)
    have "length (replicate 56 0 @ ?L) = 64" by (simp add: len_bytes_eq)
    note hash_one [OF A this P]
    moreover have "hash_blocks H0 (A @ ?B) = consume_chunk (hash_blocks H0 A) ?B"
      using hash_blocks_snoc [OF M(2) B] B by (simp only: consume_chunk_eq length_hash_blocks length_H0)
    moreover have "64 - length r - 1 < 8" "64 - 8 = (56::nat)" using long by simp_all
    ultimately show ?thesis
      unfolding sha_256_close_def Let_def st len
      by (simp only: if_True if_P prod.case close_long [OF c r long M(3) n] close_extra [OF B])
  qed
qed


lemma length_concat_be32: "length (concat (map be32 xs)) = 4 * length xs"
  by (induction xs) simp_all

lemma length_SHA256: "length (SHA256 M) = 32"
  by (simp add: SHA256_def length_concat_be32 length_hash_blocks)

section \<open>The streaming contract\<close>

definition sha_started :: "sha_256 \<Rightarrow> bool" where
  "sha_started s \<longleftrightarrow> (\<exists>st. length st = 64 \<and> s = sha_256_init st)"

interpretation sha: block_hash sha_started sha_256_write sha_256_close sha_inv SHA256 64 32
  by unfold_locales
     (auto simp: sha_started_def length_SHA256 intro: sha_inv_init sha_inv_write sha_256_close_eq)

lemma sha_started_init [simp]: "length st = 64 \<Longrightarrow> sha_started (sha_256_init st)"
  by (auto simp: sha_started_def)

section \<open>Properties\<close>

text \<open>C3: The digest the streaming interface delivers is the SHA-256 of FIPS 180-4 of the
  concatenation of everything written, for every way of cutting the input into writes (empty
  ones included) and whatever the uninitialised \<open>chunk\<close> array held.
\<close>

theorem sha256_stream_correct:
  assumes "length st = 64"
  shows "sha_256_close (fold (\<lambda>d s. sha_256_write s d) ds (sha_256_init st)) = SHA256 (concat ds)"
  using assms by (simp add: sha.stream_digest)

theorem sha256_stream_correct_witness:
  "length (replicate 64 (0xcc::u8)) = 64 \<and>
   sha_256_close (fold (\<lambda>d s. sha_256_write s d) [[0x61], [], [0x62, 0x63]]
       (sha_256_init (replicate 64 0xcc))) = SHA256 [0x61, 0x62, 0x63]"
  using sha256_stream_correct [of "replicate 64 0xcc" "[[0x61], [], [0x62, 0x63]]"] by simp

text \<open>The one-shot \<open>calc_sha_256\<close> computes SHA-256 of any input.\<close>

theorem calc_sha_256_correct: "calc_sha_256 input = SHA256 input"
  by (simp add: calc_sha_256_def sha.one_feed)

text \<open>C4: One call of \<open>consume_chunk\<close>, with its window of sixteen schedule words in place of
  sixty-four, is the FIPS 180-4 compression of the chunk, and the contents of the
  uninitialised window array do not reach the result.
\<close>

theorem consume_chunk_refines:
  assumes "length st = 16" and "length H = 8" and "64 \<le> length M"
  shows "consume_chunk_with st H M = compress H M"
  using assms by (simp add: consume_chunk_with_eq)

theorem consume_chunk_refines_witness:
  "consume_chunk_with (replicate 16 7) H0 (replicate 64 1) = compress H0 (replicate 64 1)"
  by (rule consume_chunk_refines) simp_all

end
