(* ===== verification/Hmac.thy ===== *)
theory Hmac
  imports Sha256
begin

text \<open>
  The HMAC-SHA-256 appended to \<open>src/src/boot/mftah_uefi/sha256.c\<close>: the helper \<open>H\<close> that
  hashes two buffers one after the other, and \<open>hmac_sha256\<close>. The properties come from the
  streaming contract \<open>block_hash\<close> through its interpretation \<open>sha\<close>.
\<close>

section \<open>The code\<close>

definition H_concat :: "bytes \<Rightarrow> bytes \<Rightarrow> bytes" where
  "H_concat x y =
     (let sha = sha_256_init (replicate 64 0);
          sha = sha_256_write sha x;
          sha = sha_256_write sha y
      in sha_256_close sha)"

definition hmac_block_key :: "bytes \<Rightarrow> bytes" where
  "hmac_block_key key =
     (let k = replicate 64 0
      in if length key > 64 then memcpy_at k 0 (calc_sha_256 key) else memcpy_at k 0 key)"

definition hmac_sha256 :: "bytes \<Rightarrow> bytes \<Rightarrow> bytes" where
  "hmac_sha256 key data =
     (let k = hmac_block_key key;
          (k_ipad, k_opad) =
            fold (\<lambda>i (ip, op). (ip[i := ip ! i XOR k ! i], op[i := op ! i XOR k ! i])) [0..<64]
              (replicate 64 0x36, replicate 64 0x5c);
          ihash = H_concat k_ipad data;
          ohash = H_concat k_opad ihash
      in take 32 ohash)"

section \<open>The pads\<close>

lemma fold_pair:
  "fold (\<lambda>i (x, y). (f i x, g i y)) is (x, y) = (fold f is x, fold g is y)"
  by (induction "is" arbitrary: x y) simp_all

lemma pad_loop:
  assumes "length k = 64"
  shows "fold (\<lambda>i b. b[i := b ! i XOR k ! i]) [0..<64] (replicate 64 (v::u8)) = map ((XOR) v) k"
proof -
  have "fold (\<lambda>i b. b[i := b ! i XOR k ! i]) [0..<64] (replicate 64 v)
      = map (\<lambda>i. replicate 64 v ! i XOR k ! i) [0..<64] @ drop 64 (replicate 64 v)"
    using fold_update_cells [of 64 "replicate 64 v" "\<lambda>i x. x XOR k ! i"] by simp
  then show ?thesis using assms by (simp add: list_eq_iff_nth_eq)
qed

lemma hmac_block_key_eq: "hmac_block_key key = hmac_key SHA256 64 key"
  by (simp add: hmac_block_key_def hmac_key_def memcpy_at_def Let_def length_SHA256
      calc_sha_256_def sha.one_feed)

lemma hmac_sha256_eq: "hmac_sha256 key data = hmac_rfc2104 SHA256 64 key data"
proof -
  let ?k = "hmac_key SHA256 64 key"
  have k: "length ?k = 64" by (rule sha.mac.length_hmac_key)
  have "hmac_sha256 key data
      = take 32 (H_concat (map ((XOR) 0x5c) ?k) (H_concat (map ((XOR) 0x36) ?k) data))"
    by (simp add: hmac_sha256_def fold_pair pad_loop k hmac_block_key_eq Let_def)
  also have "\<dots> = take 32 (hmac_rfc2104 SHA256 64 key data)"
    unfolding H_concat_def Let_def by (subst sha.nested_feeds) simp_all
  finally show ?thesis by (simp add: sha.mac.length_hmac)
qed

section \<open>Properties\<close>

text \<open>C5: \<open>hmac_sha256\<close> is HMAC (RFC 2104) over SHA-256 with a 64-byte block, for keys and
  messages of every length: long keys are hashed first, short ones padded with zeros, and the
  inner and outer pads are 0x36 and 0x5c.
\<close>

theorem hmac_sha256_correct: "hmac_sha256 key data = hmac_rfc2104 SHA256 64 key data"
  by (rule hmac_sha256_eq)

text \<open>The output is always 32 bytes, a key longer than one block acts as its own digest, and
  a key that fits one block acts as the same key with trailing zeros.
\<close>

theorem hmac_sha256_key_forms:
  shows "length (hmac_sha256 key data) = 32
    \<and> (64 < length key \<longrightarrow> hmac_sha256 key data = hmac_sha256 (calc_sha_256 key) data)
    \<and> (length key + n \<le> 64 \<longrightarrow> hmac_sha256 (key @ replicate n 0) data = hmac_sha256 key data)"
  by (simp add: hmac_sha256_eq sha.mac.length_hmac sha.mac.hmac_zero_padded_key
      sha.mac.hmac_long_key [symmetric] calc_sha_256_def sha.one_feed)

theorem hmac_sha256_key_forms_witness:
  "hmac_sha256 (replicate 65 1) [] = hmac_sha256 (calc_sha_256 (replicate 65 1)) []
   \<and> hmac_sha256 ([1] @ replicate 2 0) [] = hmac_sha256 [1] []"
  using hmac_sha256_key_forms [of "replicate 65 1" "[]"] hmac_sha256_key_forms [of "[1]" "[]" 2]
  by (simp)

end
