(* ===== verification/Aes.thy ===== *)
theory Aes
  imports Prelude
begin

text \<open>
  \<open>src/src/boot/mftah_uefi/aes.c\<close>: AES-256 decryption in CBC mode. A state \<open>state_t\<close>
  is the 16 bytes of a block, \<open>(*state)[i][j]\<close> at index \<open>4 * i + j\<close>. The first section is
  the code; the second is the forward cipher and key schedule of FIPS 197 and the CBC mode of
  SP 800-38A, written from the standards; then the code is proved to invert them.
\<close>

section \<open>The code: tables and key expansion\<close>

definition sbox :: bytes where
  "sbox = [
    0x63, 0x7c, 0x77, 0x7b, 0xf2, 0x6b, 0x6f, 0xc5, 0x30, 0x01, 0x67, 0x2b, 0xfe, 0xd7, 0xab, 0x76,
    0xca, 0x82, 0xc9, 0x7d, 0xfa, 0x59, 0x47, 0xf0, 0xad, 0xd4, 0xa2, 0xaf, 0x9c, 0xa4, 0x72, 0xc0,
    0xb7, 0xfd, 0x93, 0x26, 0x36, 0x3f, 0xf7, 0xcc, 0x34, 0xa5, 0xe5, 0xf1, 0x71, 0xd8, 0x31, 0x15,
    0x04, 0xc7, 0x23, 0xc3, 0x18, 0x96, 0x05, 0x9a, 0x07, 0x12, 0x80, 0xe2, 0xeb, 0x27, 0xb2, 0x75,
    0x09, 0x83, 0x2c, 0x1a, 0x1b, 0x6e, 0x5a, 0xa0, 0x52, 0x3b, 0xd6, 0xb3, 0x29, 0xe3, 0x2f, 0x84,
    0x53, 0xd1, 0x00, 0xed, 0x20, 0xfc, 0xb1, 0x5b, 0x6a, 0xcb, 0xbe, 0x39, 0x4a, 0x4c, 0x58, 0xcf,
    0xd0, 0xef, 0xaa, 0xfb, 0x43, 0x4d, 0x33, 0x85, 0x45, 0xf9, 0x02, 0x7f, 0x50, 0x3c, 0x9f, 0xa8,
    0x51, 0xa3, 0x40, 0x8f, 0x92, 0x9d, 0x38, 0xf5, 0xbc, 0xb6, 0xda, 0x21, 0x10, 0xff, 0xf3, 0xd2,
    0xcd, 0x0c, 0x13, 0xec, 0x5f, 0x97, 0x44, 0x17, 0xc4, 0xa7, 0x7e, 0x3d, 0x64, 0x5d, 0x19, 0x73,
    0x60, 0x81, 0x4f, 0xdc, 0x22, 0x2a, 0x90, 0x88, 0x46, 0xee, 0xb8, 0x14, 0xde, 0x5e, 0x0b, 0xdb,
    0xe0, 0x32, 0x3a, 0x0a, 0x49, 0x06, 0x24, 0x5c, 0xc2, 0xd3, 0xac, 0x62, 0x91, 0x95, 0xe4, 0x79,
    0xe7, 0xc8, 0x37, 0x6d, 0x8d, 0xd5, 0x4e, 0xa9, 0x6c, 0x56, 0xf4, 0xea, 0x65, 0x7a, 0xae, 0x08,
    0xba, 0x78, 0x25, 0x2e, 0x1c, 0xa6, 0xb4, 0xc6, 0xe8, 0xdd, 0x74, 0x1f, 0x4b, 0xbd, 0x8b, 0x8a,
    0x70, 0x3e, 0xb5, 0x66, 0x48, 0x03, 0xf6, 0x0e, 0x61, 0x35, 0x57, 0xb9, 0x86, 0xc1, 0x1d, 0x9e,
    0xe1, 0xf8, 0x98, 0x11, 0x69, 0xd9, 0x8e, 0x94, 0x9b, 0x1e, 0x87, 0xe9, 0xce, 0x55, 0x28, 0xdf,
    0x8c, 0xa1, 0x89, 0x0d, 0xbf, 0xe6, 0x42, 0x68, 0x41, 0x99, 0x2d, 0x0f, 0xb0, 0x54, 0xbb, 0x16]"

definition rsbox :: bytes where
  "rsbox = [
    0x52, 0x09, 0x6a, 0xd5, 0x30, 0x36, 0xa5, 0x38, 0xbf, 0x40, 0xa3, 0x9e, 0x81, 0xf3, 0xd7, 0xfb,
    0x7c, 0xe3, 0x39, 0x82, 0x9b, 0x2f, 0xff, 0x87, 0x34, 0x8e, 0x43, 0x44, 0xc4, 0xde, 0xe9, 0xcb,
    0x54, 0x7b, 0x94, 0x32, 0xa6, 0xc2, 0x23, 0x3d, 0xee, 0x4c, 0x95, 0x0b, 0x42, 0xfa, 0xc3, 0x4e,
    0x08, 0x2e, 0xa1, 0x66, 0x28, 0xd9, 0x24, 0xb2, 0x76, 0x5b, 0xa2, 0x49, 0x6d, 0x8b, 0xd1, 0x25,
    0x72, 0xf8, 0xf6, 0x64, 0x86, 0x68, 0x98, 0x16, 0xd4, 0xa4, 0x5c, 0xcc, 0x5d, 0x65, 0xb6, 0x92,
    0x6c, 0x70, 0x48, 0x50, 0xfd, 0xed, 0xb9, 0xda, 0x5e, 0x15, 0x46, 0x57, 0xa7, 0x8d, 0x9d, 0x84,
    0x90, 0xd8, 0xab, 0x00, 0x8c, 0xbc, 0xd3, 0x0a, 0xf7, 0xe4, 0x58, 0x05, 0xb8, 0xb3, 0x45, 0x06,
    0xd0, 0x2c, 0x1e, 0x8f, 0xca, 0x3f, 0x0f, 0x02, 0xc1, 0xaf, 0xbd, 0x03, 0x01, 0x13, 0x8a, 0x6b,
    0x3a, 0x91, 0x11, 0x41, 0x4f, 0x67, 0xdc, 0xea, 0x97, 0xf2, 0xcf, 0xce, 0xf0, 0xb4, 0xe6, 0x73,
    0x96, 0xac, 0x74, 0x22, 0xe7, 0xad, 0x35, 0x85, 0xe2, 0xf9, 0x37, 0xe8, 0x1c, 0x75, 0xdf, 0x6e,
    0x47, 0xf1, 0x1a, 0x71, 0x1d, 0x29, 0xc5, 0x89, 0x6f, 0xb7, 0x62, 0x0e, 0xaa, 0x18, 0xbe, 0x1b,
    0xfc, 0x56, 0x3e, 0x4b, 0xc6, 0xd2, 0x79, 0x20, 0x9a, 0xdb, 0xc0, 0xfe, 0x78, 0xcd, 0x5a, 0xf4,
    0x1f, 0xdd, 0xa8, 0x33, 0x88, 0x07, 0xc7, 0x31, 0xb1, 0x12, 0x10, 0x59, 0x27, 0x80, 0xec, 0x5f,
    0x60, 0x51, 0x7f, 0xa9, 0x19, 0xb5, 0x4a, 0x0d, 0x2d, 0xe5, 0x7a, 0x9f, 0x93, 0xc9, 0x9c, 0xef,
    0xa0, 0xe0, 0x3b, 0x4d, 0xae, 0x2a, 0xf5, 0xb0, 0xc8, 0xeb, 0xbb, 0x3c, 0x83, 0x53, 0x99, 0x61,
    0x17, 0x2b, 0x04, 0x7e, 0xba, 0x77, 0xd6, 0x26, 0xe1, 0x69, 0x14, 0x63, 0x55, 0x21, 0x0c, 0x7d]"

definition Rcon :: bytes where
  "Rcon = [0x8d, 0x01, 0x02, 0x04, 0x08, 0x10, 0x20, 0x40, 0x80, 0x1b, 0x36]"

definition getSBoxValue :: "u8 \<Rightarrow> u8" where
  "getSBoxValue num = sbox ! unat num"

definition getSBoxInvert :: "u8 \<Rightarrow> u8" where
  "getSBoxInvert num = rsbox ! unat num"

definition key_copy_word :: "bytes \<Rightarrow> nat \<Rightarrow> bytes \<Rightarrow> bytes" where
  "key_copy_word Key i RoundKey =
     RoundKey[i * 4 + 0 := Key ! (i * 4 + 0), i * 4 + 1 := Key ! (i * 4 + 1),
              i * 4 + 2 := Key ! (i * 4 + 2), i * 4 + 3 := Key ! (i * 4 + 3)]"

definition key_expand_word :: "nat \<Rightarrow> bytes \<Rightarrow> bytes" where
  "key_expand_word i RoundKey =
     (let k = (i - 1) * 4;
          tempa = [RoundKey ! (k + 0), RoundKey ! (k + 1), RoundKey ! (k + 2), RoundKey ! (k + 3)];
          tempa =
            (if i mod 8 = 0 then
               let u8tmp = tempa ! 0;
                   tempa = [tempa ! 1, tempa ! 2, tempa ! 3, u8tmp];
                   tempa = [getSBoxValue (tempa ! 0), getSBoxValue (tempa ! 1),
                            getSBoxValue (tempa ! 2), getSBoxValue (tempa ! 3)]
               in tempa[0 := tempa ! 0 XOR Rcon ! (i div 8)]
             else tempa);
          tempa =
            (if i mod 8 = 4 then
               [getSBoxValue (tempa ! 0), getSBoxValue (tempa ! 1),
                getSBoxValue (tempa ! 2), getSBoxValue (tempa ! 3)]
             else tempa);
          j = i * 4; k = (i - 8) * 4
      in RoundKey[j + 0 := RoundKey ! (k + 0) XOR tempa ! 0, j + 1 := RoundKey ! (k + 1) XOR tempa ! 1,
                  j + 2 := RoundKey ! (k + 2) XOR tempa ! 2, j + 3 := RoundKey ! (k + 3) XOR tempa ! 3])"

definition KeyExpansion :: "bytes \<Rightarrow> bytes \<Rightarrow> bytes" where
  "KeyExpansion RoundKey Key =
     fold key_expand_word [8..<4 * (14 + 1)] (fold (key_copy_word Key) [0..<8] RoundKey)"

record AES_ctx =
  RoundKey :: bytes
  Iv :: bytes

definition AES_init_ctx_iv :: "AES_ctx \<Rightarrow> bytes \<Rightarrow> bytes \<Rightarrow> AES_ctx" where
  "AES_init_ctx_iv ctx key iv =
     ctx\<lparr>RoundKey := KeyExpansion (RoundKey ctx) key, Iv := memcpy_at (Iv ctx) 0 (take 16 iv)\<rparr>"

definition AES_ctx_set_iv :: "AES_ctx \<Rightarrow> bytes \<Rightarrow> AES_ctx" where
  "AES_ctx_set_iv ctx iv = ctx\<lparr>Iv := memcpy_at (Iv ctx) 0 (take 16 iv)\<rparr>"

section \<open>The code: the inverse cipher\<close>

definition AddRoundKey :: "nat \<Rightarrow> bytes \<Rightarrow> bytes \<Rightarrow> bytes" where
  "AddRoundKey round state rk =
     fold (\<lambda>i. fold (\<lambda>j s. s[4 * i + j := s ! (4 * i + j) XOR rk ! (round * 4 * 4 + i * 4 + j)]) [0..<4])
       [0..<4] state"

definition xtime :: "u8 \<Rightarrow> u8" where
  "xtime x = push_bit 1 x XOR (drop_bit 7 x AND 1) * 0x1b"

definition Multiply :: "u8 \<Rightarrow> u8 \<Rightarrow> u8" where
  "Multiply x y =
     (y AND 1) * x XOR (drop_bit 1 y AND 1) * xtime x XOR (drop_bit 2 y AND 1) * xtime (xtime x)
     XOR (drop_bit 3 y AND 1) * xtime (xtime (xtime x))
     XOR (drop_bit 4 y AND 1) * xtime (xtime (xtime (xtime x)))"

definition InvMixColumn :: "nat \<Rightarrow> bytes \<Rightarrow> bytes" where
  "InvMixColumn i state =
     (let a = state ! (4 * i + 0); b = state ! (4 * i + 1);
          c = state ! (4 * i + 2); d = state ! (4 * i + 3)
      in state[
        4 * i + 0 := Multiply a 0x0e XOR Multiply b 0x0b XOR Multiply c 0x0d XOR Multiply d 0x09,
        4 * i + 1 := Multiply a 0x09 XOR Multiply b 0x0e XOR Multiply c 0x0b XOR Multiply d 0x0d,
        4 * i + 2 := Multiply a 0x0d XOR Multiply b 0x09 XOR Multiply c 0x0e XOR Multiply d 0x0b,
        4 * i + 3 := Multiply a 0x0b XOR Multiply b 0x0d XOR Multiply c 0x09 XOR Multiply d 0x0e])"

definition InvMixColumns :: "bytes \<Rightarrow> bytes" where
  "InvMixColumns state = fold InvMixColumn [0..<4] state"

definition InvSubBytes :: "bytes \<Rightarrow> bytes" where
  "InvSubBytes state =
     fold (\<lambda>i. fold (\<lambda>j s. s[4 * j + i := getSBoxInvert (s ! (4 * j + i))]) [0..<4]) [0..<4] state"

text \<open>The three rows are rotated in place, one assignment after the other.\<close>

definition InvShiftRows :: "bytes \<Rightarrow> bytes" where
  "InvShiftRows s0 =
     (let temp = s0 ! (4 * 3 + 1);
          s = s0[4 * 3 + 1 := s0 ! (4 * 2 + 1)];
          s = s[4 * 2 + 1 := s ! (4 * 1 + 1)];
          s = s[4 * 1 + 1 := s ! (4 * 0 + 1)];
          s = s[4 * 0 + 1 := temp];
          temp = s ! (4 * 0 + 2);
          s = s[4 * 0 + 2 := s ! (4 * 2 + 2)];
          s = s[4 * 2 + 2 := temp];
          temp = s ! (4 * 1 + 2);
          s = s[4 * 1 + 2 := s ! (4 * 3 + 2)];
          s = s[4 * 3 + 2 := temp];
          temp = s ! (4 * 0 + 3);
          s = s[4 * 0 + 3 := s ! (4 * 1 + 3)];
          s = s[4 * 1 + 3 := s ! (4 * 2 + 3)];
          s = s[4 * 2 + 3 := s ! (4 * 3 + 3)]
      in s[4 * 3 + 3 := temp])"

text \<open>The loop counts \<open>round\<close> down and leaves before \<open>InvMixColumns\<close> when it reaches 0.\<close>

fun InvCipher_loop :: "nat \<Rightarrow> bytes \<Rightarrow> bytes \<Rightarrow> bytes" where
  "InvCipher_loop round state rk =
     (let state = InvShiftRows state;
          state = InvSubBytes state;
          state = AddRoundKey round state rk
      in if round = 0 then state else InvCipher_loop (round - 1) (InvMixColumns state) rk)"

declare InvCipher_loop.simps [simp del]

definition InvCipher :: "bytes \<Rightarrow> bytes \<Rightarrow> bytes" where
  "InvCipher state rk = InvCipher_loop (14 - 1) (AddRoundKey 14 state rk) rk"

definition XorWithIv :: "bytes \<Rightarrow> bytes \<Rightarrow> bytes" where
  "XorWithIv buf iv = fold (\<lambda>i b. b[i := b ! i XOR iv ! i]) [0..<16] buf"

text \<open>
  \<open>AES_CBC_decrypt_buffer\<close>: \<open>mem\<close> is the memory from \<open>buf\<close> on, \<open>i\<close> the loop counter and
  \<open>progress\<close> whether a callback is given; its calls are recorded as pairs of current value and
  total. A block that leaves \<open>mem\<close> is an access outside the buffer, \<open>None\<close>.
\<close>

function cbc_loop :: "bool \<Rightarrow> nat \<Rightarrow> nat \<Rightarrow> AES_ctx \<Rightarrow> bytes \<Rightarrow> (nat \<times> nat) list
    \<Rightarrow> (AES_ctx \<times> bytes \<times> (nat \<times> nat) list) option" where
  "cbc_loop progress len i ctx mem calls =
     (if i < len then
        let calls = (if progress \<and> i mod 2 ^ 22 = 0 then calls @ [(i, len)] else calls)
        in if i + 16 \<le> length mem then
             let storeNextIv = take 16 (drop i mem);
                 block = InvCipher (take 16 (drop i mem)) (RoundKey ctx);
                 block = XorWithIv block (Iv ctx)
             in cbc_loop progress len (i + 16) (ctx\<lparr>Iv := storeNextIv\<rparr>) (memcpy_at mem i block) calls
           else None
      else Some (ctx, mem, calls))"
  by pat_completeness auto
termination
  by (relation "measure (\<lambda>(progress, len, i, ctx, mem, calls). len - i)") auto

declare cbc_loop.simps [simp del]

definition AES_CBC_decrypt_buffer :: "bool \<Rightarrow> AES_ctx \<Rightarrow> bytes \<Rightarrow> nat
    \<Rightarrow> (AES_ctx \<times> bytes \<times> (nat \<times> nat) list) option" where
  "AES_CBC_decrypt_buffer progress ctx mem len =
     map_option (\<lambda>(ctx, mem, calls). (ctx, mem, if progress then calls @ [(len, len)] else calls))
       (cbc_loop progress len 0 ctx mem [])"

section \<open>FIPS 197 and CBC\<close>

definition SubBytes :: "bytes \<Rightarrow> bytes" where
  "SubBytes s = map getSBoxValue s"

definition ShiftRows :: "bytes \<Rightarrow> bytes" where
  "ShiftRows s = map (\<lambda>n. s ! (n mod 4 + 4 * ((n div 4 + n mod 4) mod 4))) [0..<16]"

text \<open>Doubling in \<open>GF(2\<^sup>8)\<close> modulo \<open>x\<^sup>8 + x\<^sup>4 + x\<^sup>3 + x + 1\<close>; a tripling adds the element once more.\<close>

definition gf_double :: "u8 \<Rightarrow> u8" where
  "gf_double x = (if bit x 7 then push_bit 1 x XOR 0x1b else push_bit 1 x)"

definition gf_triple :: "u8 \<Rightarrow> u8" where
  "gf_triple x = gf_double x XOR x"

fun mix_column :: "bytes \<Rightarrow> bytes" where
  "mix_column [a, b, c, d] =
     [gf_double a XOR gf_triple b XOR c XOR d, a XOR gf_double b XOR gf_triple c XOR d,
      a XOR b XOR gf_double c XOR gf_triple d, gf_triple a XOR b XOR c XOR gf_double d]"
| "mix_column s = s"

definition MixColumns :: "bytes \<Rightarrow> bytes" where
  "MixColumns s = concat (map (\<lambda>c. mix_column (take 4 (drop (4 * c) s))) [0..<4])"

definition xor_bytes :: "bytes \<Rightarrow> bytes \<Rightarrow> bytes" where
  "xor_bytes = map2 (XOR)"

definition round_key :: "bytes \<Rightarrow> nat \<Rightarrow> bytes" where
  "round_key rk r = take 16 (drop (16 * r) rk)"

definition Cipher :: "bytes \<Rightarrow> bytes \<Rightarrow> bytes" where
  "Cipher s rk =
     (let s = xor_bytes s (round_key rk 0);
          s = fold (\<lambda>r s. xor_bytes (MixColumns (ShiftRows (SubBytes s))) (round_key rk r)) [1..<14] s
      in xor_bytes (ShiftRows (SubBytes s)) (round_key rk 14))"

text \<open>The words \<open>w[i]\<close> of the key schedule, and the schedule they make up.\<close>

fun key_word :: "bytes \<Rightarrow> nat \<Rightarrow> bytes" where
  "key_word Key i =
     (if i < 8 then take 4 (drop (4 * i) Key)
      else let temp = key_word Key (i - 1)
           in xor_bytes (key_word Key (i - 8))
                (if i mod 8 = 0 then xor_bytes (SubBytes (rotate1 temp)) [Rcon ! (i div 8), 0, 0, 0]
                 else if i mod 8 = 4 then SubBytes temp else temp))"

declare key_word.simps [simp del]

definition key_schedule :: "bytes \<Rightarrow> bytes" where
  "key_schedule Key = concat (map (key_word Key) [0..<60])"

fun cbc_encrypt :: "bytes \<Rightarrow> bytes \<Rightarrow> bytes \<Rightarrow> bytes" where
  "cbc_encrypt rk iv P =
     (if length P < 16 then []
      else let C = Cipher (xor_bytes (take 16 P) iv) rk in C @ cbc_encrypt rk C (drop 16 P))"

declare cbc_encrypt.simps [simp del]

section \<open>The tables\<close>

lemma length_sbox [simp]: "length sbox = 256"
  by (simp add: sbox_def)

lemma rsbox_sbox: "map (\<lambda>v. rsbox ! unat v) sbox = map word_of_nat [0..<256]"
  unfolding sbox_def rsbox_def by (simp add: upt_conv_Cons)

lemma getSBoxInvert_Value [simp]: "getSBoxInvert (getSBoxValue x) = x"
proof -
  have x: "unat x < 256" using unsigned_less [of x] by simp
  then have "map (\<lambda>v. rsbox ! unat v) sbox ! unat x = x"
    unfolding rsbox_sbox by simp
  then show ?thesis using x by (simp add: getSBoxInvert_def getSBoxValue_def)
qed



section \<open>Each step inverts its FIPS 197 counterpart\<close>

lemma upt_4: "[0..<4] = [0, 1, 2, 3::nat]"
  by (simp add: upt_conv_Cons)

lemma upt_16: "[0..<16] = [0, 1, 2, 3, 4, 5, 6, 7, 8, 9, 10, 11, 12, 13, 14, 15::nat]"
  by (simp add: upt_conv_Cons)

lemma length16E:
  assumes "length (xs::'a list) = 16"
  obtains a b c d e f g h i j k l m n p q where "xs = [a, b, c, d, e, f, g, h, i, j, k, l, m, n, p, q]"
proof -
  have "length xs = 8 + 8 + 0" using assms by simp
  then obtain us vs ws where "xs = us @ vs @ ws" "length us = 8" "length vs = 8" "length ws = 0"
    by (elim list_split3)
  then show ?thesis using that
    by (auto simp: eval_nat_numeral length_Suc_conv)
qed

lemma InvSubBytes_eq: "length s = 16 \<Longrightarrow> InvSubBytes s = map getSBoxInvert s"
  by (elim length16E) (simp add: InvSubBytes_def upt_4)

lemma InvSubBytes_SubBytes: "length s = 16 \<Longrightarrow> InvSubBytes (SubBytes s) = s"
  by (simp add: InvSubBytes_eq SubBytes_def comp_def)

lemma InvShiftRows_ShiftRows: "length s = 16 \<Longrightarrow> InvShiftRows (ShiftRows s) = s"
  by (elim length16E) (simp add: InvShiftRows_def ShiftRows_def upt_16 Let_def)

lemma AddRoundKey_eq:
  "length s = 16 \<Longrightarrow> 16 * r + 16 \<le> length rk \<Longrightarrow> AddRoundKey r s rk = xor_bytes s (round_key rk r)"
proof -
  assume s: "length s = 16" and r: "16 * r + 16 \<le> length rk"
  have "AddRoundKey r s rk = fold (\<lambda>n s. s[n := s ! n XOR rk ! (16 * r + n)]) [0..<4 * 4] s"
    using fold_upt_nested [of "\<lambda>n s. s[n := s ! n XOR rk ! (16 * r + n)]" 4 4 s]
    by (simp add: AddRoundKey_def ac_simps)
  also have "\<dots> = map (\<lambda>n. s ! n XOR rk ! (16 * r + n)) [0..<16]"
    using s fold_update_cells [of 16 s "\<lambda>n x. x XOR rk ! (16 * r + n)"] by simp
  also have "\<dots> = xor_bytes s (round_key rk r)"
    using s r by (auto simp: xor_bytes_def round_key_def list_eq_iff_nth_eq)
  finally show ?thesis .
qed

lemma XorWithIv_eq: "length s = 16 \<Longrightarrow> length iv = 16 \<Longrightarrow> XorWithIv s iv = xor_bytes s iv"
  using fold_update_cells [of 16 s "\<lambda>n x. x XOR iv ! n"]
  by (auto simp: XorWithIv_def xor_bytes_def list_eq_iff_nth_eq)

lemma length_xor_bytes [simp]: "length (xor_bytes s t) = min (length s) (length t)"
  by (simp add: xor_bytes_def)

lemma xor_bytes_twice: "length s \<le> length t \<Longrightarrow> xor_bytes (xor_bytes s t) t = s"
  by (auto simp: xor_bytes_def list_eq_iff_nth_eq ac_simps)

lemma xtime_if: "xtime x = push_bit 1 x XOR (if bit x 7 then 0x1b else 0)"
  by (simp add: xtime_def and_one_eq mod_2_eq_odd bit_iff_odd_drop_bit)

lemma xtime_xor: "xtime (x XOR y) = xtime x XOR xtime y"
  by (simp add: xtime_if push_bit_xor bit_xor_iff ac_simps)

lemma gf_double_xtime: "gf_double x = xtime x"
  by (simp add: gf_double_def xtime_if)

text \<open>The five-bit \<open>Multiply\<close> at the constants of the inverse column mix, as iterated doublings.\<close>

lemma Multiply_consts:
  "Multiply x 0x09 = x XOR xtime (xtime (xtime x))"
  "Multiply x 0x0b = x XOR xtime x XOR xtime (xtime (xtime x))"
  "Multiply x 0x0d = x XOR xtime (xtime x) XOR xtime (xtime (xtime x))"
  "Multiply x 0x0e = xtime x XOR xtime (xtime x) XOR xtime (xtime (xtime x))"
  by (simp_all add: Multiply_def)

lemma InvMixColumn_explicit:
  assumes "mix_column [a, b, c, d] = [a', b', c', d']"
  shows "Multiply a' 0x0e XOR Multiply b' 0x0b XOR Multiply c' 0x0d XOR Multiply d' 0x09 = a"
    and "Multiply a' 0x09 XOR Multiply b' 0x0e XOR Multiply c' 0x0b XOR Multiply d' 0x0d = b"
    and "Multiply a' 0x0d XOR Multiply b' 0x09 XOR Multiply c' 0x0e XOR Multiply d' 0x0b = c"
    and "Multiply a' 0x0b XOR Multiply b' 0x0d XOR Multiply c' 0x09 XOR Multiply d' 0x0e = d"
  using assms by (auto simp: Multiply_consts gf_triple_def gf_double_xtime xtime_xor ac_simps)

lemma InvMixColumns_MixColumns:
  assumes "length s = 16"
  shows "InvMixColumns (MixColumns s) = s"
  using assms
  by (elim length16E)
     (simp add: InvMixColumns_def MixColumns_def upt_4 InvMixColumn_def Let_def InvMixColumn_explicit [OF mix_column.simps(1)])

section \<open>The inverse cipher inverts the cipher\<close>

lemma length_ShiftRows [simp]: "length (ShiftRows s) = 16"
  by (simp add: ShiftRows_def)

lemma length_SubBytes [simp]: "length (SubBytes s) = length s"
  by (simp add: SubBytes_def)

lemma length_mix_column [simp]: "length (mix_column s) = length s"
  by (cases s rule: mix_column.cases) simp_all

lemma length_MixColumns [simp]: "length s = 16 \<Longrightarrow> length (MixColumns s) = 16"
  by (simp add: MixColumns_def upt_4)

lemma length_round_key [simp]: "16 * r + 16 \<le> length rk \<Longrightarrow> length (round_key rk r) = 16"
  by (simp add: round_key_def)

definition cipher_rounds :: "bytes \<Rightarrow> nat \<Rightarrow> bytes \<Rightarrow> bytes" where
  "cipher_rounds rk n s =
     fold (\<lambda>r s. xor_bytes (MixColumns (ShiftRows (SubBytes s))) (round_key rk r)) [1..<Suc n] s"

lemma cipher_rounds_0 [simp]: "cipher_rounds rk 0 s = s"
  by (simp add: cipher_rounds_def)

lemma cipher_rounds_Suc [simp]:
  "cipher_rounds rk (Suc n) s =
     xor_bytes (MixColumns (ShiftRows (SubBytes (cipher_rounds rk n s)))) (round_key rk (Suc n))"
  by (simp add: cipher_rounds_def)

lemma length_cipher_rounds [simp]:
  "length s = 16 \<Longrightarrow> 16 * n + 16 \<le> length rk \<Longrightarrow> length (cipher_rounds rk n s) = 16"
  by (induction n) simp_all

text \<open>
  Entering the loop at round \<open>n\<close> with the state of the forward cipher after the row shift of
  round \<open>n + 1\<close> runs it back to the state whitened with round key 0.
\<close>

lemma InvCipher_loop_rounds:
  assumes s: "length s = 16" and rk: "16 * n + 16 \<le> length rk"
  shows "InvCipher_loop n (ShiftRows (SubBytes (cipher_rounds rk n s))) rk = xor_bytes s (round_key rk 0)"
  using rk
proof (induction n)
  case 0
  then show ?case using s
    by (simp add: InvCipher_loop.simps Let_def InvShiftRows_ShiftRows InvSubBytes_SubBytes AddRoundKey_eq)
next
  case (Suc n)
  let ?t = "MixColumns (ShiftRows (SubBytes (cipher_rounds rk n s)))"
  have n: "16 * n + 16 \<le> length rk" using Suc.prems by simp
  have "length ?t = 16" by simp
  then have "AddRoundKey (Suc n) (cipher_rounds rk (Suc n) s) rk = ?t"
    using Suc.prems by (simp add: AddRoundKey_eq xor_bytes_twice)
  then show ?case
    using Suc.IH [OF n] Suc.prems s
    by (subst InvCipher_loop.simps)
       (simp add: Let_def InvShiftRows_ShiftRows InvSubBytes_SubBytes InvMixColumns_MixColumns
         del: cipher_rounds_Suc)
qed

lemma Cipher_rounds:
  "Cipher s rk = xor_bytes (ShiftRows (SubBytes (cipher_rounds rk 13 (xor_bytes s (round_key rk 0)))))
     (round_key rk 14)"
  by (simp add: Cipher_def cipher_rounds_def Let_def)

lemma length_Cipher [simp]: "length s = 16 \<Longrightarrow> length rk = 240 \<Longrightarrow> length (Cipher s rk) = 16"
  by (simp add: Cipher_rounds)

lemma InvCipher_Cipher:
  assumes s: "length s = 16" and rk: "length rk = 240"
  shows "InvCipher (Cipher s rk) rk = s"
proof -
  let ?s = "xor_bytes s (round_key rk 0)"
  have "AddRoundKey 14 (Cipher s rk) rk = ShiftRows (SubBytes (cipher_rounds rk 13 ?s))"
    using s rk by (simp add: AddRoundKey_eq Cipher_rounds xor_bytes_twice)
  then show ?thesis
    using s rk InvCipher_loop_rounds [of ?s 13 rk] by (simp add: InvCipher_def xor_bytes_twice)
qed


section \<open>The key schedule\<close>

lemma update4_memcpy:
  assumes "j + 4 \<le> length b"
  shows "b[j := w, j + 1 := x, j + 2 := y, j + 3 := z] = memcpy_at b j [w, x, y, z]"
proof -
  have "length b = j + 4 + (length b - j - 4)" using assms by simp
  then obtain us vs ws where b: "b = us @ vs @ ws" and us: "length us = j" and vs: "length vs = 4"
    by (elim list_split3)
  from vs obtain p q r s where vs': "vs = [p, q, r, s]"
    by (auto simp: eval_nat_numeral length_Suc_conv)
  show ?thesis using us by (simp add: b vs' memcpy_at_def list_update_append)
qed

lemmas update4_memcpy' = update4_memcpy [simplified]

lemma group4_nth:
  "4 * m + 4 \<le> length b \<Longrightarrow> group_at 4 b m = [b ! (4 * m), b ! (4 * m + 1), b ! (4 * m + 2), b ! (4 * m + 3)]"
  by (auto simp: group_at_def list_eq_iff_nth_eq less_Suc_eq eval_nat_numeral)

lemma length_key_word [simp]: "4 * 8 \<le> length Key \<Longrightarrow> length (key_word Key i) = 4"
  by (induction i rule: less_induct) (subst key_word.simps, auto simp: Let_def)

lemma key_copy_word_memcpy:
  assumes "4 * i + 4 \<le> length rk" and "4 * i + 4 \<le> length Key"
  shows "key_copy_word Key i rk = memcpy_at rk (4 * i) (group_at 4 Key i)"
  using assms by (simp add: key_copy_word_def update4_memcpy' group4_nth mult.commute)

lemma key_expand_word_memcpy:
  assumes "8 \<le> i" and "4 * i + 4 \<le> length rk"
  shows "key_expand_word i rk =
    memcpy_at rk (4 * i)
      (let temp = group_at 4 rk (i - 1)
       in xor_bytes (group_at 4 rk (i - 8))
           (if i mod 8 = 0 then xor_bytes (SubBytes (rotate1 temp)) [Rcon ! (i div 8), 0, 0, 0]
            else if i mod 8 = 4 then SubBytes temp else temp))"
  using assms
  by (auto simp add: key_expand_word_def update4_memcpy' group4_nth mult.commute Let_def SubBytes_def xor_bytes_def)

definition expanded :: "bytes \<Rightarrow> nat \<Rightarrow> bytes \<Rightarrow> bool" where
  "expanded Key n rk \<longleftrightarrow> length rk = 240 \<and> (\<forall>m<n. group_at 4 rk m = key_word Key m)"

lemma expanded_memcpy:
  assumes "expanded Key n rk" and "n < 60" and "w = key_word Key n" and "32 \<le> length Key"
  shows "expanded Key (Suc n) (memcpy_at rk (4 * n) w)"
  using assms by (auto simp: expanded_def buf_simps less_Suc_eq)

lemma KeyExpansion_schedule:
  assumes rk: "length rk = 240" and key: "length Key = 32"
  shows "KeyExpansion rk Key = key_schedule Key"
proof -
  have "expanded Key 8 (fold (key_copy_word Key) [0..<8] rk)"
  proof (rule fold_upt_invariant)
    show "expanded Key 0 rk" using rk by (simp add: expanded_def)
  next
    fix k s assume k: "k < 8" and s: "expanded Key k s"
    then have "key_copy_word Key k s = memcpy_at s (4 * k) (key_word Key k)"
      using key by (simp add: key_copy_word_memcpy expanded_def group_at_def key_word.simps)
    then show "expanded Key (Suc k) (key_copy_word Key k s)"
      using expanded_memcpy [OF s] k key by simp
  qed
  then have "expanded Key (4 * (14 + 1)) (KeyExpansion rk Key)"
    unfolding KeyExpansion_def
  proof (rule fold_upt_from [rotated])
    fix k s assume k: "8 \<le> k" "k < 4 * (14 + 1)" and s: "expanded Key k s"
    then have "key_expand_word k s = memcpy_at s (4 * k) (key_word Key k)"
      using key by (simp add: key_expand_word_memcpy expanded_def key_word.simps [of Key k])
    then show "expanded Key (Suc k) (key_expand_word k s)"
      using expanded_memcpy [OF s] k key by simp
  qed simp
  then have "map (group_at 4 (KeyExpansion rk Key)) [0..<60] = map (key_word Key) [0..<60]"
    and "length (KeyExpansion rk Key) = 4 * 60"
    by (simp_all add: expanded_def)
  then show ?thesis using concat_groups [of "KeyExpansion rk Key" 4 60]
    by (simp only: key_schedule_def)
qed


section \<open>CBC decryption\<close>

definition last_block :: "bytes \<Rightarrow> bytes \<Rightarrow> bytes" where
  "last_block iv C = (if C = [] then iv else drop (length C - 16) C)"

text \<open>The progress reports from offset \<open>i\<close> on: one at every multiple of 4 MiB.\<close>

definition reports :: "bool \<Rightarrow> nat \<Rightarrow> nat \<Rightarrow> (nat \<times> nat) list" where
  "reports progress len i =
     (if progress then map (\<lambda>k. (k, len)) (filter (\<lambda>k. 2 ^ 22 dvd k) [i..<len]) else [])"

lemma reports_step:
  assumes "i < len" and "16 dvd i"
  shows "(if progress \<and> i mod 2 ^ 22 = 0 then calls @ [(i, len)] else calls) @ reports progress len (i + 16)
    = calls @ reports progress len i"
proof -
  have none: "\<not> 2 ^ 22 dvd k" if "Suc i \<le> k" "k < i + 16" for k
  proof
    assume "2 ^ 22 dvd k"
    then have "16 dvd k" by (rule dvd_trans [rotated]) (simp add: dvd_def)
    then show False using that assms(2) by presburger
  qed
  have "filter (\<lambda>k. 2 ^ 22 dvd k) [Suc i..<len] = filter (\<lambda>k. 2 ^ 22 dvd k) [i + 16..<len]"
  proof (cases "i + 16 \<le> len")
    case True
    then have "[Suc i..<len] = [Suc i..<i + 16] @ [i + 16..<len]"
      using upt_add_eq_append [of "Suc i" "i + 16" "len - (i + 16)"] by simp
    moreover have "filter (\<lambda>k. 2 ^ 22 dvd k) [Suc i..<i + 16] = []"
      by (rule filter_False) (use none in auto)
    ultimately show ?thesis by simp
  next
    case False
    moreover have "filter (\<lambda>k. 2 ^ 22 dvd k) [Suc i..<len] = []"
      by (rule filter_False) (use none False in auto)
    ultimately show ?thesis by simp
  qed
  then show ?thesis
    using assms(1) by (auto simp: reports_def upt_conv_Cons mod_eq_0_iff_dvd)
qed

lemma reports_end [simp]: "len \<le> i \<Longrightarrow> reports progress len i = []"
  by (simp add: reports_def)

lemma cbc_loop_stop: "len \<le> i \<Longrightarrow> cbc_loop progress len i ctx mem calls = Some (ctx, mem, calls)"
  by (subst cbc_loop.simps) simp

lemma cbc_loop_step:
  assumes "i < len" and "i + 16 \<le> length mem"
  shows "cbc_loop progress len i ctx mem calls =
    cbc_loop progress len (i + 16) (ctx\<lparr>Iv := take 16 (drop i mem)\<rparr>)
      (memcpy_at mem i (XorWithIv (InvCipher (take 16 (drop i mem)) (RoundKey ctx)) (Iv ctx)))
      (if progress \<and> i mod 2 ^ 22 = 0 then calls @ [(i, len)] else calls)"
  using assms by (subst cbc_loop.simps) (simp add: Let_def)

lemma length_cbc_encrypt:
  "length iv = 16 \<Longrightarrow> length rk = 240 \<Longrightarrow> 16 dvd length P \<Longrightarrow> length (cbc_encrypt rk iv P) = length P"
proof (induction rk iv P rule: cbc_encrypt.induct)
  case (1 rk iv P)
  show ?case
  proof (cases "length P < 16")
    case True
    then have "P = []" using 1(4) by (auto elim!: dvdE)
    then show ?thesis by (simp add: cbc_encrypt.simps)
  next
    case False
    then show ?thesis
      using 1 by (subst cbc_encrypt.simps) (simp add: Let_def dvd_diff_nat)
  qed
qed

lemma last_block_append:
  "length c = 16 \<Longrightarrow> 16 dvd length C \<Longrightarrow> last_block iv (c @ C) = last_block c C"
  using dvd_imp_le [of 16 "length C"] by (auto simp: last_block_def)

lemma cbc_loop_decrypts:
  assumes "length iv = 16" and "length rk = 240" and "16 dvd length P" and "16 dvd length pre"
    and "RoundKey ctx = rk" and "Iv ctx = iv" and "i = length pre" and "len = length pre + length P"
  shows "cbc_loop progress len i ctx (pre @ cbc_encrypt rk iv P @ rest) calls =
    Some (ctx\<lparr>Iv := last_block iv (cbc_encrypt rk iv P)\<rparr>, pre @ P @ rest, calls @ reports progress len i)"
  using assms
proof (induction rk iv P arbitrary: pre ctx i calls rule: cbc_encrypt.induct)
  case (1 rk iv P)
  show ?case
  proof (cases "length P < 16")
    case True
    then have "P = []" using "1.prems"(3) by (auto elim!: dvdE)
    then show ?thesis using "1.prems"
      by (simp add: cbc_encrypt.simps cbc_loop_stop last_block_def)
  next
    case False
    let ?p = "take 16 P" and ?P = "drop 16 P"
    let ?c = "Cipher (xor_bytes ?p iv) rk"
    have ne: "P \<noteq> []" using False by auto
    have c: "length ?c = 16" and p: "length ?p = 16" using False "1.prems" by simp_all
    have C: "cbc_encrypt rk iv P = ?c @ cbc_encrypt rk ?c ?P"
      using False by (subst cbc_encrypt.simps) (simp add: Let_def)
    have d: "16 dvd length ?P" using "1.prems"(3) False by (simp add: dvd_diff_nat)
    have "XorWithIv (InvCipher ?c rk) iv = ?p"
      using "1.prems" p by (simp add: InvCipher_Cipher XorWithIv_eq xor_bytes_twice)
    then have "cbc_loop progress len i ctx (pre @ cbc_encrypt rk iv P @ rest) calls =
      cbc_loop progress len (i + 16) (ctx\<lparr>Iv := ?c\<rparr>) ((pre @ ?p) @ cbc_encrypt rk ?c ?P @ rest)
        (if progress \<and> i mod 2 ^ 22 = 0 then calls @ [(i, len)] else calls)"
      using "1.prems" c p False ne by (subst cbc_loop_step) (simp_all add: C buf_simps)
    also have "\<dots> = Some (ctx\<lparr>Iv := last_block ?c (cbc_encrypt rk ?c ?P)\<rparr>, (pre @ ?p) @ ?P @ rest,
       (if progress \<and> i mod 2 ^ 22 = 0 then calls @ [(i, len)] else calls) @ reports progress len (i + 16))"
      using "1.prems" c p d False ne
      by (subst "1.IH" [OF False refl, where pre = "pre @ ?p"]) simp_all
    also have "last_block ?c (cbc_encrypt rk ?c ?P) = last_block iv (cbc_encrypt rk iv P)"
      using c d "1.prems" by (simp add: C last_block_append length_cbc_encrypt)
    also have "(if progress \<and> i mod 2 ^ 22 = 0 then calls @ [(i, len)] else calls) @ reports progress len (i + 16)
       = calls @ reports progress len i"
      using "1.prems" ne by (intro reports_step) simp_all
    finally show ?thesis by simp
  qed
qed


lemma length_InvCipher_loop [simp]: "length (InvCipher_loop n s rk) = length s"
proof -
  have shift: "length (InvShiftRows s) = length s" for s by (simp add: InvShiftRows_def Let_def)
  have sub: "length (InvSubBytes s) = length s" for s
    unfolding InvSubBytes_def by (intro map_fold_inv) simp
  have add: "length (AddRoundKey r s rk) = length s" for r s rk
    unfolding AddRoundKey_def by (intro map_fold_inv) simp
  have mix: "length (InvMixColumns s) = length s" for s
    unfolding InvMixColumns_def by (intro map_fold_inv) (simp add: InvMixColumn_def Let_def)
  show ?thesis
    by (induction n s rk rule: InvCipher_loop.induct)
       (subst InvCipher_loop.simps, simp add: Let_def shift sub add mix)
qed

lemma length_InvCipher [simp]: "length (InvCipher s rk) = length s"
  unfolding InvCipher_def length_InvCipher_loop AddRoundKey_def by (intro map_fold_inv) simp

lemma length_XorWithIv [simp]: "length (XorWithIv s iv) = length s"
  unfolding XorWithIv_def by (intro map_fold_inv) simp

text \<open>The end of the last block a buffer of \<open>len\<close> bytes is processed in.\<close>

definition whole_blocks :: "nat \<Rightarrow> nat" where
  "whole_blocks len = 16 * ((len + 15) div 16)"

lemma whole_blocks_iff: "16 dvd i \<Longrightarrow> i < len \<Longrightarrow> i + 16 \<le> whole_blocks len"
  using div_le_mono [of "i + 16" "len + 15" 16] by (auto simp: whole_blocks_def elim!: dvdE)

lemma whole_blocks_bounds: "len \<le> whole_blocks len" "whole_blocks len < len + 16"
  by (auto simp: whole_blocks_def)

lemma whole_blocks_le: "16 dvd i \<Longrightarrow> len \<le> i \<Longrightarrow> whole_blocks len \<le> i"
  by (auto simp: whole_blocks_def elim!: dvdE)

lemma cbc_loop_bounds:
  assumes "16 dvd i" and "whole_blocks len \<le> length mem"
  shows "\<exists>iv mem'. cbc_loop progress len i ctx mem calls = Some (ctx\<lparr>Iv := iv\<rparr>, mem', calls @ reports progress len i)
    \<and> length mem' = length mem \<and> take i mem' = take i mem
    \<and> drop (whole_blocks len) mem' = drop (whole_blocks len) mem"
  using assms
proof (induction progress len i ctx mem calls rule: cbc_loop.induct)
  case (1 progress len i ctx mem calls)
  show ?case
  proof (cases "i < len")
    case False
    have "Iv ctx = Iv ctx" ..
    then show ?thesis using False by (auto simp: cbc_loop_stop intro!: exI [of _ "Iv ctx"])
  next
    case True
    let ?b = "XorWithIv (InvCipher (take 16 (drop i mem)) (RoundKey ctx)) (Iv ctx)"
    let ?calls = "if progress \<and> i mod 2 ^ 22 = 0 then calls @ [(i, len)] else calls"
    have i: "i + 16 \<le> whole_blocks len" using whole_blocks_iff 1(2) True by blast
    with 1(3) have m: "i + 16 \<le> length mem" by simp
    then have len: "length (memcpy_at mem i ?b) = length mem" by (simp add: buf_simps)
    have "\<exists>iv mem'. cbc_loop progress len (i + 16) (ctx\<lparr>Iv := take 16 (drop i mem)\<rparr>) (memcpy_at mem i ?b) ?calls
        = Some (ctx\<lparr>Iv := iv\<rparr>, mem', ?calls @ reports progress len (i + 16))
      \<and> length mem' = length mem \<and> take (i + 16) mem' = take (i + 16) (memcpy_at mem i ?b)
      \<and> drop (whole_blocks len) mem' = drop (whole_blocks len) (memcpy_at mem i ?b)"
      using "1.IH" [OF True refl m refl refl refl] 1(2,3) len by simp
    then obtain iv mem' where
      "cbc_loop progress len i ctx mem calls = Some (ctx\<lparr>Iv := iv\<rparr>, mem', ?calls @ reports progress len (i + 16))"
      and "length mem' = length mem" and t: "take (i + 16) mem' = take (i + 16) (memcpy_at mem i ?b)"
      and d: "drop (whole_blocks len) mem' = drop (whole_blocks len) (memcpy_at mem i ?b)"
      using cbc_loop_step [OF True m] by auto
    moreover have "take i mem' = take i mem"
      using arg_cong [OF t, of "take i"] m by (simp add: memcpy_at_def)
    moreover have "drop (whole_blocks len) (memcpy_at mem i ?b) = drop (whole_blocks len) mem"
      using i m by (simp add: memcpy_at_def)
    moreover have "?calls @ reports progress len (i + 16) = calls @ reports progress len i"
      using reports_step [OF True 1(2)] .
    ultimately show ?thesis by auto
  qed
qed

lemma cbc_loop_out_of_bounds:
  assumes "16 dvd i" and "i \<le> length mem" and "\<not> whole_blocks len \<le> length mem"
  shows "cbc_loop progress len i ctx mem calls = None"
  using assms
proof (induction progress len i ctx mem calls rule: cbc_loop.induct)
  case (1 progress len i ctx mem calls)
  have True: "i < len" using 1(2-4) whole_blocks_le [of i len] by linarith
  show ?case
  proof (cases "i + 16 \<le> length mem")
    case False
    then show ?thesis using True by (subst cbc_loop.simps) simp
  next
    case m: True
    show ?thesis
      using "1.IH" [OF True refl m refl refl refl] 1(2-4) m
      by (simp only: cbc_loop_step [OF True m]) (simp add: buf_simps)
  qed
qed

lemma cbc_loop_split:
  assumes "i \<le> m" and "16 dvd m - i"
  shows "cbc_loop False (m + n) i ctx mem calls =
    (case cbc_loop False m i ctx mem calls of None \<Rightarrow> None
     | Some (ctx', mem', calls') \<Rightarrow> cbc_loop False (m + n) m ctx' mem' calls')"
  using assms
proof (induction "m - i" arbitrary: i ctx mem calls rule: less_induct)
  case less
  show ?case
  proof (cases "i < m")
    case False
    then show ?thesis using less.prems by (simp add: cbc_loop_stop)
  next
    case True
    then have i: "i + 16 \<le> m" "16 dvd m - (i + 16)"
      using less.prems dvd_imp_le [of 16 "m - i"] by (simp_all add: dvd_diff_nat flip: diff_diff_left)
    show ?thesis
    proof (cases "i + 16 \<le> length mem")
      case False
      then show ?thesis using True by (simp add: cbc_loop.simps [of _ _ i])
    next
      case m: True
      have "i < m + n" using True by simp
      then show ?thesis
        using less.hyps [OF _ i] True by (simp add: cbc_loop_step m)
    qed
  qed
qed

lemma cbc_loop_shift:
  "length pre = m \<Longrightarrow>
   cbc_loop False (m + n) (m + i) ctx (pre @ mem) calls =
     map_option (\<lambda>(c, b, cs). (c, pre @ b, cs)) (cbc_loop False n i ctx mem calls)"
proof (induction "n - i" arbitrary: i ctx mem calls rule: less_induct)
  case less
  show ?case
  proof (cases "i < n")
    case False
    then show ?thesis by (simp add: cbc_loop_stop)
  next
    case i: True
    show ?thesis
    proof (cases "i + 16 \<le> length mem")
      case False
      then show ?thesis using i less.prems by (simp add: cbc_loop.simps [of _ _ i] cbc_loop.simps [of _ _ "m + i"])
    next
      case True
      have "m + i < m + n" and "m + i + 16 \<le> length (pre @ mem)" using i True less.prems by simp_all
      then show ?thesis
        using less.hyps [of "i + 16"] i True less.prems
        by (simp add: cbc_loop_step memcpy_at_def add.assoc)
    qed
  qed
qed

lemma cbc_loop_frame:
  "16 dvd i \<Longrightarrow> whole_blocks len \<le> length mem \<Longrightarrow>
   cbc_loop False len i ctx (mem @ rest) calls =
     map_option (\<lambda>(c, b, cs). (c, b @ rest, cs)) (cbc_loop False len i ctx mem calls)"
proof (induction "len - i" arbitrary: i ctx mem calls rule: less_induct)
  case less
  show ?case
  proof (cases "i < len")
    case False
    then show ?thesis by (simp add: cbc_loop_stop)
  next
    case True
    then have m: "i + 16 \<le> length mem" using less.prems whole_blocks_iff [of i len] by simp
    have upd: "memcpy_at (mem @ rest) i b = memcpy_at mem i b @ rest" if "length b = 16" for b
      using m that by (simp add: memcpy_at_def)
    show ?thesis
      using less.hyps [of "i + 16"] True m less.prems
      by (simp add: cbc_loop_step upd buf_simps)
  qed
qed

section \<open>Properties\<close>

text \<open>C6: \<open>AES_init_ctx_iv\<close> stores the FIPS 197 key schedule of a 32-byte key, whatever the
  uninitialised context held, and the initialisation vector.\<close>

theorem AES_init_ctx_iv_schedule:
  assumes "length key = 32" and "length iv = 16" and "length (RoundKey ctx) = 240" and "length (Iv ctx) = 16"
  shows "AES_init_ctx_iv ctx key iv = ctx\<lparr>RoundKey := key_schedule key, Iv := iv\<rparr>"
  using assms by (simp add: AES_init_ctx_iv_def KeyExpansion_schedule memcpy_at_def)

theorem AES_init_ctx_iv_schedule_witness:
  "AES_init_ctx_iv \<lparr>RoundKey = replicate 240 7, Iv = replicate 16 9\<rparr> (replicate 32 1) (replicate 16 2) =
     \<lparr>RoundKey = key_schedule (replicate 32 1), Iv = replicate 16 2\<rparr>"
  using AES_init_ctx_iv_schedule [of "replicate 32 1" "replicate 16 2"
      "\<lparr>RoundKey = replicate 240 7, Iv = replicate 16 9\<rparr>"] by simp

text \<open>C7: \<open>AES_CBC_decrypt_buffer\<close> after \<open>AES_init_ctx_iv\<close> inverts AES-256 encryption in CBC mode in
  place: the plaintext stands where the ciphertext stood, the bytes behind it are untouched, the
  context is left with the last ciphertext block as its vector, and a progress callback has
  been called at every multiple of 4 MiB and at the end.\<close>

theorem AES_CBC_decrypt_encrypt:
  assumes "length key = 32" and "length iv = 16" and "length (RoundKey ctx) = 240" and "length (Iv ctx) = 16"
    and "16 dvd length P" and "C = cbc_encrypt (key_schedule key) iv P"
  shows "AES_CBC_decrypt_buffer progress (AES_init_ctx_iv ctx key iv) (C @ rest) (length P) =
    Some (ctx\<lparr>RoundKey := key_schedule key, Iv := last_block iv C\<rparr>, P @ rest,
      if progress then map (\<lambda>k. (k, length P)) (filter (\<lambda>k. 2 ^ 22 dvd k) [0..<length P]) @ [(length P, length P)] else [])"
proof -
  have "length (key_schedule key) = 240"
    using KeyExpansion_schedule [of "replicate 240 0" key] assms(1)
    by (simp add: key_schedule_def length_concat comp_def interv_sum_list_conv_sum_set_nat)
  then show ?thesis
    using assms cbc_loop_decrypts [of iv "key_schedule key" P "[]" "AES_init_ctx_iv ctx key iv" 0 "length P" progress rest "[]"]
    by (simp add: AES_CBC_decrypt_buffer_def AES_init_ctx_iv_def KeyExpansion_schedule memcpy_at_def reports_def)
qed

theorem AES_CBC_decrypt_encrypt_witness:
  "AES_CBC_decrypt_buffer True (AES_init_ctx_iv \<lparr>RoundKey = replicate 240 7, Iv = replicate 16 9\<rparr> (replicate 32 1) (replicate 16 2))
     (cbc_encrypt (key_schedule (replicate 32 1)) (replicate 16 2) (replicate 32 3) @ [5]) 32 =
   Some (\<lparr>RoundKey = key_schedule (replicate 32 1),
          Iv = last_block (replicate 16 2) (cbc_encrypt (key_schedule (replicate 32 1)) (replicate 16 2) (replicate 32 3))\<rparr>,
     replicate 32 3 @ [5], [(0, 32), (32, 32)])"
proof -
  have "filter (\<lambda>k. 2 ^ 22 dvd k) [1..<32] = ([]::nat list)"
    by (rule filter_False) (auto dest: dvd_imp_le)
  then have "filter (\<lambda>k. 2 ^ 22 dvd k) [0..<32] = [0::nat]" by (subst upt_conv_Cons) simp_all
  then show ?thesis
    using AES_CBC_decrypt_encrypt [of "replicate 32 1" "replicate 16 2" "\<lparr>RoundKey = replicate 240 7, Iv = replicate 16 9\<rparr>"
        "replicate 32 3" _ True "[5]", OF _ _ _ _ _ refl]
    by simp
qed

text \<open>C8: Memory safety of \<open>AES_CBC_decrypt_buffer\<close>: it accesses the buffer up to the end of the last
  started block, so a call returns exactly if the buffer reaches that far; then the memory behind
  it and the round keys are unchanged.\<close>

theorem AES_CBC_decrypt_bounds:
  "case AES_CBC_decrypt_buffer progress ctx mem len of
     None \<Rightarrow> length mem < 16 * ((len + 15) div 16)
   | Some (ctx', mem', calls) \<Rightarrow> 16 * ((len + 15) div 16) \<le> length mem \<and> length mem' = length mem
       \<and> drop (16 * ((len + 15) div 16)) mem' = drop (16 * ((len + 15) div 16)) mem
       \<and> RoundKey ctx' = RoundKey ctx"
proof (cases "whole_blocks len \<le> length mem")
  case True
  then show ?thesis
    using cbc_loop_bounds [of 0 len mem progress ctx "[]"]
    by (auto simp: AES_CBC_decrypt_buffer_def whole_blocks_def)
next
  case False
  then show ?thesis
    using cbc_loop_out_of_bounds [of 0 mem len progress ctx "[]"]
    by (simp add: AES_CBC_decrypt_buffer_def whole_blocks_def)
qed

text \<open>Decrypting a buffer in one call is decrypting a prefix of whole blocks and then the rest
  with the context the first call left.\<close>

theorem AES_CBC_decrypt_chunks:
  assumes "16 dvd m" and "length pre = m"
  shows "map_option (\<lambda>(c, b, calls). (c, b)) (AES_CBC_decrypt_buffer False ctx (pre @ rest) (m + n)) =
    (case AES_CBC_decrypt_buffer False ctx pre m of None \<Rightarrow> None
     | Some (ctx', pre', calls) \<Rightarrow>
         map_option (\<lambda>(c, b, calls). (c, pre' @ b)) (AES_CBC_decrypt_buffer False ctx' rest n))"
proof -
  have m: "whole_blocks m \<le> length pre" using assms whole_blocks_le [of m m] by simp
  obtain iv pre' where first: "cbc_loop False m 0 ctx pre [] = Some (ctx\<lparr>Iv := iv\<rparr>, pre', [])"
    and len: "length pre' = m"
    using cbc_loop_bounds [of 0 m pre False ctx "[]"] m assms by (auto simp: reports_def)
  have "cbc_loop False (m + n) 0 ctx (pre @ rest) [] =
      map_option (\<lambda>(c, b, cs). (c, pre' @ b, cs)) (cbc_loop False n 0 (ctx\<lparr>Iv := iv\<rparr>) rest [])"
    using assms m by (simp add: cbc_loop_split [of 0 m] cbc_loop_frame first
        cbc_loop_shift [OF len, of n 0, simplified])
  then show ?thesis
    by (simp add: AES_CBC_decrypt_buffer_def first option.map_comp comp_def split_beta)
qed

theorem AES_CBC_decrypt_chunks_witness:
  "map_option (\<lambda>(c, b, calls). (c, b))
     (AES_CBC_decrypt_buffer False \<lparr>RoundKey = replicate 240 0, Iv = replicate 16 0\<rparr> (replicate 16 1 @ replicate 32 2) (16 + 32)) =
   (case AES_CBC_decrypt_buffer False \<lparr>RoundKey = replicate 240 0, Iv = replicate 16 0\<rparr> (replicate 16 1) 16 of
      None \<Rightarrow> None
    | Some (ctx', pre', calls) \<Rightarrow>
        map_option (\<lambda>(c, b, calls). (c, pre' @ b)) (AES_CBC_decrypt_buffer False ctx' (replicate 32 2) 32))"
  by (rule AES_CBC_decrypt_chunks) simp_all

end
