(* ===== verification/Efi.thy ===== *)
theory Efi
  imports Prelude
begin

text \<open>
  The boundary to the UEFI firmware and \<open>gnu-efi\<close>, neither of which is part of the repository:
  status codes, memory and the boot services the loader calls. A run is the list of service calls
  made so far; the firmware is a parameter that answers each call as a function of that
  list, so nothing is assumed of it. Pointers and handles are addresses, 0 is \<open>NULL\<close>.
\<close>

section \<open>Status codes\<close>

type_synonym efi_status = u64

definition EFIERR :: "u64 \<Rightarrow> efi_status" where
  "EFIERR a = 0x8000000000000000 OR a"

definition EFI_ERROR :: "efi_status \<Rightarrow> bool" where
  "EFI_ERROR status = bit status 63"

abbreviation (input) "EFI_SUCCESS \<equiv> 0 :: efi_status"
abbreviation (input) "EFI_INVALID_PARAMETER \<equiv> EFIERR 2"
abbreviation (input) "EFI_UNSUPPORTED \<equiv> EFIERR 3"
abbreviation (input) "EFI_BAD_BUFFER_SIZE \<equiv> EFIERR 4"
abbreviation (input) "EFI_BUFFER_TOO_SMALL \<equiv> EFIERR 5"
abbreviation (input) "EFI_NOT_READY \<equiv> EFIERR 6"
abbreviation (input) "EFI_DEVICE_ERROR \<equiv> EFIERR 7"
abbreviation (input) "EFI_WRITE_PROTECTED \<equiv> EFIERR 8"
abbreviation (input) "EFI_OUT_OF_RESOURCES \<equiv> EFIERR 9"
abbreviation (input) "EFI_MEDIA_CHANGED \<equiv> EFIERR 13"
abbreviation (input) "EFI_NOT_FOUND \<equiv> EFIERR 14"
abbreviation (input) "EFI_ALREADY_STARTED \<equiv> EFIERR 20"
abbreviation (input) "EFI_ABORTED \<equiv> EFIERR 21"
abbreviation (input) "EFI_END_OF_FILE \<equiv> EFIERR 31"

lemma EFI_ERROR_SUCCESS [simp]: "\<not> EFI_ERROR EFI_SUCCESS"
  by (simp add: EFI_ERROR_def)

lemma EFI_ERROR_EFIERR [simp]: "EFI_ERROR (EFIERR a)"
  by (simp add: EFI_ERROR_def EFIERR_def bit_or_iff)

lemma EFIERR_not_success [simp]: "EFIERR a \<noteq> EFI_SUCCESS" "EFI_SUCCESS \<noteq> EFIERR a"
  using EFI_ERROR_EFIERR [of a] EFI_ERROR_SUCCESS by metis+

section \<open>Memory\<close>

type_synonym memory = "u64 \<Rightarrow> u8"

text \<open>The \<open>n\<close> bytes from address \<open>a\<close> on; \<open>CopyMem\<close> moves bytes also between overlapping ranges.\<close>

definition mem_bytes :: "memory \<Rightarrow> u64 \<Rightarrow> nat \<Rightarrow> bytes" where
  "mem_bytes mem a n = map (\<lambda>i. mem (a + of_nat i)) [0..<n]"

definition CopyMem :: "u64 \<Rightarrow> u64 \<Rightarrow> u64 \<Rightarrow> memory \<Rightarrow> memory" where
  "CopyMem dst src n mem = (\<lambda>a. if a - dst < n then mem (src + (a - dst)) else mem a)"

text \<open>The address lies in the range of \<open>n\<close> bytes from \<open>start\<close> on.\<close>

definition in_range :: "u64 \<Rightarrow> u64 \<Rightarrow> u64 \<Rightarrow> bool" where
  "in_range start n a \<longleftrightarrow> a - start < n"

lemma length_mem_bytes [buf_simps, simp]: "length (mem_bytes mem a n) = n"
  by (simp add: mem_bytes_def)

lemma nth_mem_bytes [buf_simps, simp]: "i < n \<Longrightarrow> mem_bytes mem a n ! i = mem (a + of_nat i)"
  by (simp add: mem_bytes_def)

lemma CopyMem_outside: "\<not> in_range dst n a \<Longrightarrow> CopyMem dst src n mem a = mem a"
  by (simp add: CopyMem_def in_range_def)

lemma CopyMem_dst: "mem_bytes (CopyMem dst src n mem) dst (unat n) = mem_bytes mem src (unat n)"
  by (auto simp: list_eq_iff_nth_eq CopyMem_def word_less_nat_alt unat_of_nat
      intro: le_less_trans [OF mod_less_eq_dividend])

lemma mem_bytes_slice:
  "off + n \<le> N \<Longrightarrow> take n (drop off (mem_bytes mem a N)) = mem_bytes mem (a + of_nat off) n"
  by (auto simp: list_eq_iff_nth_eq add.assoc)

lemma unat_of_nat_diff_less:
  fixes n :: u64
  assumes "off + unat n \<le> N" and "i < N" and "N \<le> 2 ^ 64"
  shows "(of_nat i - of_nat off :: u64) < n \<longleftrightarrow> off \<le> i \<and> i < off + unat n"
proof (cases "off \<le> i")
  case True
  have "of_nat i - of_nat off = (of_nat (i - off) :: u64)" using True by (simp add: of_nat_diff)
  moreover have "unat (of_nat (i - off) :: u64) = i - off"
    using assms by (intro unat_of_nat_u64) simp_all
  ultimately show ?thesis using True by (simp add: word_less_nat_alt) arith
next
  case False
  show ?thesis
  proof (cases "n = 0")
    case True
    then show ?thesis using False by simp
  next
    case nz: False
    then have "0 < unat n" by (simp add: unat_gt_0)
    then have lt: "off - i < 2 ^ 64" using assms False by simp
    have "of_nat i - of_nat off = - (of_nat (off - i) :: u64)" using False by (simp add: of_nat_diff)
    moreover have "unat (of_nat (off - i) :: u64) = off - i"
      using lt by (intro unat_of_nat_u64) simp_all
    ultimately have "unat (of_nat i - of_nat off :: u64) = 2 ^ 64 - (off - i)"
      using False unat_sub_if_size [of "0 :: u64" "of_nat (off - i)"] by (simp add: word_size)
    then show ?thesis using assms False by (simp add: word_less_nat_alt)
  qed
qed

lemma mem_bytes_CopyMem:
  assumes "off + unat n \<le> N" and "N \<le> 2 ^ 64"
  shows "mem_bytes (CopyMem (a + of_nat off) src n mem) a N =
    memcpy_at (mem_bytes mem a N) off (mem_bytes mem src (unat n))"
proof (rule nth_equalityI)
  fix i assume "i < length (mem_bytes (CopyMem (a + of_nat off) src n mem) a N)"
  then have i: "i < N" by simp
  have "a + of_nat i - (a + of_nat off) = of_nat i - of_nat off" by simp
  moreover have "of_nat i - of_nat off = (of_nat (i - off) :: u64)" if "off \<le> i"
    using that by (simp add: of_nat_diff)
  ultimately show "mem_bytes (CopyMem (a + of_nat off) src n mem) a N ! i =
      memcpy_at (mem_bytes mem a N) off (mem_bytes mem src (unat n)) ! i"
    using assms i unat_of_nat_diff_less [OF assms(1) i assms(2)]
    by (auto simp: CopyMem_def memcpy_at_def nth_append simp del: add_diff_cancel_left)
qed (use assms in \<open>simp add: buf_simps\<close>)

lemma mem_bytes_cong:
  "(\<And>i. i < N \<Longrightarrow> mem' (a + of_nat i) = mem (a + of_nat i)) \<Longrightarrow> mem_bytes mem' a N = mem_bytes mem a N"
  by (simp add: mem_bytes_def)

text \<open>A literal of 16-bit characters.\<close>

definition wstr :: "string \<Rightarrow> u16 list" where
  "wstr cs = map of_char cs"

lemma length_wstr [simp]: "length (wstr cs) = length cs"
  by (simp add: wstr_def)

section \<open>Services\<close>

text \<open>
  What the loader asks of the outside: boot services, console input, files, the multiprocessor services and the MFTAH
  library. Protocols and variables are named by the identifier of their GUID or their name in the code. A call that is
  handed a buffer records its address and size. \<open>AllocatePool\<close> is the function of \<open>gnu-efi\<close>, which returns the pool, and
  \<open>AllocateReservedPool\<close> the boot service, which stores it.
\<close>

datatype interface = BlockIoOf u64 | BlockIo2Of u64 | DevicePathOf u64 | RamDiskProtocol

datatype input_call = ResetConIn | WaitForKey | ReadKeyStroke

datatype output_call = SetAttribute | EnableCursor | ClearScreen | SetCursorPosition

datatype file_call =
    OpenVolume u64
  | OpenFile u64 "u16 list"
  | ReadFile u64 u64 u64
  | SetPosition u64 u64
  | GetPosition u64
  | CloseFile u64
  | LibFileInfo u64

datatype mp_call =
    GetNumberOfProcessors
  | WhoAmI
  | GetProcessorInfo u64
  | EnableDisableAP u64
  | StartupThisAP u64 u64
  | CreateEvent u64

text \<open>What the library is handed to decrypt a part of a payload, as far as the loader uses these structures: a work order, and a progress object
  with its hook and the hook's context. The loader sets one of two hooks, or none.\<close>

record work_order =
  thread_index :: nat
  location :: u64
  order_length :: u64
  suppress_progress :: bool

datatype progress_hook = NoHook | SavesThreadProgress | PrintsProgress

record mftah_progress =
  hook :: progress_hook
  hook_context :: u64

datatype mftah_call =
    CreateProtocol u64
  | RegisterHooks
  | CreateHash u64 u64
  | CreatePayload u64 u64
  | CheckPasswordHash bytes
  | Decrypt bytes
  | GetBufferBase
  | Crypt work_order bytes bytes "mftah_progress option"

datatype efi_call =
    AllocatePool u64
  | AllocateReservedPool u64
  | FreePool u64
  | LocateProtocol string
  | HandleProtocol u64 string
  | LocateHandleBuffer string
  | InstallMultipleProtocolInterfaces u64 "interface list"
  | UninstallMultipleProtocolInterfaces u64
  | ConnectController u64
  | GetMemoryMap u64 u64
  | InstallAcpiTable bytes
  | SignalEvent u64
  | AppendDevicePathNode u64 bytes
  | DevicePathToStr u64
  | FileDevicePath u64 "u16 list"
  | StrDuplicate "u16 list"
  | StrCat u64 "u16 list"
  | Stall u64
  | SetWatchdogTimer
  | SetVariable string bytes
  | LoadImage u64
  | StartImage u64
  | ResetSystem efi_status
  | Input input_call
  | Output output_call
  | File file_call
  | Mp mp_call
  | Mftah mftah_call

record EFI_MEMORY_DESCRIPTOR =
  PhysicalStart :: u64
  NumberOfPages :: u64

text \<open>
  The answer to a call is a function of all calls up to and including it: \<open>ret\<close> the value
  returned, \<open>out\<close> the word written through the call's out pointer, \<open>data\<close> the bytes written to the buffer it was
  handed, \<open>wide\<close> a string of 16-bit characters it delivers, \<open>handles\<close> an array of handles, \<open>map_size\<close>,
  \<open>desc_size\<close> and \<open>desc_at\<close> the memory map: its size and descriptor size in bytes and
  the descriptor at each byte offset. \<open>private_data_size\<close> is the size of the RAM disk driver's
  private structure, which embeds structures of \<open>gnu-efi\<close>.
\<close>

record firmware =
  ret :: "efi_call list \<Rightarrow> u64"
  out :: "efi_call list \<Rightarrow> u64"
  data :: "efi_call list \<Rightarrow> bytes"
  wide :: "efi_call list \<Rightarrow> u16 list"
  handles :: "efi_call list \<Rightarrow> nat \<Rightarrow> u64"
  map_size :: "efi_call list \<Rightarrow> u64"
  desc_size :: "efi_call list \<Rightarrow> u64"
  desc_at :: "efi_call list \<Rightarrow> nat \<Rightarrow> EFI_MEMORY_DESCRIPTOR"
  private_data_size :: u64

text \<open>
  The state every part of the loader shares: the calls made and the memory. The components extend it by
  their static variables, and their operations leave the extensions of others alone by their types.
\<close>

record uefi =
  calls :: "efi_call list"
  ram :: memory

definition service :: "efi_call \<Rightarrow> 'a uefi_scheme \<Rightarrow> 'a uefi_scheme" where
  "service c s = s\<lparr>calls := calls s @ [c]\<rparr>"

lemma service_simps [simp]: "calls (service c s) = calls s @ [c]" "ram (service c s) = ram s"
  by (simp_all add: service_def)

text \<open>A panic prints a message and loops for ever: there is no state behind it.\<close>

definition PANIC :: "'s \<Rightarrow> 'a option" where
  "PANIC s = None"

end
