(* ===== verification/Util.thy ===== *)
theory Util
  imports Efi
begin

text \<open>
  \<open>src/src/boot/mftah_uefi/util.c\<close>: the checksum used for the ACPI tables, the size of a file and the reset of the
  machine. The decryption workers of that file are in \<open>Decryption\<close>.
\<close>

text \<open>\<open>Content\<close> is the memory from the address \<open>Buffer\<close> on; \<open>MAX_ADDRESS\<close> is \<open>2^64 - 1\<close>.\<close>

definition CalculateCheckSum8 :: "u64 \<Rightarrow> bytes \<Rightarrow> u64 \<Rightarrow> u8" where
  "CalculateCheckSum8 Buffer Content Length =
     (if Buffer = 0 \<or> Length > (0xffffffffffffffff - Buffer) + 1 \<or> Length = 0 then 0
      else fold (\<lambda>Count Checksum. Checksum + Content ! Count) [0..<unat Length] 0)"

lemma fold_add_nth:
  fixes s :: "'a::comm_monoid_add"
  assumes "n \<le> length xs"
  shows "fold (\<lambda>i s. s + xs ! i) [0..<n] s = s + sum_list (take n xs)"
  using assms by (induction n) (simp_all add: take_Suc_conv_app_nth add.assoc)

lemma CalculateCheckSum8_sum:
  assumes "Buffer \<noteq> 0" and "unat Buffer + unat Length \<le> 2 ^ 64" and "unat Length \<le> length Content"
  shows "CalculateCheckSum8 Buffer Content Length = sum_list (take (unat Length) Content)"
proof -
  have "(0xffffffffffffffff :: u64) = - 1" by simp
  then have neg: "(0xffffffffffffffff - Buffer) + 1 = - Buffer" by (simp only:) simp
  have "unat (- Buffer) = 2 ^ 64 - unat Buffer"
    using assms(1) unat_sub_if_size [of 0 Buffer] by (simp add: word_size unat_eq_0)
  then have "\<not> Length > (0xffffffffffffffff - Buffer) + 1"
    unfolding neg using assms(2) by (simp add: word_less_nat_alt)
  then show ?thesis
    using assms by (auto simp: CalculateCheckSum8_def fold_add_nth unat_eq_0)
qed

text \<open>A file information delivers the size in the out word.\<close>

definition FileSize :: "firmware \<Rightarrow> u64 \<Rightarrow> 'a uefi_scheme \<Rightarrow> u64 \<times> 'a uefi_scheme" where
  "FileSize fw FileHandle s =
     (let s = service (File (LibFileInfo FileHandle)) s; FileInfo = ret fw (calls s)
      in if FileInfo = 0 then (0, s)
         else let value = out fw (calls s); s = service (FreePool FileInfo) s in (value, s))"

definition Shutdown :: "firmware \<Rightarrow> efi_status \<Rightarrow> 'a uefi_scheme \<Rightarrow> 'b option" where
  "Shutdown fw Reason s = (let s = service (ResetSystem Reason) s in PANIC s)"

end
