(* ===== verification/Acpi.thy ===== *)
theory Acpi
  imports Efi
begin

text \<open>
  \<open>src/src/boot/mftah_uefi/acpi.c\<close>: looking up the ACPI table protocol and keeping it in the
  static \<open>gAcpiTableProtocol\<close>, 0 when there is none.
\<close>

record acpi_state = uefi +
  gAcpiTableProtocol :: u64

text \<open>The firmware writes the out pointer of \<open>LocateProtocol\<close> whatever status it returns.\<close>

definition AcpiProtocolCheck :: "firmware \<Rightarrow> 'a acpi_state_scheme \<Rightarrow> efi_status \<times> 'a acpi_state_scheme" where
  "AcpiProtocolCheck fw s =
     (let s = service (LocateProtocol ''gEfiAcpiTableProtocolGuid'') s; Status = ret fw (calls s);
          s = s\<lparr>gAcpiTableProtocol := out fw (calls s)\<rparr>
      in if EFI_ERROR Status then (Status, s)
         else (if gAcpiTableProtocol s = 0 then EFI_NOT_FOUND else Status, s))"

definition AcpiLoadDriver :: "firmware \<Rightarrow> 'a acpi_state_scheme \<Rightarrow> efi_status \<times> 'a acpi_state_scheme" where
  "AcpiLoadDriver fw s =
     (let (Status, s) = AcpiProtocolCheck fw s
      in (if gAcpiTableProtocol s = 0 then EFI_NOT_FOUND else EFI_SUCCESS, s))"

lemma AcpiLoadDriver_status:
  assumes "AcpiLoadDriver fw s = (Status, s')"
  shows "(Status = EFI_SUCCESS \<longleftrightarrow> gAcpiTableProtocol s' \<noteq> 0) \<and> (Status \<noteq> EFI_SUCCESS \<longrightarrow> Status = EFI_NOT_FOUND)"
  using assms by (auto simp: AcpiLoadDriver_def split_beta Let_def split: if_splits)

end
