(* ===== verification/Block_Interface.thy ===== *)
theory Block_Interface
  imports Efi
begin

text \<open>
  What the file system drivers above a RAM disk rely on: a block protocol whose reads and writes of
  whole 512-byte blocks act on one sequence of bytes, the disk. \<open>fits\<close> says that a request of so many
  bytes from a block address lies on the disk, \<open>clear\<close> that a caller's buffer is not null and does not overlap
  the disk, \<open>buffer\<close> reads a caller's memory.
\<close>

locale block_protocol =
  fixes inv :: "'s \<Rightarrow> bool"
    and fits :: "'s \<Rightarrow> u64 \<Rightarrow> u64 \<Rightarrow> bool"
    and clear :: "'s \<Rightarrow> u64 \<Rightarrow> u64 \<Rightarrow> bool"
    and disk :: "'s \<Rightarrow> bytes"
    and buffer :: "'s \<Rightarrow> u64 \<Rightarrow> u64 \<Rightarrow> bytes"
    and read_blocks :: "'s \<Rightarrow> u64 \<Rightarrow> u64 \<Rightarrow> u64 \<Rightarrow> efi_status \<times> 's"
    and write_blocks :: "'s \<Rightarrow> u64 \<Rightarrow> u64 \<Rightarrow> u64 \<Rightarrow> efi_status \<times> 's"
  assumes fits_disk: "inv s \<Longrightarrow> fits s lba n \<Longrightarrow> 512 * unat lba + unat n \<le> length (disk s)"
    and length_buffer: "length (buffer s b n) = unat n"
    and read_blocks: "inv s \<Longrightarrow> fits s lba n \<Longrightarrow> clear s b n \<Longrightarrow>
      \<exists>s'. read_blocks s lba n b = (EFI_SUCCESS, s') \<and> inv s' \<and> disk s' = disk s
        \<and> buffer s' b n = take (unat n) (drop (512 * unat lba) (disk s))
        \<and> fits s' = fits s \<and> clear s' = clear s"
    and write_blocks: "inv s \<Longrightarrow> fits s lba n \<Longrightarrow> clear s b n \<Longrightarrow>
      \<exists>s'. write_blocks s lba n b = (EFI_SUCCESS, s') \<and> inv s'
        \<and> disk s' = memcpy_at (disk s) (512 * unat lba) (buffer s b n)
        \<and> fits s' = fits s \<and> clear s' = clear s"
    and refused: "inv s \<Longrightarrow> n \<noteq> 0 \<Longrightarrow> \<not> fits s lba n \<Longrightarrow>
      \<exists>e e'. EFI_ERROR e \<and> EFI_ERROR e' \<and> read_blocks s lba n b = (e, s) \<and> write_blocks s lba n b = (e', s)"
begin

text \<open>Blocks written are read back, whatever buffer they are read into.\<close>

lemma read_back:
  assumes "inv s" and "fits s lba n" and "clear s b n" and "clear s b' n"
  shows "\<exists>s' s''. write_blocks s lba n b = (EFI_SUCCESS, s') \<and> read_blocks s' lba n b' = (EFI_SUCCESS, s'')
    \<and> buffer s'' b' n = buffer s b n"
proof -
  obtain s' where w: "write_blocks s lba n b = (EFI_SUCCESS, s')" "inv s'"
    and d: "disk s' = memcpy_at (disk s) (512 * unat lba) (buffer s b n)" and eq: "fits s' = fits s" "clear s' = clear s"
    using write_blocks [OF assms(1-3)] by blast
  obtain s'' where r: "read_blocks s' lba n b' = (EFI_SUCCESS, s'')"
    and b: "buffer s'' b' n = take (unat n) (drop (512 * unat lba) (disk s'))"
    using read_blocks [OF w(2), of lba n b'] assms eq by auto
  have "take (unat n) (drop (512 * unat lba) (disk s')) = buffer s b n"
    using fits_disk [OF assms(1,2)] by (simp add: d memcpy_at_def length_buffer)
  then show ?thesis using w r b by auto
qed

text \<open>A read of blocks a write did not cover gives what it gave before the write.\<close>

lemma read_elsewhere:
  assumes "inv s" and "fits s lba n" and "clear s b n" and "fits s lba' n'" and "clear s b' n'"
    and apart: "512 * unat lba' + unat n' \<le> 512 * unat lba \<or> 512 * unat lba + unat n \<le> 512 * unat lba'"
  shows "\<exists>s' s''. write_blocks s lba n b = (EFI_SUCCESS, s') \<and> read_blocks s' lba' n' b' = (EFI_SUCCESS, s'')
    \<and> buffer s'' b' n' = take (unat n') (drop (512 * unat lba') (disk s))"
proof -
  obtain s' where w: "write_blocks s lba n b = (EFI_SUCCESS, s')" "inv s'"
    and d: "disk s' = memcpy_at (disk s) (512 * unat lba) (buffer s b n)" and eq: "fits s' = fits s" "clear s' = clear s"
    using write_blocks [OF assms(1-3)] by blast
  obtain s'' where r: "read_blocks s' lba' n' b' = (EFI_SUCCESS, s'')"
    and b: "buffer s'' b' n' = take (unat n') (drop (512 * unat lba') (disk s'))"
    using read_blocks [OF w(2), of lba' n' b'] assms eq by auto
  have "take (unat n') (drop (512 * unat lba') (disk s')) = take (unat n') (drop (512 * unat lba') (disk s))"
    using apart
  proof
    assume lt: "512 * unat lba' + unat n' \<le> 512 * unat lba"
    have "take (512 * unat lba) (disk s') = take (512 * unat lba) (disk s)"
      using fits_disk [OF assms(1,2)] by (simp add: d memcpy_at_def)
    then have "take (unat n') (drop (512 * unat lba') (take (512 * unat lba) (disk s'))) =
        take (unat n') (drop (512 * unat lba') (take (512 * unat lba) (disk s)))" by simp
    then show ?thesis using lt by (simp add: drop_take min_def split: if_splits)
  next
    assume le: "512 * unat lba + unat n \<le> 512 * unat lba'"
    then obtain k where k: "512 * unat lba' = 512 * unat lba + unat n + k" by (metis nat_le_iff_add)
    have "drop (512 * unat lba + unat n) (disk s') = drop (512 * unat lba + unat n) (disk s)"
      using fits_disk [OF assms(1,2)] by (simp add: d memcpy_at_def length_buffer)
    then have "drop k (drop (512 * unat lba + unat n) (disk s')) = drop k (drop (512 * unat lba + unat n) (disk s))"
      by simp
    then show ?thesis by (simp add: k add.commute add.left_commute)
  qed
  then show ?thesis using w r b by auto
qed

text \<open>Of two writes to the same blocks the last one counts.\<close>

lemma write_last:
  assumes "inv s" and "fits s lba n" and "clear s b n" and "clear s b' n"
  shows "\<exists>s' s''. write_blocks s lba n b = (EFI_SUCCESS, s') \<and> write_blocks s' lba n b' = (EFI_SUCCESS, s'')
    \<and> disk s'' = memcpy_at (disk s) (512 * unat lba) (buffer s' b' n)"
proof -
  obtain s' where w: "write_blocks s lba n b = (EFI_SUCCESS, s')" "inv s'"
    and d: "disk s' = memcpy_at (disk s) (512 * unat lba) (buffer s b n)" and eq: "fits s' = fits s" "clear s' = clear s"
    using write_blocks [OF assms(1-3)] by blast
  obtain s'' where w': "write_blocks s' lba n b' = (EFI_SUCCESS, s'')"
    and d': "disk s'' = memcpy_at (disk s') (512 * unat lba) (buffer s' b' n)"
    using write_blocks [OF w(2), of lba n b'] assms eq by auto
  have "disk s'' = memcpy_at (disk s) (512 * unat lba) (buffer s' b' n)"
    using fits_disk [OF assms(1,2)] by (simp add: d d' memcpy_at_def length_buffer)
  then show ?thesis using w w' by auto
qed

end

end
