(* ===== verification/Ramdisk.thy ===== *)
theory Ramdisk
  imports Util Acpi Block_Interface
begin

text \<open>
  \<open>src/src/boot/mftah_uefi/ramdisk.c\<close> and \<open>drivers/ramdisk.h\<close>: the RAM disk driver. A disk is
  a \<open>RAMDISK_PRIVATE_DATA\<close> object over a range of memory. The block I/O protocols serve it; registering a
  range creates the object, installs the protocols and publishes the range in an ACPI NFIT table.
\<close>

section \<open>Data\<close>

record EFI_BLOCK_IO_MEDIA =
  MediaId :: u32
  RemovableMedia :: bool
  MediaPresent :: bool
  LogicalPartition :: bool
  ReadOnly :: bool
  WriteCaching :: bool
  BlockSize :: u32
  LastBlock :: u64

text \<open>The two protocol structures hold function pointers that are never changed, and a pointer to \<open>Media\<close>.\<close>

record RAMDISK_PRIVATE_DATA =
  Signature :: u64
  Handle :: u64
  Media :: EFI_BLOCK_IO_MEDIA
  DevicePath :: u64
  StartingAddr :: u64
  Size :: u64
  TypeGuid :: bytes
  InstanceNumber :: u16

definition RAM_DISK_BLOCK_SIZE :: u32 where
  "RAM_DISK_BLOCK_SIZE = 512"

definition RAMDISK_PRIVATE_DATA_SIGNATURE :: u64 where
  "RAMDISK_PRIVATE_DATA_SIGNATURE = 0x4b534452"

definition mRamDiskPrivateDataTemplate :: RAMDISK_PRIVATE_DATA where
  "mRamDiskPrivateDataTemplate =
     \<lparr>Signature = RAMDISK_PRIVATE_DATA_SIGNATURE, Handle = 0,
      Media = \<lparr>MediaId = 0, RemovableMedia = False, MediaPresent = False, LogicalPartition = False,
               ReadOnly = False, WriteCaching = False, BlockSize = 0, LastBlock = 0\<rparr>,
      DevicePath = 0, StartingAddr = 0, Size = 0, TypeGuid = replicate 16 0, InstanceNumber = 0\<rparr>"

definition mRamDiskDeviceNodeTemplate :: bytes where
  "mRamDiskDeviceNodeTemplate = [0x04, 0x09, 38, 0] @ replicate 34 0"

section \<open>Block I/O\<close>

definition RamDiskInitBlockIo :: "RAMDISK_PRIVATE_DATA \<Rightarrow> RAMDISK_PRIVATE_DATA" where
  "RamDiskInitBlockIo PrivateData =
     PrivateData\<lparr>Media := (Media PrivateData)
       \<lparr>RemovableMedia := False, MediaPresent := True, LogicalPartition := False, ReadOnly := False,
        WriteCaching := False, BlockSize := RAM_DISK_BLOCK_SIZE,
        LastBlock := (Size PrivateData + ucast RAM_DISK_BLOCK_SIZE - 1) div ucast RAM_DISK_BLOCK_SIZE - 1\<rparr>\<rparr>"

definition RamDiskBlkIoReset :: "RAMDISK_PRIVATE_DATA \<Rightarrow> bool \<Rightarrow> efi_status" where
  "RamDiskBlkIoReset This ExtendedVerification = EFI_SUCCESS"

definition RamDiskBlkIoReadBlocks ::
    "RAMDISK_PRIVATE_DATA \<Rightarrow> u32 \<Rightarrow> u64 \<Rightarrow> u64 \<Rightarrow> u64 \<Rightarrow> memory \<Rightarrow> efi_status \<times> memory" where
  "RamDiskBlkIoReadBlocks PrivateData mediaId Lba BufferSize Buffer mem =
     (if mediaId \<noteq> MediaId (Media PrivateData) then (EFI_MEDIA_CHANGED, mem)
      else if Buffer = 0 then (EFI_INVALID_PARAMETER, mem)
      else if BufferSize = 0 then (EFI_SUCCESS, mem)
      else if BufferSize mod ucast (BlockSize (Media PrivateData)) \<noteq> 0 then (EFI_BAD_BUFFER_SIZE, mem)
      else if Lba > LastBlock (Media PrivateData) then (EFI_INVALID_PARAMETER, mem)
      else let NumberOfBlocks = BufferSize div ucast (BlockSize (Media PrivateData))
        in if Lba + NumberOfBlocks - 1 > LastBlock (Media PrivateData) then (EFI_INVALID_PARAMETER, mem)
           else (EFI_SUCCESS,
                 CopyMem Buffer (StartingAddr PrivateData + Lba * ucast (BlockSize (Media PrivateData))) BufferSize mem))"

definition RamDiskBlkIoWriteBlocks ::
    "RAMDISK_PRIVATE_DATA \<Rightarrow> u32 \<Rightarrow> u64 \<Rightarrow> u64 \<Rightarrow> u64 \<Rightarrow> memory \<Rightarrow> efi_status \<times> memory" where
  "RamDiskBlkIoWriteBlocks PrivateData mediaId Lba BufferSize Buffer mem =
     (if mediaId \<noteq> MediaId (Media PrivateData) then (EFI_MEDIA_CHANGED, mem)
      else if ReadOnly (Media PrivateData) then (EFI_WRITE_PROTECTED, mem)
      else if Buffer = 0 then (EFI_INVALID_PARAMETER, mem)
      else if BufferSize = 0 then (EFI_SUCCESS, mem)
      else if BufferSize mod ucast (BlockSize (Media PrivateData)) \<noteq> 0 then (EFI_BAD_BUFFER_SIZE, mem)
      else if Lba > LastBlock (Media PrivateData) then (EFI_INVALID_PARAMETER, mem)
      else let NumberOfBlocks = BufferSize div ucast (BlockSize (Media PrivateData))
        in if Lba + NumberOfBlocks - 1 > LastBlock (Media PrivateData) then (EFI_INVALID_PARAMETER, mem)
           else (EFI_SUCCESS,
                 CopyMem (StartingAddr PrivateData + Lba * ucast (BlockSize (Media PrivateData))) Buffer BufferSize mem))"

definition RamDiskBlkIoFlushBlocks :: "RAMDISK_PRIVATE_DATA \<Rightarrow> efi_status" where
  "RamDiskBlkIoFlushBlocks This = EFI_SUCCESS"

text \<open>
  The second protocol reports completion through a token. A token is given by its event and
  transaction status; \<open>None\<close> is the null token. The events signalled are returned.
\<close>

record EFI_BLOCK_IO2_TOKEN =
  Event :: u64
  TransactionStatus :: efi_status

definition signal_token :: "EFI_BLOCK_IO2_TOKEN option \<Rightarrow> EFI_BLOCK_IO2_TOKEN option \<times> efi_call list" where
  "signal_token Token =
     (case Token of None \<Rightarrow> (Token, [])
      | Some t \<Rightarrow> if Event t \<noteq> 0 then (Some (t\<lparr>TransactionStatus := EFI_SUCCESS\<rparr>), [SignalEvent (Event t)])
                else (Token, []))"

definition RamDiskBlkIo2Reset :: "RAMDISK_PRIVATE_DATA \<Rightarrow> bool \<Rightarrow> efi_status" where
  "RamDiskBlkIo2Reset This ExtendedVerification = EFI_SUCCESS"

definition RamDiskBlkIo2ReadBlocksEx ::
    "RAMDISK_PRIVATE_DATA \<Rightarrow> u32 \<Rightarrow> u64 \<Rightarrow> EFI_BLOCK_IO2_TOKEN option \<Rightarrow> u64 \<Rightarrow> u64 \<Rightarrow> memory
      \<Rightarrow> efi_status \<times> memory \<times> EFI_BLOCK_IO2_TOKEN option \<times> efi_call list" where
  "RamDiskBlkIo2ReadBlocksEx PrivateData mediaId Lba Token BufferSize Buffer mem =
     (let (Status, mem) = RamDiskBlkIoReadBlocks PrivateData mediaId Lba BufferSize Buffer mem
      in if EFI_ERROR Status then (Status, mem, Token, []) else (EFI_SUCCESS, mem, signal_token Token))"

definition RamDiskBlkIo2WriteBlocksEx ::
    "RAMDISK_PRIVATE_DATA \<Rightarrow> u32 \<Rightarrow> u64 \<Rightarrow> EFI_BLOCK_IO2_TOKEN option \<Rightarrow> u64 \<Rightarrow> u64 \<Rightarrow> memory
      \<Rightarrow> efi_status \<times> memory \<times> EFI_BLOCK_IO2_TOKEN option \<times> efi_call list" where
  "RamDiskBlkIo2WriteBlocksEx PrivateData mediaId Lba Token BufferSize Buffer mem =
     (let (Status, mem) = RamDiskBlkIoWriteBlocks PrivateData mediaId Lba BufferSize Buffer mem
      in if EFI_ERROR Status then (Status, mem, Token, []) else (EFI_SUCCESS, mem, signal_token Token))"

definition RamDiskBlkIo2FlushBlocksEx ::
    "RAMDISK_PRIVATE_DATA \<Rightarrow> EFI_BLOCK_IO2_TOKEN option \<Rightarrow> efi_status \<times> EFI_BLOCK_IO2_TOKEN option \<times> efi_call list" where
  "RamDiskBlkIo2FlushBlocksEx PrivateData Token =
     (if ReadOnly (Media PrivateData) then (EFI_WRITE_PROTECTED, Token, []) else (EFI_SUCCESS, signal_token Token))"

section \<open>Registration\<close>

text \<open>The driver's state: the \<open>RAMDISK_PRIVATE_DATA\<close> objects alive in the pool, by address.\<close>

record rd_state = acpi_state +
  ramdisks :: "u64 \<Rightarrow> RAMDISK_PRIVATE_DATA option"

definition nvdimmRootAml :: bytes where
  "nvdimmRootAml = [
    0x53, 0x53, 0x44, 0x54, 0x7c, 0x00, 0x00, 0x00,
    0x02, 0xc3, 0x53, 0x4f, 0x4c, 0x53, 0x20, 0x20,
    0x52, 0x61, 0x6d, 0x44, 0x69, 0x73, 0x6b, 0x20,
    0x00, 0x10, 0x00, 0x00, 0x49, 0x4e, 0x54, 0x4c,
    0x29, 0x06, 0x18, 0x20, 0x10, 0x47, 0x05, 0x5c,
    0x5f, 0x53, 0x42, 0x5f, 0x5b, 0x82, 0x4e, 0x04,
    0x4e, 0x56, 0x44, 0x52, 0x08, 0x5f, 0x48, 0x49,
    0x44, 0x0d, 0x41, 0x43, 0x50, 0x49, 0x30, 0x30,
    0x31, 0x32, 0x00, 0x08, 0x5f, 0x53, 0x54, 0x52,
    0x11, 0x29, 0x0a, 0x26, 0x4e, 0x00, 0x56, 0x00,
    0x44, 0x00, 0x49, 0x00, 0x4d, 0x00, 0x4d, 0x00,
    0x20, 0x00, 0x52, 0x00, 0x6f, 0x00, 0x6f, 0x00,
    0x74, 0x00, 0x20, 0x00, 0x44, 0x00, 0x65, 0x00,
    0x76, 0x00, 0x69, 0x00, 0x63, 0x00, 0x65, 0x00,
    0x00, 0x00, 0x14, 0x09, 0x5f, 0x53, 0x54, 0x41,
    0x00, 0xa4, 0x0a, 0x0f]"

definition RamDiskPublishSsdt :: "firmware \<Rightarrow> 'a rd_state_scheme \<Rightarrow> efi_status \<times> 'a rd_state_scheme" where
  "RamDiskPublishSsdt fw s =
     (let s = service (InstallAcpiTable nvdimmRootAml) s in (ret fw (calls s), s))"

text \<open>
  The memory map is fetched until the buffer allocated for it is big enough; the loop ends only
  when the firmware stops answering that it is too small. The result is the pool address
  and size of the map, or the status to return.
\<close>

partial_function (option) fetch_memory_map ::
    "firmware \<Rightarrow> u64 \<Rightarrow> 'a rd_state_scheme \<Rightarrow> ((efi_status + u64 \<times> u64) \<times> 'a rd_state_scheme) option" where
  "fetch_memory_map fw MemoryMapSize s =
     (let s = service (AllocatePool MemoryMapSize) s; MemoryMap = ret fw (calls s)
      in if MemoryMap = 0 then Some (Inl EFI_OUT_OF_RESOURCES, s)
         else let s = service (GetMemoryMap MemoryMapSize MemoryMap) s;
                  Status = ret fw (calls s); MemoryMapSize = map_size fw (calls s)
           in if EFI_ERROR Status
              then let t = service (FreePool MemoryMap) s
                   in if Status = EFI_BUFFER_TOO_SMALL then fetch_memory_map fw MemoryMapSize t
                      else Some (Inl Status, t)
              else Some (Inr (MemoryMap, MemoryMapSize), s))"

text \<open>
  The walk over the descriptors. \<open>at\<close> is the offset of \<open>MemoryMapEntry\<close> in the map; a descriptor
  size of 0 never reaches the end.
\<close>

definition covers :: "EFI_MEMORY_DESCRIPTOR \<Rightarrow> RAMDISK_PRIVATE_DATA \<Rightarrow> bool" where
  "covers d PrivateData \<longleftrightarrow>
     PhysicalStart d \<le> StartingAddr PrivateData
     \<and> PhysicalStart d + NumberOfPages d * 4096 \<ge> StartingAddr PrivateData + Size PrivateData"

partial_function (option) find_memory ::
    "(nat \<Rightarrow> EFI_MEMORY_DESCRIPTOR) \<Rightarrow> nat \<Rightarrow> nat \<Rightarrow> RAMDISK_PRIVATE_DATA \<Rightarrow> nat \<Rightarrow> bool option" where
  "find_memory desc DescriptorSize MemoryMapSize PrivateData at =
     (if at < MemoryMapSize
      then if covers (desc at) PrivateData then Some True
           else find_memory desc DescriptorSize MemoryMapSize PrivateData (at + DescriptorSize)
      else Some False)"

text \<open>
  The NFIT: the 36 bytes of the description header, 4 reserved bytes and one system physical address
  range structure of 56 bytes. \<open>MFTAH_RELEASE_DATE\<close> comes from the MFTAH library's header.
\<close>

definition nfit_bytes :: "u32 \<Rightarrow> RAMDISK_PRIVATE_DATA \<Rightarrow> u8 \<Rightarrow> bytes" where
  "nfit_bytes MFTAH_RELEASE_DATE PrivateData Checksum =
     [0x4e, 0x46, 0x49, 0x54] @ le32 96 @ [1] @ [Checksum]
     @ [0x53, 0x4f, 0x4c, 0x53, 0x20, 0x20]
     @ [0x4d, 0x46, 0x54, 0x41, 0x48, 0x45, 0x46, 0x49]
     @ le32 MFTAH_RELEASE_DATE @ [0x58, 0x4d, 0x49, 0x54] @ le32 1
     @ [0, 0, 0, 0]
     @ le16 0 @ le16 56 @ le16 0 @ le16 0 @ le32 0 @ le32 0 @ TypeGuid PrivateData
     @ le64 (StartingAddr PrivateData) @ le64 (Size PrivateData) @ le64 0"

definition RamDiskPublishNfit ::
    "firmware \<Rightarrow> u32 \<Rightarrow> RAMDISK_PRIVATE_DATA \<Rightarrow> 'a rd_state_scheme \<Rightarrow> (efi_status \<times> 'a rd_state_scheme) option" where
  "RamDiskPublishNfit fw MFTAH_RELEASE_DATE PrivateData s =
     (let s = service (GetMemoryMap 0 0) s; MemoryMapSize = map_size fw (calls s)
      in if gAcpiTableProtocol s = 0 then Some (EFI_NOT_FOUND, s)
         else case fetch_memory_map fw MemoryMapSize s of None \<Rightarrow> None
          | Some (Inl Status, s) \<Rightarrow> Some (Status, s)
          | Some (Inr (MemoryMap, MemoryMapSize), s) \<Rightarrow>
             (case find_memory (desc_at fw (calls s)) (unat (desc_size fw (calls s))) (unat MemoryMapSize) PrivateData 0 of
                None \<Rightarrow> None
              | Some MemoryFound \<Rightarrow>
                 let s = service (FreePool MemoryMap) s
                 in if \<not> MemoryFound then Some (EFI_NOT_FOUND, s)
                    else let (Status, s) = RamDiskPublishSsdt fw s
                      in if EFI_ERROR Status then Some (Status, s)
                         else let s = service (AllocatePool 96) s; Nfit = ret fw (calls s)
                           in if Nfit = 0 then Some (EFI_OUT_OF_RESOURCES, s)
                              else let Checksum = CalculateCheckSum8 Nfit (nfit_bytes MFTAH_RELEASE_DATE PrivateData 0) 96;
                                       s = service (InstallAcpiTable (nfit_bytes MFTAH_RELEASE_DATE PrivateData Checksum)) s;
                                       Status = ret fw (calls s);
                                       s = service (FreePool Nfit) s
                                in Some (Status, s)))"

definition RamDiskInitDeviceNode :: "RAMDISK_PRIVATE_DATA \<Rightarrow> bytes \<Rightarrow> bytes" where
  "RamDiskInitDeviceNode PrivateData RamDiskDevNode =
     (let EndingAddr = StartingAddr PrivateData + Size PrivateData - 1;
          n = memcpy_at RamDiskDevNode 4 (le64 (StartingAddr PrivateData));
          n = memcpy_at n 12 (le64 EndingAddr);
          n = memcpy_at n 20 (TypeGuid PrivateData)
      in memcpy_at n 36 (le16 (InstanceNumber PrivateData)))"

definition put_ramdisk :: "u64 \<Rightarrow> RAMDISK_PRIVATE_DATA option \<Rightarrow> 'a rd_state_scheme \<Rightarrow> 'a rd_state_scheme" where
  "put_ramdisk p d s = s\<lparr>ramdisks := (ramdisks s)(p := d)\<rparr>"

text \<open>The label \<open>ErrorExit\<close>, reached with \<open>PrivateData\<close> allocated; 0 for a device node not yet allocated.\<close>

definition ErrorExit :: "u64 \<Rightarrow> u64 \<Rightarrow> u64 \<Rightarrow> 'a rd_state_scheme \<Rightarrow> 'a rd_state_scheme" where
  "ErrorExit RamDiskDevNode PrivateData devicePath s =
     (let s = (if RamDiskDevNode \<noteq> 0 then service (FreePool RamDiskDevNode) s else s);
          s = (if devicePath \<noteq> 0 then service (FreePool devicePath) s else s)
      in put_ramdisk PrivateData None (service (FreePool PrivateData) s))"

text \<open>
  The end of \<open>RamDiskRegister\<close>, from the installation of the protocols on. The outcome is the status and the
  state; \<open>None\<close> stands for not returning: the endless loop of \<open>PANIC\<close>, or of fetching the memory map.
\<close>

definition register_install ::
    "firmware \<Rightarrow> u32 \<Rightarrow> u64 \<Rightarrow> u64 \<Rightarrow> RAMDISK_PRIVATE_DATA \<Rightarrow> 'a rd_state_scheme \<Rightarrow> (efi_status \<times> 'a rd_state_scheme) option" where
  "register_install fw MFTAH_RELEASE_DATE PrivateData RamDiskDevNode pd s =
     (let s = service (InstallMultipleProtocolInterfaces (Handle pd)
                [BlockIoOf PrivateData, BlockIo2Of PrivateData, DevicePathOf (DevicePath pd)]) s;
          Status = ret fw (calls s);
          pd = pd\<lparr>Handle := out fw (calls s)\<rparr>;
          s = put_ramdisk PrivateData (Some pd) s
      in if EFI_ERROR Status then Some (Status, ErrorExit RamDiskDevNode PrivateData (DevicePath pd) s)
      else
      let s = service (ConnectController (Handle pd)) s; Status = ret fw (calls s)
      in if EFI_ERROR Status then Some (Status, ErrorExit RamDiskDevNode PrivateData (DevicePath pd) s)
      else
      let s = service (FreePool RamDiskDevNode) s
      in if gAcpiTableProtocol s \<noteq> 0
         then case RamDiskPublishNfit fw MFTAH_RELEASE_DATE pd s of None \<Rightarrow> None
           | Some (Status, s) \<Rightarrow> Some (if EFI_ERROR Status then Status else EFI_SUCCESS, s)
         else None)"

text \<open>
  The outcome adds the value written to \<open>*DevicePath\<close>, if any. A null \<open>RamDiskType\<close> is \<open>None\<close>;
  \<open>DevicePathNull\<close> says that the out pointer is null.
\<close>

definition RamDiskRegister ::
    "firmware \<Rightarrow> u32 \<Rightarrow> u64 \<Rightarrow> u64 \<Rightarrow> bytes option \<Rightarrow> u64 \<Rightarrow> bool \<Rightarrow> 'a rd_state_scheme
      \<Rightarrow> (efi_status \<times> u64 option \<times> 'a rd_state_scheme) option" where
  "RamDiskRegister fw MFTAH_RELEASE_DATE RamDiskBase RamDiskSize RamDiskType ParentDevicePath DevicePathNull s =
     (if RamDiskSize = 0 \<or> RamDiskType = None \<or> DevicePathNull then Some (EFI_NOT_FOUND, None, s)
      else if RamDiskSize mod ucast RAM_DISK_BLOCK_SIZE \<noteq> 0 then Some (EFI_BAD_BUFFER_SIZE, None, s)
      else if RamDiskSize \<ge> 0xffffffffffffffff \<or> RamDiskBase > (0xffffffffffffffff - RamDiskSize) + 1
      then Some (EFI_INVALID_PARAMETER, None, s)
      else
      let s = service (AllocatePool (private_data_size fw)) s; PrivateData = ret fw (calls s)
      in if PrivateData = 0 then Some (EFI_OUT_OF_RESOURCES, None, s)
      else
      let pd = mRamDiskPrivateDataTemplate\<lparr>TypeGuid := the RamDiskType, StartingAddr := RamDiskBase, Size := RamDiskSize\<rparr>;
          s = put_ramdisk PrivateData (Some pd) s;
          s = service (AllocatePool 38) s; RamDiskDevNode = ret fw (calls s)
      in if RamDiskDevNode = 0 then Some (EFI_OUT_OF_RESOURCES, None, ErrorExit 0 PrivateData 0 s)
      else
      let node = RamDiskInitDeviceNode pd mRamDiskDeviceNodeTemplate;
          s = service (AppendDevicePathNode ParentDevicePath node) s; devicePath = ret fw (calls s)
      in if devicePath = 0 then Some (EFI_OUT_OF_RESOURCES, Some 0, ErrorExit RamDiskDevNode PrivateData 0 s)
      else
      let s = service (DevicePathToStr devicePath) s; v = ret fw (calls s);
          s = service (FreePool v) s;
          pd = RamDiskInitBlockIo (pd\<lparr>DevicePath := devicePath\<rparr>);
          s = put_ramdisk PrivateData (Some pd) s
      in map_option (\<lambda>(Status, s). (Status, Some devicePath, s))
           (register_install fw MFTAH_RELEASE_DATE PrivateData RamDiskDevNode pd s))"

definition RamDiskUnregister :: "u64 \<Rightarrow> 'a rd_state_scheme \<Rightarrow> efi_status \<times> 'a rd_state_scheme" where
  "RamDiskUnregister devicePath s =
     (if devicePath = 0 then (EFI_INVALID_PARAMETER, s)
      else (EFI_SUCCESS, service (UninstallMultipleProtocolInterfaces devicePath) s))"

definition RDEntryPoint :: "firmware \<Rightarrow> u64 \<Rightarrow> 'a rd_state_scheme \<Rightarrow> efi_status \<times> 'a rd_state_scheme" where
  "RDEntryPoint fw ImageHandle s =
     (let s = service (InstallMultipleProtocolInterfaces ImageHandle [RamDiskProtocol]) s
      in if EFI_ERROR (ret fw (calls s)) then (EFI_INVALID_PARAMETER, s) else (EFI_SUCCESS, s))"

section \<open>Well-formed disks\<close>

definition rd_wf :: "RAMDISK_PRIVATE_DATA \<Rightarrow> bool" where
  "rd_wf P \<longleftrightarrow> BlockSize (Media P) = 512 \<and> \<not> ReadOnly (Media P)
     \<and> Size P \<noteq> 0 \<and> 512 dvd unat (Size P) \<and> unat (LastBlock (Media P)) + 1 = unat (Size P) div 512
     \<and> unat (StartingAddr P) + unat (Size P) \<le> 2 ^ 64"

lemma size_multiple:
  fixes n :: u64
  assumes "n mod 512 = 0"
  obtains k where "unat n = 512 * k" and "k < 2 ^ 55"
proof -
  have "unat (n mod 512) = 0" using assms by simp
  then have "512 dvd unat n" unfolding unat_mod by (simp add: dvd_eq_mod_eq_0)
  then obtain k where k: "unat n = 512 * k" by (elim dvdE)
  moreover have "k < 2 ^ 55" using k unat_u64 [of n] by simp
  ultimately show ?thesis by (rule that)
qed

text \<open>The registration checks on base and size, as the code has them, over the integers.\<close>

lemma geometry_checks:
  fixes base size :: u64
  assumes "size \<noteq> 0" and "size mod 512 = 0"
  shows "\<not> (size \<ge> 0xffffffffffffffff \<or> base > (0xffffffffffffffff - size) + 1) \<longleftrightarrow> unat base + unat size \<le> 2 ^ 64"
proof -
  obtain k where k: "unat size = 512 * k" "k < 2 ^ 55" using assms(2) by (rule size_multiple)
  then have "\<not> size \<ge> 0xffffffffffffffff" by (simp add: word_le_nat_alt)
  moreover have "(0xffffffffffffffff :: u64) = - 1" by simp
  then have neg: "(0xffffffffffffffff - size) + 1 = - size" by (simp only:) simp
  have "unat (- size) = 2 ^ 64 - unat size"
    using assms(1) unat_sub_if_size [of 0 size] by (simp add: word_size unat_eq_0)
  ultimately show ?thesis
    unfolding neg using unat_u64 [of size] by (auto simp: word_less_nat_alt)
qed

lemma RamDiskInitBlockIo_wf:
  assumes "Size P \<noteq> 0" and "Size P mod 512 = 0" and "unat (StartingAddr P) + unat (Size P) \<le> 2 ^ 64"
  shows "rd_wf (RamDiskInitBlockIo P)"
proof -
  obtain k where k: "unat (Size P) = 512 * k" and max: "k < 2 ^ 55" using assms(2) by (rule size_multiple)
  then have pos: "0 < k" and d: "512 dvd unat (Size P)"
    using assms(1) by (auto simp: unat_eq_0 intro: ccontr)
  have "Size P + 512 - 1 = Size P + 511" by simp
  then have "unat (Size P + 512 - 1) = unat (Size P) + 511"
    using max by (simp add: unat_plus_if' k)
  then have "unat ((Size P + 512 - 1) div 512) = k"
    using k by (simp add: unat_div)
  then have "unat ((Size P + 512 - 1) div 512 - 1) = k - 1"
    using pos by (simp add: unat_minus_one unat_eq_0 flip: unat_gt_0)
  then show ?thesis
    using assms d k pos by (simp add: rd_wf_def RamDiskInitBlockIo_def RAM_DISK_BLOCK_SIZE_def)
qed

text \<open>A request of \<open>n\<close> bytes from block \<open>Lba\<close> that lies on the disk, over the integers.\<close>

definition on_disk :: "RAMDISK_PRIVATE_DATA \<Rightarrow> u64 \<Rightarrow> u64 \<Rightarrow> bool" where
  "on_disk P Lba n \<longleftrightarrow> 512 dvd unat n \<and> 512 * unat Lba + unat n \<le> unat (Size P)"

lemma multiple_iff: "(n :: u64) mod 512 = 0 \<longleftrightarrow> 512 dvd unat n"
proof -
  have "n mod 512 = 0 \<longleftrightarrow> unat (n mod 512) = 0" by (simp only: unat_eq_0)
  then show ?thesis unfolding unat_mod by (simp only: dvd_eq_mod_eq_0) simp
qed

lemma request_checks:
  assumes wf: "rd_wf P" and n: "n \<noteq> 0" and mult: "n mod 512 = 0"
  shows "Lba > LastBlock (Media P) \<or> Lba + n div 512 - 1 > LastBlock (Media P) \<longleftrightarrow> \<not> on_disk P Lba n"
proof -
  obtain k where k: "unat n = 512 * k" "k < 2 ^ 55" using mult by (rule size_multiple)
  obtain m where m: "unat (Size P) = 512 * m" using wf by (auto simp: rd_wf_def)
  have pos: "0 < k" using k n by (auto simp: unat_eq_0 intro: ccontr)
  have last: "unat (LastBlock (Media P)) = m - 1" "0 < m" "m < 2 ^ 55"
    using wf m unat_u64 [of "Size P"] by (auto simp: rd_wf_def)
  have blocks: "unat (n div 512) = k" using k by (simp add: unat_div)
  have on: "on_disk P Lba n \<longleftrightarrow> unat Lba + k \<le> m"
    using k m by (auto simp: on_disk_def)
  show ?thesis
  proof (cases "unat Lba < m")
    case True
    then have "unat (Lba + n div 512) = unat Lba + k"
      using blocks k last by (simp add: unat_plus_if')
    moreover from this have "unat (Lba + n div 512 - 1) = unat Lba + k - 1"
      using pos by (subst unat_minus_one) auto
    ultimately show ?thesis
      using True last pos by (auto simp: on word_less_nat_alt)
  next
    case False
    then show ?thesis using last pos by (auto simp: on word_less_nat_alt)
  qed
qed

lemma disk_address:
  assumes "rd_wf P" and "on_disk P Lba n" and "n \<noteq> 0"
  shows "unat (StartingAddr P + Lba * 512) = unat (StartingAddr P) + 512 * unat Lba"
    and "unat (StartingAddr P + Lba * 512) + unat n \<le> unat (StartingAddr P) + unat (Size P)"
proof -
  have "0 < unat n" using assms(3) by (simp add: unat_gt_0)
  then have lt: "unat (StartingAddr P) + 512 * unat Lba < 2 ^ 64"
    and le: "unat (StartingAddr P) + 512 * unat Lba + unat n \<le> unat (StartingAddr P) + unat (Size P)"
    using assms by (auto simp: rd_wf_def on_disk_def)
  then have "unat (Lba * 512) = 512 * unat Lba"
    by (subst unat_mult_lem [THEN iffD1]) simp_all
  then show eq: "unat (StartingAddr P + Lba * 512) = unat (StartingAddr P) + 512 * unat Lba"
    using lt by (simp add: unat_plus_if')
  show "unat (StartingAddr P + Lba * 512) + unat n \<le> unat (StartingAddr P) + unat (Size P)"
    unfolding eq using le .
qed

text \<open>The status of a request, for both directions, decided over the integers.\<close>

definition request_status :: "bool \<Rightarrow> RAMDISK_PRIVATE_DATA \<Rightarrow> u32 \<Rightarrow> u64 \<Rightarrow> u64 \<Rightarrow> u64 \<Rightarrow> efi_status" where
  "request_status writing P mediaId Lba n Buffer =
     (if mediaId \<noteq> MediaId (Media P) then EFI_MEDIA_CHANGED
      else if writing \<and> ReadOnly (Media P) then EFI_WRITE_PROTECTED
      else if Buffer = 0 then EFI_INVALID_PARAMETER
      else if n = 0 then EFI_SUCCESS
      else if \<not> 512 dvd unat n then EFI_BAD_BUFFER_SIZE
      else if on_disk P Lba n then EFI_SUCCESS
      else EFI_INVALID_PARAMETER)"

lemma CopyMem_0 [simp]: "CopyMem d s 0 mem = mem"
  by (simp add: CopyMem_def)

lemma RamDiskBlkIoReadBlocks_eq:
  assumes wf: "rd_wf P"
  shows "RamDiskBlkIoReadBlocks P mediaId Lba n Buffer mem =
    (let status = request_status False P mediaId Lba n Buffer
     in (status, if status = EFI_SUCCESS then CopyMem Buffer (StartingAddr P + Lba * 512) n mem else mem))"
proof -
  have "BlockSize (Media P) = 512" using wf by (simp add: rd_wf_def)
  then show ?thesis
    using request_checks [OF wf, of n Lba]
    by (simp add: RamDiskBlkIoReadBlocks_def request_status_def multiple_iff Let_def) blast
qed

lemma RamDiskBlkIoWriteBlocks_eq:
  assumes wf: "rd_wf P"
  shows "RamDiskBlkIoWriteBlocks P mediaId Lba n Buffer mem =
    (let status = request_status True P mediaId Lba n Buffer
     in (status, if status = EFI_SUCCESS then CopyMem (StartingAddr P + Lba * 512) Buffer n mem else mem))"
proof -
  have "BlockSize (Media P) = 512" using wf by (simp add: rd_wf_def)
  then show ?thesis
    using request_checks [OF wf, of n Lba]
    by (simp add: RamDiskBlkIoWriteBlocks_def request_status_def multiple_iff Let_def) blast
qed

section \<open>The RAM disk as a block device\<close>

text \<open>
  The view of the two protocols over a disk and the machine's memory. The caller passes the media
  identifier it finds in \<open>Media\<close>, and \<open>EFI_BLOCK_IO2\<close> some token.
\<close>

type_synonym disk_state = "RAMDISK_PRIVATE_DATA \<times> memory"

definition rd_disk :: "disk_state \<Rightarrow> bytes" where
  "rd_disk s = mem_bytes (snd s) (StartingAddr (fst s)) (unat (Size (fst s)))"

definition rd_inv :: "disk_state \<Rightarrow> bool" where
  "rd_inv s = rd_wf (fst s)"

definition rd_fits :: "disk_state \<Rightarrow> u64 \<Rightarrow> u64 \<Rightarrow> bool" where
  "rd_fits s = on_disk (fst s)"

definition rd_clear :: "disk_state \<Rightarrow> u64 \<Rightarrow> u64 \<Rightarrow> bool" where
  "rd_clear s b n \<longleftrightarrow> b \<noteq> 0 \<and> (\<forall>i<unat n. \<not> in_range (StartingAddr (fst s)) (Size (fst s)) (b + of_nat i))"

definition rd_buffer :: "disk_state \<Rightarrow> u64 \<Rightarrow> u64 \<Rightarrow> bytes" where
  "rd_buffer s b n = mem_bytes (snd s) b (unat n)"

definition blkio_read :: "disk_state \<Rightarrow> u64 \<Rightarrow> u64 \<Rightarrow> u64 \<Rightarrow> efi_status \<times> disk_state" where
  "blkio_read s Lba n b =
     (let (status, mem) = RamDiskBlkIoReadBlocks (fst s) (MediaId (Media (fst s))) Lba n b (snd s) in (status, fst s, mem))"

definition blkio_write :: "disk_state \<Rightarrow> u64 \<Rightarrow> u64 \<Rightarrow> u64 \<Rightarrow> efi_status \<times> disk_state" where
  "blkio_write s Lba n b =
     (let (status, mem) = RamDiskBlkIoWriteBlocks (fst s) (MediaId (Media (fst s))) Lba n b (snd s) in (status, fst s, mem))"

definition blkio2_read :: "EFI_BLOCK_IO2_TOKEN option \<Rightarrow> disk_state \<Rightarrow> u64 \<Rightarrow> u64 \<Rightarrow> u64 \<Rightarrow> efi_status \<times> disk_state" where
  "blkio2_read Token s Lba n b =
     (let (status, mem, _) = RamDiskBlkIo2ReadBlocksEx (fst s) (MediaId (Media (fst s))) Lba Token n b (snd s)
      in (status, fst s, mem))"

definition blkio2_write :: "EFI_BLOCK_IO2_TOKEN option \<Rightarrow> disk_state \<Rightarrow> u64 \<Rightarrow> u64 \<Rightarrow> u64 \<Rightarrow> efi_status \<times> disk_state" where
  "blkio2_write Token s Lba n b =
     (let (status, mem, _) = RamDiskBlkIo2WriteBlocksEx (fst s) (MediaId (Media (fst s))) Lba Token n b (snd s)
      in (status, fst s, mem))"

lemmas rd_view = rd_disk_def rd_inv_def rd_fits_def rd_clear_def rd_buffer_def

lemma in_range_iff:
  fixes start n :: u64
  assumes "unat start + unat n \<le> 2 ^ 64"
  shows "in_range start n a \<longleftrightarrow> unat start \<le> unat a \<and> unat a < unat start + unat n"
  using assms unat_u64 [of a] by (auto simp: in_range_def word_less_nat_alt unat_sub_if_size word_size)

text \<open>A buffer clear of the disk can be written without changing the disk.\<close>

lemma CopyMem_clear:
  assumes "rd_clear s b n" and "i < unat (Size (fst s))"
  shows "CopyMem b src n mem (StartingAddr (fst s) + of_nat i) = mem (StartingAddr (fst s) + of_nat i)"
proof (rule CopyMem_outside)
  let ?a = "StartingAddr (fst s) + of_nat i"
  show "\<not> in_range b n ?a"
  proof
    assume "in_range b n ?a"
    then have "unat (?a - b) < unat n" by (simp add: in_range_def word_less_nat_alt)
    then have "\<not> in_range (StartingAddr (fst s)) (Size (fst s)) (b + of_nat (unat (?a - b)))"
      using assms(1) unfolding rd_clear_def by blast
    moreover have "b + of_nat (unat (?a - b)) = ?a" by simp
    moreover have "unat (of_nat i :: u64) = i"
      using assms(2) unat_u64 [of "Size (fst s)"] by (intro unat_of_nat_u64) simp
    ultimately show False using assms(2) by (simp add: in_range_def word_less_nat_alt)
  qed
qed

lemma blkio_status:
  assumes "rd_inv s"
  shows "blkio_read s Lba n b = (let status = request_status False (fst s) (MediaId (Media (fst s))) Lba n b
      in (status, fst s, if status = EFI_SUCCESS then CopyMem b (StartingAddr (fst s) + Lba * 512) n (snd s) else snd s))"
    and "blkio_write s Lba n b = (let status = request_status True (fst s) (MediaId (Media (fst s))) Lba n b
      in (status, fst s, if status = EFI_SUCCESS then CopyMem (StartingAddr (fst s) + Lba * 512) b n (snd s) else snd s))"
  using assms
  by (simp_all add: rd_inv_def blkio_read_def blkio_write_def RamDiskBlkIoReadBlocks_eq RamDiskBlkIoWriteBlocks_eq Let_def)

lemma request_status_fits:
  assumes "rd_inv s" and "rd_fits s Lba n" and "b \<noteq> 0"
  shows "request_status w (fst s) (MediaId (Media (fst s))) Lba n b = EFI_SUCCESS"
  using assms by (simp add: request_status_def rd_inv_def rd_wf_def rd_fits_def on_disk_def)

lemma request_status_refused:
  assumes "n \<noteq> 0" and "\<not> rd_fits s Lba n"
  shows "EFI_ERROR (request_status w (fst s) mediaId Lba n b)"
  using assms by (simp add: request_status_def rd_fits_def)

lemma disk_offset: "512 * unat (Lba :: u64) < 2 ^ 64 \<Longrightarrow> Lba * 512 = of_nat (512 * unat Lba)"
  by (simp add: mult.commute)

lemma blkio_block_protocol: "block_protocol rd_inv rd_fits rd_clear rd_disk rd_buffer blkio_read blkio_write"
proof
  fix s :: disk_state and lba n b
  assume inv: "rd_inv s" and fits: "rd_fits s lba n"
  then show len: "512 * unat lba + unat n \<le> length (rd_disk s)"
    by (simp add: rd_view on_disk_def)
  assume cl: "rd_clear s b n"
  then have b: "b \<noteq> 0" by (simp add: rd_clear_def)
  have off: "StartingAddr (fst s) + lba * 512 = StartingAddr (fst s) + of_nat (512 * unat lba)"
    by (simp add: mult.commute)
  show "\<exists>s'. blkio_read s lba n b = (EFI_SUCCESS, s') \<and> rd_inv s' \<and> rd_disk s' = rd_disk s
        \<and> rd_buffer s' b n = take (unat n) (drop (512 * unat lba) (rd_disk s))
        \<and> rd_fits s' = rd_fits s \<and> rd_clear s' = rd_clear s"
    using inv len CopyMem_clear [OF cl]
    by (auto simp: blkio_status request_status_fits [OF inv fits b] rd_view fun_eq_iff off CopyMem_dst mem_bytes_slice
        intro!: mem_bytes_cong simp del: of_nat_mult)
  show "\<exists>s'. blkio_write s lba n b = (EFI_SUCCESS, s') \<and> rd_inv s'
        \<and> rd_disk s' = memcpy_at (rd_disk s) (512 * unat lba) (rd_buffer s b n)
        \<and> rd_fits s' = rd_fits s \<and> rd_clear s' = rd_clear s"
    using inv len unat_u64 [of "Size (fst s)"]
    by (auto simp: blkio_status request_status_fits [OF inv fits b] rd_view fun_eq_iff off mem_bytes_CopyMem
        simp del: of_nat_mult)
next
  fix s :: disk_state and b n
  show "length (rd_buffer s b n) = unat n" by (simp add: rd_buffer_def)
next
  fix s :: disk_state and n lba b
  assume inv: "rd_inv s" and n: "n \<noteq> 0" "\<not> rd_fits s lba n"
  have err: "EFI_ERROR (request_status w (fst s) (MediaId (Media (fst s))) lba n b)" for w
    using n by (rule request_status_refused)
  then have "request_status w (fst s) (MediaId (Media (fst s))) lba n b \<noteq> EFI_SUCCESS" for w
    using EFI_ERROR_SUCCESS by metis
  then show "\<exists>e e'. EFI_ERROR e \<and> EFI_ERROR e' \<and> blkio_read s lba n b = (e, s) \<and> blkio_write s lba n b = (e', s)"
    using err by (simp add: blkio_status [OF inv] Let_def)
qed

interpretation blkio: block_protocol rd_inv rd_fits rd_clear rd_disk rd_buffer blkio_read blkio_write
  by (rule blkio_block_protocol)

lemma blkio2_read_eq: "rd_inv s \<Longrightarrow> blkio2_read Token s Lba n b = blkio_read s Lba n b"
  by (auto simp: blkio2_read_def blkio_read_def RamDiskBlkIo2ReadBlocksEx_def rd_inv_def
      RamDiskBlkIoReadBlocks_eq Let_def request_status_def split: if_splits)

lemma blkio2_write_eq: "rd_inv s \<Longrightarrow> blkio2_write Token s Lba n b = blkio_write s Lba n b"
  by (auto simp: blkio2_write_def blkio_write_def RamDiskBlkIo2WriteBlocksEx_def rd_inv_def
      RamDiskBlkIoWriteBlocks_eq Let_def request_status_def split: if_splits)

interpretation blkio2: block_protocol rd_inv rd_fits rd_clear rd_disk rd_buffer "blkio2_read Token" "blkio2_write Token"
  for Token
  using blkio_block_protocol unfolding block_protocol_def
  by (simp add: blkio2_read_eq blkio2_write_eq)

section \<open>Publishing and registering\<close>

text \<open>What the publishing code leaves alone, and the calls it adds.\<close>

definition extends :: "(efi_call \<Rightarrow> bool) \<Rightarrow> 'a rd_state_scheme \<Rightarrow> 'a rd_state_scheme \<Rightarrow> bool" where
  "extends Q s s' \<longleftrightarrow> ramdisks s' = ramdisks s \<and> gAcpiTableProtocol s' = gAcpiTableProtocol s \<and> ram s' = ram s
     \<and> (\<exists>t. calls s' = calls s @ t \<and> list_all Q t)"

lemma extends_refl [intro]: "extends Q s s"
  by (simp add: extends_def)

lemma extends_service [intro]: "Q c \<Longrightarrow> extends Q s t \<Longrightarrow> extends Q s (service c t)"
  by (auto simp: extends_def service_def)

lemma extends_trans [trans]: "extends Q s t \<Longrightarrow> extends Q t u \<Longrightarrow> extends Q s u"
  by (auto simp: extends_def)

lemma rd_service_simps [simp]:
  "calls (service c s) = calls s @ [c]" "ram (service c s) = ram s" "ramdisks (service c s) = ramdisks s"
  "gAcpiTableProtocol (service c s) = gAcpiTableProtocol s"
  by (simp_all add: service_def)

lemma put_ramdisk_simps [simp]:
  "calls (put_ramdisk p d s) = calls s" "ram (put_ramdisk p d s) = ram s" "ramdisks (put_ramdisk p d s) = (ramdisks s)(p := d)"
  "gAcpiTableProtocol (put_ramdisk p d s) = gAcpiTableProtocol s"
  by (simp_all add: put_ramdisk_def)

fun publishing :: "efi_call \<Rightarrow> bool" where
  "publishing (AllocatePool n) = True"
| "publishing (FreePool p) = True"
| "publishing (GetMemoryMap n p) = True"
| "publishing (InstallAcpiTable t) = True"
| "publishing c = False"

lemma fetch_memory_map_extends:
  assumes "fetch_memory_map fw n s = Some rs"
  shows "extends publishing s (snd rs)"
proof (rule fetch_memory_map.raw_induct [where P = "\<lambda>fw n s y. extends publishing s (snd y)", OF _ assms])
  fix f fw n s rs
  assume IH: "\<And>fw n s y. f fw n s = Some y \<Longrightarrow> extends publishing s (snd y)"
    and body: "(let s = service (AllocatePool n) s; MemoryMap = ret fw (calls s)
      in if MemoryMap = 0 then Some (Inl EFI_OUT_OF_RESOURCES, s)
         else let s = service (GetMemoryMap n MemoryMap) s;
                  Status = ret fw (calls s); MemoryMapSize = map_size fw (calls s)
           in if EFI_ERROR Status
              then let t = service (FreePool MemoryMap) s
                   in if Status = EFI_BUFFER_TOO_SMALL then f fw MemoryMapSize t
                      else Some (Inl Status, t)
              else Some (Inr (MemoryMap, MemoryMapSize), s)) = Some rs"
  let ?s = "service (GetMemoryMap n (ret fw (calls s @ [AllocatePool n]))) (service (AllocatePool n) s)"
  have step: "extends publishing s ?s" by (intro extends_service extends_refl) simp_all
  have free: "extends publishing s (service (FreePool p) ?s)" for p
    using step by (rule extends_service [rotated]) simp
  show "extends publishing s (snd rs)"
    using body extends_trans [OF free IH] free step extends_service [OF _ extends_refl, of publishing "AllocatePool n" s]
    by (auto simp: Let_def split: if_splits)
qed

lemma RamDiskPublishNfit_extends:
  assumes "RamDiskPublishNfit fw date P s = Some (st, s')"
  shows "extends publishing s s'"
proof -
  let ?s = "service (GetMemoryMap 0 0) s"
  have start: "extends publishing s ?s" by (intro extends_service extends_refl) simp
  have fetched: "extends publishing s t"
    if "fetch_memory_map fw (map_size fw (calls s @ [GetMemoryMap 0 0])) ?s = Some (r, t)" for r t
    using extends_trans [OF start fetch_memory_map_extends [OF that]] by simp
  show ?thesis
    using assms start
    by (auto simp: RamDiskPublishNfit_def RamDiskPublishSsdt_def Let_def
        split: if_splits option.splits sum.splits prod.splits
        intro!: extends_service dest!: fetched)
qed

lemma find_memory_found:
  "find_memory desc D n P at = Some True \<Longrightarrow> \<exists>k. covers (desc (at + k * D)) P \<and> at + k * D < n"
proof (rule find_memory.raw_induct [where P = "\<lambda>desc D n P at r. r \<longrightarrow> (\<exists>k. covers (desc (at + k * D)) P \<and> at + k * D < n)",
      THEN mp, OF _ _ TrueI])
  fix f and desc :: "nat \<Rightarrow> EFI_MEMORY_DESCRIPTOR" and D n :: nat and P and at :: nat and r
  assume IH: "\<And>desc D n P at r. f desc D n P at = Some r \<Longrightarrow> r \<longrightarrow> (\<exists>k. covers (desc (at + k * D)) P \<and> at + k * D < n)"
    and body: "(if at < n then if covers (desc at) P then Some True else f desc D n P (at + D) else Some False) = Some r"
  show "r \<longrightarrow> (\<exists>k. covers (desc (at + k * D)) P \<and> at + k * D < n)"
  proof
    assume r
    with body have "at < n" by (auto split: if_splits)
    show "\<exists>k. covers (desc (at + k * D)) P \<and> at + k * D < n"
    proof (cases "covers (desc at) P")
      case True
      then have "covers (desc (at + 0 * D)) P \<and> at + 0 * D < n" using \<open>at < n\<close> by simp
      then show ?thesis by (rule exI)
    next
      case False
      then obtain k where "covers (desc (at + D + k * D)) P" "at + D + k * D < n"
        using body IH [of desc D n P "at + D" r] \<open>r\<close> \<open>at < n\<close> by (auto split: if_splits)
      then show ?thesis by (auto simp: ac_simps intro!: exI [of _ "Suc k"])
    qed
  qed
qed

lemma fetch_memory_map_error:
  assumes "fetch_memory_map fw n s = Some rs"
  shows "case fst rs of Inl st \<Rightarrow> EFI_ERROR st | Inr m \<Rightarrow> True"
proof (rule fetch_memory_map.raw_induct [where P = "\<lambda>fw n s y. case fst y of Inl st \<Rightarrow> EFI_ERROR st | Inr m \<Rightarrow> True", OF _ assms])
  fix f fw n s rs
  assume IH: "\<And>fw n s y. f fw n s = Some y \<Longrightarrow> case fst y of Inl st \<Rightarrow> EFI_ERROR st | Inr m \<Rightarrow> True"
    and body: "(let s = service (AllocatePool n) s; MemoryMap = ret fw (calls s)
      in if MemoryMap = 0 then Some (Inl EFI_OUT_OF_RESOURCES, s)
         else let s = service (GetMemoryMap n MemoryMap) s;
                  Status = ret fw (calls s); MemoryMapSize = map_size fw (calls s)
           in if EFI_ERROR Status
              then let t = service (FreePool MemoryMap) s
                   in if Status = EFI_BUFFER_TOO_SMALL then f fw MemoryMapSize t
                      else Some (Inl Status, t)
              else Some (Inr (MemoryMap, MemoryMapSize), s)) = Some rs"
  show "case fst rs of Inl st \<Rightarrow> EFI_ERROR st | Inr m \<Rightarrow> True"
    using body IH by (auto simp: Let_def split: if_splits sum.splits)
qed

lemma find_memory_returns:
  "0 < D \<Longrightarrow> \<exists>r. find_memory desc D n P at = Some r"
proof (induction "n - at" arbitrary: at rule: less_induct)
  case less
  show ?case
  proof (cases "at < n")
    case True
    then have "n - (at + D) < n - at" using less.prems by simp
    from less.hyps [OF this less.prems] show ?thesis
      by (subst find_memory.simps) auto
  next
    case False
    then show ?thesis by (subst find_memory.simps) auto
  qed
qed

lemma fetch_memory_map_returns:
  assumes "\<forall>t. N \<le> length t \<longrightarrow> ret fw t \<noteq> EFI_BUFFER_TOO_SMALL"
  shows "\<exists>r. fetch_memory_map fw n s = Some r"
proof (induction "N - length (calls s)" arbitrary: n s rule: less_induct)
  case less
  let ?t = "service (FreePool (ret fw (calls s @ [AllocatePool n])))
    (service (GetMemoryMap n (ret fw (calls s @ [AllocatePool n]))) (service (AllocatePool n) s))"
  let ?m = "map_size fw (calls s @ [AllocatePool n, GetMemoryMap n (ret fw (calls s @ [AllocatePool n]))])"
  have "\<exists>r. fetch_memory_map fw ?m ?t = Some r"
    if small: "ret fw (calls s @ [AllocatePool n, GetMemoryMap n (ret fw (calls s @ [AllocatePool n]))]) = EFI_BUFFER_TOO_SMALL"
  proof (rule less.hyps)
    have "\<not> N \<le> length (calls s) + 2" using assms small by fastforce
    then show "N - length (calls ?t) < N - length (calls s)" by simp
  qed
  then show ?case by (subst fetch_memory_map.simps) (auto simp: Let_def)
qed

lemma fetch_memory_map_success:
  fixes s :: "'a rd_state_scheme"
  assumes "fetch_memory_map fw n s = Some (Inr (p, m), t)"
  shows "\<exists>v k. calls t = v @ [AllocatePool k, GetMemoryMap k p] \<and> p = ret fw (v @ [AllocatePool k]) \<and> p \<noteq> 0
    \<and> m = map_size fw (calls t) \<and> \<not> EFI_ERROR (ret fw (calls t))"
proof -
  let ?P = "\<lambda>fw (y :: (efi_status + u64 \<times> u64) \<times> 'a rd_state_scheme). case y of (Inl st, t) \<Rightarrow> True
    | (Inr (p, m), t) \<Rightarrow> \<exists>v k. calls t = v @ [AllocatePool k, GetMemoryMap k p]
        \<and> p = ret fw (v @ [AllocatePool k]) \<and> p \<noteq> 0 \<and> m = map_size fw (calls t) \<and> \<not> EFI_ERROR (ret fw (calls t))"
  have "?P fw y" if "fetch_memory_map fw n s = Some y" for y
  proof (rule fetch_memory_map.raw_induct [where P = "\<lambda>fw n s y. ?P fw y", OF _ that], goal_cases)
    case (1 f fw n s y)
    then show ?case by (auto simp: Let_def split: if_splits sum.splits)
  qed
  from this [OF assms] show ?thesis by simp
qed

text \<open>The protocols of the disk object \<open>p\<close> with the device path \<open>d\<close> were installed on a new handle and the controller connected to it,
  both without an error, at the start of \<open>v\<close> behind the history \<open>u\<close>.\<close>

definition installed :: "firmware \<Rightarrow> u64 \<Rightarrow> u64 \<Rightarrow> u64 \<Rightarrow> efi_call list \<Rightarrow> bool" where
  "installed fw p d h cs \<longleftrightarrow> (\<exists>u v. cs = u @ InstallMultipleProtocolInterfaces 0 [BlockIoOf p, BlockIo2Of p, DevicePathOf d] # ConnectController h # v
     \<and> \<not> EFI_ERROR (ret fw (u @ [InstallMultipleProtocolInterfaces 0 [BlockIoOf p, BlockIo2Of p, DevicePathOf d]]))
     \<and> h = out fw (u @ [InstallMultipleProtocolInterfaces 0 [BlockIoOf p, BlockIo2Of p, DevicePathOf d]])
     \<and> \<not> EFI_ERROR (ret fw (u @ [InstallMultipleProtocolInterfaces 0 [BlockIoOf p, BlockIo2Of p, DevicePathOf d], ConnectController h])))"

lemma installed_later: "installed fw p d h cs \<Longrightarrow> installed fw p d h (cs @ w)"
  unfolding installed_def by (metis append.assoc append_Cons)

text \<open>The successful registration, and everything the driver kept of it.\<close>

definition registered ::
    "firmware \<Rightarrow> u64 \<Rightarrow> u64 \<Rightarrow> bytes option \<Rightarrow> u64 option \<Rightarrow> 'a rd_state_scheme \<Rightarrow> 'a rd_state_scheme \<Rightarrow> bool" where
  "registered fw base len guid dp s s' \<longleftrightarrow>
     (\<exists>p pd d. dp = Some d \<and> ramdisks s' = (ramdisks s)(p \<mapsto> pd) \<and> rd_wf pd \<and> StartingAddr pd = base
        \<and> Size pd = len \<and> Some (TypeGuid pd) = guid \<and> DevicePath pd = d \<and> installed fw p d (Handle pd) (calls s'))"

lemma extendsD:
  "extends Q s s' \<Longrightarrow> ramdisks s' = ramdisks s"
  "extends Q s s' \<Longrightarrow> c \<in> set (calls s) \<Longrightarrow> c \<in> set (calls s')"
  by (auto simp: extends_def)

lemma InitBlockIo_simps [simp]:
  "StartingAddr (RamDiskInitBlockIo P) = StartingAddr P" "Size (RamDiskInitBlockIo P) = Size P"
  "TypeGuid (RamDiskInitBlockIo P) = TypeGuid P" "DevicePath (RamDiskInitBlockIo P) = DevicePath P"
  "Handle (RamDiskInitBlockIo P) = Handle P"
  by (simp_all add: RamDiskInitBlockIo_def)

lemma rd_wf_Handle [simp]: "rd_wf (P\<lparr>Handle := h\<rparr>) = rd_wf P"
  by (simp add: rd_wf_def)

lemma Handle_template [simp]: "Handle mRamDiskPrivateDataTemplate = 0"
  by (simp add: mRamDiskPrivateDataTemplate_def)

lemma registeredI:
  assumes "RamDiskPublishNfit fw date pd t = Some (r, s')" and "ramdisks t = (ramdisks s)(p \<mapsto> pd)" and "rd_wf pd"
    and "installed fw p (DevicePath pd) (Handle pd) (calls t)"
  shows "registered fw (StartingAddr pd) (Size pd) (Some (TypeGuid pd)) (Some (DevicePath pd)) s s'"
proof -
  have "extends publishing t s'" by (rule RamDiskPublishNfit_extends [OF assms(1)])
  then have "ramdisks s' = ramdisks t" and "installed fw p (DevicePath pd) (Handle pd) (calls s')"
    using installed_later [OF assms(4)] by (auto simp: extends_def)
  then show ?thesis using assms(2,3) unfolding registered_def by auto
qed

text \<open>What the end of the registration does, given what it starts from.\<close>

lemma register_install_success:
  assumes "register_install fw date p node pd t = Some (st, s')" and "\<not> EFI_ERROR st"
    and "\<And>d. (ramdisks t)(p := d) = (ramdisks s)(p := d)" and "rd_wf pd" and "Handle pd = 0"
  shows "registered fw (StartingAddr pd) (Size pd) (Some (TypeGuid pd)) (Some (DevicePath pd)) s s'"
proof -
  let ?c = "InstallMultipleProtocolInterfaces (Handle pd) [BlockIoOf p, BlockIo2Of p, DevicePathOf (DevicePath pd)]"
  define h where "h = out fw (calls t @ [?c])"
  from assms(1,2) obtain u r where u: "RamDiskPublishNfit fw date (pd\<lparr>Handle := h\<rparr>) u = Some (r, s')"
    "ramdisks u = (ramdisks t)(p \<mapsto> pd\<lparr>Handle := h\<rparr>)" "calls u = calls t @ [?c, ConnectController h, FreePool node]"
    and ok: "\<not> EFI_ERROR (ret fw (calls t @ [?c]))" "\<not> EFI_ERROR (ret fw (calls t @ [?c, ConnectController h]))"
    by (auto simp: register_install_def h_def Let_def split: if_splits option.splits)
  have "installed fw p (DevicePath pd) h (calls u)"
    unfolding installed_def using ok u(3) h_def assms(5) by (intro exI [of _ "calls t"] exI [of _ "[FreePool node]"]) simp
  then show ?thesis
    using registeredI [OF u(1), of s p] u(2) assms(3-) by simp
qed

lemma RamDiskRegister_success:
  assumes reg: "RamDiskRegister fw date base len guid parent null s = Some (st, dp, s')" and ok: "\<not> EFI_ERROR st"
  shows "registered fw base len guid dp s s'"
proof -
  have nonzero: "len \<noteq> 0" "guid \<noteq> None" and mult: "len mod 512 = 0"
    and geo: "\<not> (len \<ge> 0xffffffffffffffff \<or> base > (0xffffffffffffffff - len) + 1)"
    using assms by (auto simp: RamDiskRegister_def RAM_DISK_BLOCK_SIZE_def split: if_splits)
  obtain p node d t where "register_install fw date p node (RamDiskInitBlockIo (mRamDiskPrivateDataTemplate
        \<lparr>TypeGuid := the guid, StartingAddr := base, Size := len, DevicePath := d\<rparr>)) t = Some (st, s')"
    and "dp = Some d" and "\<And>d. (ramdisks t)(p := d) = (ramdisks s)(p := d)"
    using assms by (auto simp: RamDiskRegister_def Let_def split: if_splits)
  moreover have "rd_wf (RamDiskInitBlockIo (mRamDiskPrivateDataTemplate
      \<lparr>TypeGuid := the guid, StartingAddr := base, Size := len, DevicePath := d\<rparr>))"
    using nonzero mult geo geometry_checks [OF nonzero(1) mult, of base] by (intro RamDiskInitBlockIo_wf) simp_all
  ultimately show ?thesis
    using register_install_success [of fw date p node _ t st s' s] ok nonzero by fastforce
qed

lemma length_nfit_bytes: "length (TypeGuid P) = 16 \<Longrightarrow> length (nfit_bytes date P c) = 96"
  by (simp add: nfit_bytes_def)

lemma nfit_bytes_sum: "sum_list (nfit_bytes date P c) = c + sum_list (nfit_bytes date P 0)"
  by (simp add: nfit_bytes_def)

section \<open>Properties\<close>

text \<open>C9: What is written to blocks on a well-formed disk is read back, whatever the two buffers, as long as they
  are not null and do not overlap the disk.\<close>

theorem ramdisk_write_read:
  assumes "rd_wf P" and "on_disk P Lba n" and "rd_clear (P, mem) b n" and "rd_clear (P, mem) b' n"
  shows "\<exists>mem' mem''. RamDiskBlkIoWriteBlocks P (MediaId (Media P)) Lba n b mem = (EFI_SUCCESS, mem')
    \<and> RamDiskBlkIoReadBlocks P (MediaId (Media P)) Lba n b' mem' = (EFI_SUCCESS, mem'')
    \<and> mem_bytes mem'' b' (unat n) = mem_bytes mem b (unat n)"
  using blkio.read_back [of "(P, mem)" Lba n b b'] assms
  by (auto simp: rd_inv_def rd_fits_def rd_buffer_def blkio_read_def blkio_write_def split: prod.splits)

text \<open>A disk of four blocks at \<open>0x10000\<close>.\<close>

definition example_disk :: RAMDISK_PRIVATE_DATA where
  "example_disk = RamDiskInitBlockIo (mRamDiskPrivateDataTemplate\<lparr>StartingAddr := 0x10000, Size := 2048\<rparr>)"

lemma example_disk:
  "rd_wf example_disk" "MediaId (Media example_disk) = 0" "StartingAddr example_disk = 0x10000" "Size example_disk = 2048"
  by (simp_all add: example_disk_def RamDiskInitBlockIo_wf mRamDiskPrivateDataTemplate_def)
     (simp_all add: RamDiskInitBlockIo_def)

lemma example_disk_clear:
  "unat n \<le> 2048 \<Longrightarrow> rd_clear (example_disk, mem) 0x20000 n" "unat n \<le> 2048 \<Longrightarrow> rd_clear (example_disk, mem) 0x30000 n"
proof -
  have far: "\<not> in_range 0x10000 2048 (b + of_nat i)" if "unat b = c" "131072 \<le> c" "c \<le> 262144" "i < 2048" for b :: u64 and c i
  proof -
    have "unat (b + of_nat i) = c + i"
      using that by (simp add: unat_plus_if' unat_of_nat_u64)
    then show ?thesis using that by (simp add: in_range_iff)
  qed
  show "unat n \<le> 2048 \<Longrightarrow> rd_clear (example_disk, mem) 0x20000 n" and "unat n \<le> 2048 \<Longrightarrow> rd_clear (example_disk, mem) 0x30000 n"
    using far [of "0x20000" 131072] far [of "0x30000" 196608] unfolding rd_clear_def by (auto simp: example_disk)
qed

theorem ramdisk_write_read_witness:
  "\<exists>mem' mem''. RamDiskBlkIoWriteBlocks example_disk 0 2 1024 0x20000 (\<lambda>a. ucast a) = (EFI_SUCCESS, mem')
    \<and> RamDiskBlkIoReadBlocks example_disk 0 2 1024 0x30000 mem' = (EFI_SUCCESS, mem'')
    \<and> mem_bytes mem'' 0x30000 1024 = mem_bytes (\<lambda>a. ucast a) 0x20000 1024"
  using ramdisk_write_read [where P = example_disk and Lba = 2 and n = 1024 and mem = "\<lambda>a. ucast a" and b = "0x20000" and b' = "0x30000"]
  by (simp add: example_disk example_disk_clear on_disk_def)

text \<open>A write leaves the blocks it does not cover as they were for every later read.\<close>

theorem ramdisk_write_read_elsewhere:
  assumes "rd_wf P" and "on_disk P Lba n" and "rd_clear (P, mem) b n" and "on_disk P Lba' n'" and "rd_clear (P, mem) b' n'"
    and "512 * unat Lba' + unat n' \<le> 512 * unat Lba \<or> 512 * unat Lba + unat n \<le> 512 * unat Lba'"
  shows "\<exists>mem' mem''. RamDiskBlkIoWriteBlocks P (MediaId (Media P)) Lba n b mem = (EFI_SUCCESS, mem')
    \<and> RamDiskBlkIoReadBlocks P (MediaId (Media P)) Lba' n' b' mem' = (EFI_SUCCESS, mem'')
    \<and> mem_bytes mem'' b' (unat n') = mem_bytes mem (StartingAddr P + of_nat (512 * unat Lba')) (unat n')"
proof -
  have "take (unat n') (drop (512 * unat Lba') (rd_disk (P, mem))) = mem_bytes mem (StartingAddr P + of_nat (512 * unat Lba')) (unat n')"
    unfolding rd_disk_def using assms(4) by (subst mem_bytes_slice) (simp_all add: on_disk_def)
  then show ?thesis
    using blkio.read_elsewhere [of "(P, mem)" Lba n b Lba' n' b'] assms
    by (auto simp: rd_inv_def rd_fits_def rd_buffer_def blkio_read_def blkio_write_def split: prod.splits)
qed

theorem ramdisk_write_read_elsewhere_witness:
  "\<exists>mem' mem''. RamDiskBlkIoWriteBlocks example_disk 0 2 1024 0x20000 (\<lambda>a. ucast a) = (EFI_SUCCESS, mem')
    \<and> RamDiskBlkIoReadBlocks example_disk 0 1 512 0x30000 mem' = (EFI_SUCCESS, mem'')
    \<and> mem_bytes mem'' 0x30000 512 = mem_bytes (\<lambda>a. ucast a) 0x10200 512"
  using ramdisk_write_read_elsewhere [where P = example_disk and Lba = 2 and n = 1024 and mem = "\<lambda>a. ucast a" and b = "0x20000"
      and Lba' = 1 and n' = 512 and b' = "0x30000"]
  by (simp add: example_disk example_disk_clear on_disk_def)

text \<open>C10: Requests are confined. Whatever the arguments, a write changes memory only inside the disk's range and a read
  only inside the caller's buffer, and a request that is refused changes nothing.\<close>

theorem ramdisk_confined:
  assumes "rd_wf P"
  shows "(case RamDiskBlkIoWriteBlocks P mediaId Lba n b mem of (status, mem') \<Rightarrow>
      \<forall>a. mem' a \<noteq> mem a \<longrightarrow> \<not> EFI_ERROR status \<and> in_range (StartingAddr P) (Size P) a)
   \<and> (case RamDiskBlkIoReadBlocks P mediaId Lba n b mem of (status, mem') \<Rightarrow>
      \<forall>a. mem' a \<noteq> mem a \<longrightarrow> \<not> EFI_ERROR status \<and> in_range b n a)"
proof
  have in_disk: "in_range (StartingAddr P) (Size P) a" if "on_disk P Lba n" and a: "in_range (StartingAddr P + Lba * 512) n a" for a
  proof (cases "n = 0")
    case True
    then show ?thesis using a by (simp add: in_range_def)
  next
    case False
    note addr = disk_address [OF assms that(1) False]
    have "unat (StartingAddr P) + unat (Size P) \<le> 2 ^ 64" using assms by (simp add: rd_wf_def)
    moreover from this have "unat (StartingAddr P + Lba * 512) + unat n \<le> 2 ^ 64" using addr by simp
    ultimately show ?thesis using a addr by (simp add: in_range_iff)
  qed
  have fits: "n = 0 \<or> on_disk P Lba n" if "request_status w P mediaId Lba n b = EFI_SUCCESS" for w
    using that by (auto simp: request_status_def split: if_splits)
  show "case RamDiskBlkIoWriteBlocks P mediaId Lba n b mem of (status, mem') \<Rightarrow>
      (\<forall>a. mem' a \<noteq> mem a \<longrightarrow> \<not> EFI_ERROR status \<and> in_range (StartingAddr P) (Size P) a)"
    using fits [of True] in_disk CopyMem_outside [of "StartingAddr P + Lba * 512" n _ b mem]
    by (auto simp: RamDiskBlkIoWriteBlocks_eq [OF assms] Let_def) blast
  show "case RamDiskBlkIoReadBlocks P mediaId Lba n b mem of (status, mem') \<Rightarrow>
      (\<forall>a. mem' a \<noteq> mem a \<longrightarrow> \<not> EFI_ERROR status \<and> in_range b n a)"
    using CopyMem_outside [of b n] by (auto simp: RamDiskBlkIoReadBlocks_eq [OF assms] Let_def)
qed

theorem ramdisk_confined_witness:
  "(case RamDiskBlkIoWriteBlocks example_disk 0 2 1024 0x20000 (\<lambda>a. ucast a) of (status, mem') \<Rightarrow>
      \<forall>a. mem' a \<noteq> ucast a \<longrightarrow> \<not> EFI_ERROR status \<and> in_range 0x10000 2048 a)
   \<and> (case RamDiskBlkIoReadBlocks example_disk 0 2 1024 0x20000 (\<lambda>a. ucast a) of (status, mem') \<Rightarrow>
      \<forall>a. mem' a \<noteq> ucast a \<longrightarrow> \<not> EFI_ERROR status \<and> in_range 0x20000 1024 a)"
  using ramdisk_confined [where P = example_disk and mediaId = 0 and Lba = 2 and n = 1024 and b = "0x20000"
      and mem = "\<lambda>a. ucast a"] by (simp add: example_disk)

text \<open>C11: The second protocol does what the first does, and signals the caller's event, with the token's status set to
  success, exactly when the transfer succeeded and the token has an event.\<close>

theorem ramdisk_blkio2:
  assumes "rd_wf P"
  shows "RamDiskBlkIo2ReadBlocksEx P mediaId Lba Token n b mem =
      (let (status, mem') = RamDiskBlkIoReadBlocks P mediaId Lba n b mem
       in if status = EFI_SUCCESS \<and> (\<exists>t. Token = Some t \<and> Event t \<noteq> 0)
          then (status, mem', Some ((the Token)\<lparr>TransactionStatus := EFI_SUCCESS\<rparr>), [SignalEvent (Event (the Token))])
          else (status, mem', Token, []))
    \<and> RamDiskBlkIo2WriteBlocksEx P mediaId Lba Token n b mem =
      (let (status, mem') = RamDiskBlkIoWriteBlocks P mediaId Lba n b mem
       in if status = EFI_SUCCESS \<and> (\<exists>t. Token = Some t \<and> Event t \<noteq> 0)
          then (status, mem', Some ((the Token)\<lparr>TransactionStatus := EFI_SUCCESS\<rparr>), [SignalEvent (Event (the Token))])
          else (status, mem', Token, []))"
  by (auto simp: RamDiskBlkIo2ReadBlocksEx_def RamDiskBlkIo2WriteBlocksEx_def RamDiskBlkIoReadBlocks_eq [OF assms]
      RamDiskBlkIoWriteBlocks_eq [OF assms] Let_def request_status_def signal_token_def split: option.splits)

theorem ramdisk_blkio2_witness:
  "RamDiskBlkIo2WriteBlocksEx example_disk 0 9 (Some \<lparr>Event = 5, TransactionStatus = 1\<rparr>) 512 0x20000 (\<lambda>a. 0) =
     (EFI_INVALID_PARAMETER, \<lambda>a. 0, Some \<lparr>Event = 5, TransactionStatus = 1\<rparr>, [])"
  using ramdisk_blkio2 [where P = example_disk and mediaId = 0 and Lba = 9 and n = 512 and b = "0x20000" and mem = "\<lambda>a. 0"
      and Token = "Some \<lparr>Event = 5, TransactionStatus = 1\<rparr>"]
  using example_disk(1) by (simp add: example_disk RamDiskBlkIoWriteBlocks_eq request_status_def on_disk_def Let_def rd_wf_def)

text \<open>Every request is answered as the bounds of the disk say, decided over the integers: no product or sum of the
  checks wraps around in a way that lets a request past the end of the disk through.\<close>

theorem ramdisk_write_status:
  assumes "rd_wf P" and "mediaId = MediaId (Media P)" and "b \<noteq> 0"
  shows "fst (RamDiskBlkIoWriteBlocks P mediaId Lba n b mem) =
    (if n = 0 then EFI_SUCCESS
     else if \<not> 512 dvd unat n then EFI_BAD_BUFFER_SIZE
     else if 512 * unat Lba + unat n \<le> unat (Size P) then EFI_SUCCESS
     else EFI_INVALID_PARAMETER)"
  using assms by (auto simp: RamDiskBlkIoWriteBlocks_eq Let_def request_status_def on_disk_def rd_wf_def)

theorem ramdisk_write_status_witness:
  "fst (RamDiskBlkIoWriteBlocks example_disk 0 0x7fffffffffffffff 1024 0x20000 (\<lambda>a. 0)) = EFI_INVALID_PARAMETER"
  using ramdisk_write_status [where P = example_disk and mediaId = 0 and b = "0x20000" and Lba = "0x7fffffffffffffff" and n = 1024
      and mem = "\<lambda>a. 0"] by (simp add: example_disk)

text \<open>C12: A registration that succeeds leaves exactly one new disk in the pool, well formed, over the range and of the type
  asked for, and returns its device path. The block and device path protocols of this object were installed, without an error, on the new
  handle it keeps, and the controller was connected to that handle, without an error.\<close>

theorem RamDiskRegister_installs:
  assumes "RamDiskRegister fw date base len guid parent null s = Some (st, dp, s')" and "\<not> EFI_ERROR st"
  shows "\<exists>p pd d. dp = Some d \<and> ramdisks s' = (ramdisks s)(p \<mapsto> pd) \<and> rd_wf pd \<and> StartingAddr pd = base
    \<and> Size pd = len \<and> Some (TypeGuid pd) = guid \<and> DevicePath pd = d \<and> installed fw p d (Handle pd) (calls s')"
  using RamDiskRegister_success [OF assms] by (simp add: registered_def)

text \<open>A firmware that satisfies every request: pool addresses from \<open>0x100000\<close> on, one descriptor that covers the
  first 4 GiB.\<close>

fun example_ret :: "efi_call \<Rightarrow> u64 \<Rightarrow> u64" where
  "example_ret (AllocatePool n) k = 0x100000 * k"
| "example_ret (GetMemoryMap n p) k = (if p = 0 then EFI_BUFFER_TOO_SMALL else EFI_SUCCESS)"
| "example_ret (AppendDevicePathNode p node) k = 0x100000 * k"
| "example_ret (DevicePathToStr p) k = 0x100000 * k"
| "example_ret c k = EFI_SUCCESS"

definition example_fw :: firmware where
  "example_fw = \<lparr>ret = \<lambda>t. example_ret (last t) (of_nat (length t)), out = \<lambda>t. 77, data = \<lambda>t. [], wide = \<lambda>t. [], handles = \<lambda>_ _. 0,
     map_size = \<lambda>t. 48, desc_size = \<lambda>t. 48, desc_at = \<lambda>t i. \<lparr>PhysicalStart = 0, NumberOfPages = 0x100000\<rparr>,
     private_data_size = 300\<rparr>"

definition example_state :: rd_state where
  "example_state = \<lparr>calls = [], ram = \<lambda>_. 0, gAcpiTableProtocol = 1, ramdisks = \<lambda>_. None\<rparr>"

lemma example_registers:
  "\<exists>s'. RamDiskRegister example_fw 0 0x10000 2048 (Some (replicate 16 7)) 0 False example_state
     = Some (EFI_SUCCESS, Some 0x300000, s')"
  by (simp add: RamDiskRegister_def register_install_def RamDiskPublishNfit_def RamDiskPublishSsdt_def Let_def
      RAM_DISK_BLOCK_SIZE_def example_fw_def example_state_def fetch_memory_map.simps find_memory.simps covers_def
      mRamDiskPrivateDataTemplate_def)

theorem RamDiskRegister_installs_witness:
  "\<exists>st dp s' p pd d. RamDiskRegister example_fw 0 0x10000 2048 (Some (replicate 16 7)) 0 False example_state = Some (st, dp, s')
    \<and> dp = Some d \<and> ramdisks s' = (ramdisks example_state)(p \<mapsto> pd) \<and> rd_wf pd \<and> StartingAddr pd = 0x10000
    \<and> installed example_fw p d (Handle pd) (calls s')"
proof -
  obtain s' where r: "RamDiskRegister example_fw 0 0x10000 2048 (Some (replicate 16 7)) 0 False example_state
     = Some (EFI_SUCCESS, Some 0x300000, s')"
    using example_registers by blast
  show ?thesis using RamDiskRegister_installs [OF r] r by auto
qed

text \<open>The checks on the arguments. An empty disk, a missing type or a missing out pointer is answered with
  \<open>EFI_NOT_FOUND\<close>, a size that is no multiple of the block size with \<open>EFI_BAD_BUFFER_SIZE\<close>, a range
  that would pass the end of the address space with \<open>EFI_INVALID_PARAMETER\<close>, each without any service call.\<close>

theorem RamDiskRegister_rejects:
  assumes "\<not> (len \<noteq> 0 \<and> guid \<noteq> None \<and> \<not> null \<and> 512 dvd unat len \<and> unat base + unat len \<le> 2 ^ 64)"
  shows "RamDiskRegister fw date base len guid parent null s =
    Some (if len = 0 \<or> guid = None \<or> null then EFI_NOT_FOUND
          else if \<not> 512 dvd unat len then EFI_BAD_BUFFER_SIZE else EFI_INVALID_PARAMETER, None, s)"
  using assms geometry_checks [of len base]
  by (auto simp: RamDiskRegister_def RAM_DISK_BLOCK_SIZE_def multiple_iff simp del: not_None_eq)

theorem RamDiskRegister_rejects_witness:
  "RamDiskRegister example_fw 0 0xffffffffffffff00 512 (Some (replicate 16 7)) 0 False example_state
     = Some (EFI_INVALID_PARAMETER, None, example_state)"
  using RamDiskRegister_rejects [of 512 "Some (replicate 16 7)" False "0xffffffffffffff00" example_fw 0 0 example_state]
  by simp

text \<open>C13: If connecting the controller fails after the protocols were installed, the error path frees the device path and the
  private data without uninstalling the protocols: the new handle is left with interfaces in freed memory.\<close>

theorem RamDiskRegister_dangles:
  assumes "register_install fw date p node pd s = r"
    and "t = calls s @ [InstallMultipleProtocolInterfaces (Handle pd) [BlockIoOf p, BlockIo2Of p, DevicePathOf (DevicePath pd)]]"
    and "\<not> EFI_ERROR (ret fw t)" and "EFI_ERROR (ret fw (t @ [ConnectController (out fw t)]))"
    and "node \<noteq> 0" and "DevicePath pd \<noteq> 0"
  shows "\<exists>s'. r = Some (ret fw (t @ [ConnectController (out fw t)]), s') \<and> ramdisks s' p = None
    \<and> calls s' = t @ [ConnectController (out fw t), FreePool node, FreePool (DevicePath pd), FreePool p]"
  using assms by (auto simp: register_install_def ErrorExit_def Let_def)

definition failing_fw :: firmware where
  "failing_fw = example_fw\<lparr>ret := \<lambda>t. case last t of ConnectController h \<Rightarrow> EFI_NOT_FOUND | c \<Rightarrow> example_ret c (of_nat (length t))\<rparr>"

theorem RamDiskRegister_dangles_witness:
  "\<exists>s'. register_install failing_fw 0 0x100000 0x200000 (example_disk\<lparr>DevicePath := 0x300000\<rparr>) example_state = Some (EFI_NOT_FOUND, s')
    \<and> ramdisks s' 0x100000 = None
    \<and> calls s' = [InstallMultipleProtocolInterfaces 0 [BlockIoOf 0x100000, BlockIo2Of 0x100000, DevicePathOf 0x300000],
         ConnectController 77, FreePool 0x200000, FreePool 0x300000, FreePool 0x100000]"
  using RamDiskRegister_dangles [OF refl refl, of failing_fw example_state "example_disk\<lparr>DevicePath := 0x300000\<rparr>" "0x100000" "0x200000" 0]
  by (simp add: failing_fw_def example_fw_def example_state_def example_disk_def)

text \<open>The NFIT that is published has the 96 bytes its length field states and the fields of the disk, but its checksum byte
  is the plain sum of the others, so that its bytes add up to twice that sum: to 0, as ACPI demands, only if
  the sum is 0 or 128. The SSDT is a constant table whose length and checksum are right.\<close>

theorem nfit_checksum:
  assumes "length (TypeGuid P) = 16" and "Nfit \<noteq> 0" and "unat Nfit + 96 \<le> 2 ^ 64"
    and "c = CalculateCheckSum8 Nfit (nfit_bytes date P 0) 96"
  shows "length (nfit_bytes date P c) = 96 \<and> sum_list (nfit_bytes date P c) = 2 * c
    \<and> (sum_list (nfit_bytes date P c) = 0 \<longleftrightarrow> c = 0 \<or> c = 128)
    \<and> length nvdimmRootAml = 0x7c \<and> sum_list nvdimmRootAml = 0"
proof -
  have "c = sum_list (nfit_bytes date P 0)"
    using assms CalculateCheckSum8_sum [of Nfit 96 "nfit_bytes date P 0"] by (simp add: length_nfit_bytes)
  then have sum: "sum_list (nfit_bytes date P c) = 2 * c" using nfit_bytes_sum [of date P c] by simp
  have "unat c < 256" using unsigned_less [of c] by simp
  then have "2 * unat c mod 256 = 0 \<longleftrightarrow> unat c = 0 \<or> unat c = 128" by presburger
  moreover have "2 * c = 0 \<longleftrightarrow> 2 * unat c mod 256 = 0"
    by (simp add: word_unat_eq_iff unat_word_ariths(2))
  ultimately have "2 * c = 0 \<longleftrightarrow> c = 0 \<or> c = 128"
    by (simp add: word_unat_eq_iff)
  then show ?thesis using assms(1) by (simp add: sum length_nfit_bytes) (simp add: nvdimmRootAml_def)
qed

theorem nfit_checksum_witness:
  "sum_list (nfit_bytes 0 example_disk (CalculateCheckSum8 0x600000 (nfit_bytes 0 example_disk 0) 96)) \<noteq> 0"
proof -
  have len: "length (TypeGuid example_disk) = 16" by (simp add: example_disk_def mRamDiskPrivateDataTemplate_def)
  have "CalculateCheckSum8 0x600000 (nfit_bytes 0 example_disk 0) 96 = sum_list (nfit_bytes 0 example_disk 0)"
    using CalculateCheckSum8_sum [of "0x600000" 96 "nfit_bytes 0 example_disk 0"] length_nfit_bytes [OF len] by simp
  also have "\<dots> = 0xdb"
    by (simp add: nfit_bytes_def example_disk example_disk_def mRamDiskPrivateDataTemplate_def le16_def le32_def le64_def
        be32_def be64_def upt_conv_Cons sum_list_replicate)
  finally show ?thesis
    using nfit_checksum [OF len, of "0x600000" "CalculateCheckSum8 0x600000 (nfit_bytes 0 example_disk 0) 96" 0] by simp
qed

text \<open>C14: Publishing terminates if the firmware does not answer for ever that the buffer for the memory map is too small, and
  its descriptors have a positive size.\<close>

theorem RamDiskPublishNfit_returns:
  fixes s :: "'a rd_state_scheme"
  assumes "\<forall>t. N \<le> length t \<longrightarrow> ret fw t \<noteq> EFI_BUFFER_TOO_SMALL" and "\<forall>t. 0 < desc_size fw t"
  shows "\<exists>r. RamDiskPublishNfit fw date P s = Some r"
proof -
  have found: "\<exists>b. find_memory (desc_at fw t) (unat (desc_size fw t)) n P 0 = Some b" for t n
    using assms(2) by (intro find_memory_returns) (simp add: unat_gt_0 word_gt_0)
  have fetched: "\<exists>r. fetch_memory_map fw n t = Some r" for n and t :: "'a rd_state_scheme"
    by (rule fetch_memory_map_returns [OF assms(1)])
  show ?thesis
    using fetched [of "map_size fw (calls s @ [GetMemoryMap 0 0])" "service (GetMemoryMap 0 0) s"] found
    by (auto simp: RamDiskPublishNfit_def Let_def split: option.splits sum.splits prod.splits)
       (metis option.distinct(1))+
qed

theorem RamDiskPublishNfit_returns_witness:
  "\<exists>r. RamDiskPublishNfit (example_fw\<lparr>ret := \<lambda>t. if length t < 9 then EFI_BUFFER_TOO_SMALL else 1\<rparr>) 0 example_disk example_state = Some r"
  by (rule RamDiskPublishNfit_returns [where N = 9]) (simp_all add: example_fw_def, simp add: EFIERR_def)

text \<open>C15: A publication that succeeds has fetched the memory map without an error, and one of the descriptors inside that map, below its size,
  covers the disk. After that it frees the map and installs the SSDT and then, as its last table, the NFIT over exactly this disk, both
  without an error.\<close>

theorem RamDiskPublishNfit_installs:
  assumes "RamDiskPublishNfit fw date P s = Some (st, s')" and "\<not> EFI_ERROR st"
  shows "\<exists>u k n MemoryMap Nfit t.
      t = u @ [GetMemoryMap n MemoryMap] \<and> \<not> EFI_ERROR (ret fw t)
    \<and> k * unat (desc_size fw t) < unat (map_size fw t) \<and> covers (desc_at fw t (k * unat (desc_size fw t))) P
    \<and> calls s' = t @ [FreePool MemoryMap, InstallAcpiTable nvdimmRootAml, AllocatePool 96,
         InstallAcpiTable (nfit_bytes date P (CalculateCheckSum8 Nfit (nfit_bytes date P 0) 96)), FreePool Nfit]
    \<and> \<not> EFI_ERROR (ret fw (t @ [FreePool MemoryMap, InstallAcpiTable nvdimmRootAml]))
    \<and> Nfit = ret fw (t @ [FreePool MemoryMap, InstallAcpiTable nvdimmRootAml, AllocatePool 96]) \<and> Nfit \<noteq> 0
    \<and> \<not> EFI_ERROR (ret fw (t @ [FreePool MemoryMap, InstallAcpiTable nvdimmRootAml, AllocatePool 96,
         InstallAcpiTable (nfit_bytes date P (CalculateCheckSum8 Nfit (nfit_bytes date P 0) 96))]))"
proof -
  let ?s = "service (GetMemoryMap 0 0) s"
  have no_error: False if "fetch_memory_map fw n ?s = Some (Inl st, u)" for n u
    using fetch_memory_map_error [OF that] assms(2) by simp
  obtain p m t where fetch: "fetch_memory_map fw (map_size fw (calls ?s)) ?s = Some (Inr (p, m), t)"
    and found: "find_memory (desc_at fw (calls t)) (unat (desc_size fw (calls t))) (unat m) P 0 = Some True"
    and rest: "let u = calls t @ [FreePool p]; v = u @ [InstallAcpiTable nvdimmRootAml]; Nfit = ret fw (v @ [AllocatePool 96]);
        w = v @ [AllocatePool 96, InstallAcpiTable (nfit_bytes date P (CalculateCheckSum8 Nfit (nfit_bytes date P 0) 96))]
      in \<not> EFI_ERROR (ret fw v) \<and> Nfit \<noteq> 0 \<and> st = ret fw w \<and> calls s' = w @ [FreePool Nfit]"
    using assms
    by (auto simp: RamDiskPublishNfit_def RamDiskPublishSsdt_def Let_def
        split: if_splits option.splits sum.splits prod.splits dest: no_error)
  from fetch_memory_map_success [OF fetch] obtain v n where t: "calls t = (v @ [AllocatePool n]) @ [GetMemoryMap n p]"
    and m: "m = map_size fw (calls t)" "\<not> EFI_ERROR (ret fw (calls t))" by auto
  from find_memory_found [OF found] obtain k where "covers (desc_at fw (calls t) (k * unat (desc_size fw (calls t)))) P"
    "k * unat (desc_size fw (calls t)) < unat m" by auto
  then show ?thesis using rest m assms(2) t
    by (intro exI [of _ "v @ [AllocatePool n]"] exI [of _ k] exI [of _ n] exI [of _ p]
        exI [of _ "ret fw (calls t @ [FreePool p, InstallAcpiTable nvdimmRootAml, AllocatePool 96])"] exI [of _ "calls t"]) (simp add: Let_def)
qed

theorem RamDiskPublishNfit_installs_witness:
  "\<exists>s' t k MemoryMap Nfit. RamDiskPublishNfit example_fw 0 example_disk example_state = Some (EFI_SUCCESS, s')
    \<and> k * unat (desc_size example_fw t) < unat (map_size example_fw t)
    \<and> covers (desc_at example_fw t (k * unat (desc_size example_fw t))) example_disk
    \<and> calls s' = t @ [FreePool MemoryMap, InstallAcpiTable nvdimmRootAml, AllocatePool 96,
         InstallAcpiTable (nfit_bytes 0 example_disk (CalculateCheckSum8 Nfit (nfit_bytes 0 example_disk 0) 96)), FreePool Nfit]"
proof -
  obtain s' where r: "RamDiskPublishNfit example_fw 0 example_disk example_state = Some (EFI_SUCCESS, s')"
    by (simp add: RamDiskPublishNfit_def RamDiskPublishSsdt_def Let_def example_fw_def example_state_def
        fetch_memory_map.simps find_memory.simps covers_def example_disk)
  show ?thesis using RamDiskPublishNfit_installs [OF r] r by auto
qed

end
