(* ===== verification/KString.thy ===== *)
theory KString
  imports Prelude
begin

text \<open>
  \<open>src/src/kernel/core/str.c\<close>: the kernel's \<open>strlen\<close> and \<open>snprintf\<close>. Memory is a map from addresses to
  bytes; addresses are natural numbers, so ranges that wrap around the end of the address space are not
  modelled. String literals are lists of bytes with their terminator. \<open>None\<close> is the outcome of a call that reads
  past a literal or past its arguments, or that never returns.
\<close>

type_synonym kmem = "nat \<Rightarrow> u8"

section \<open>strlen\<close>

partial_function (option) strlen_loop :: "kmem \<Rightarrow> nat \<Rightarrow> nat \<Rightarrow> nat option" where
  "strlen_loop mem str len = (if mem str \<noteq> 0 then strlen_loop mem (str + 1) (len + 1) else Some len)"

definition strlen :: "kmem \<Rightarrow> nat \<Rightarrow> nat option" where
  "strlen mem str = (if str = 0 then Some 0 else strlen_loop mem str 0)"

section \<open>snprintf\<close>

text \<open>
  What \<open>str_to_print\<close> points to. The local arrays live at the addresses of a frame; \<open>d_at0\<close> is what the
  uninitialised \<open>d_at\<close> holds.
\<close>

datatype str_ptr = NullPtr | Lit bytes | At nat

record frame =
  hex_as_str :: nat
  u_as_str :: nat
  d_as_str :: nat
  d_at0 :: u32

definition zero_bytes :: "nat \<Rightarrow> nat \<Rightarrow> kmem \<Rightarrow> kmem" where
  "zero_bytes a n mem = fold (\<lambda>i mem. mem(a + i := 0)) [0..<n] mem"

text \<open>The digit loops fill an array from the back; \<open>ptr\<close> is the address of the last digit written.\<close>

function hex_loop :: "u8 \<Rightarrow> nat \<Rightarrow> u32 \<Rightarrow> nat \<Rightarrow> nat \<Rightarrow> kmem \<Rightarrow> nat \<times> kmem" where
  "hex_loop letter base x i ptr mem =
     (if x > 0 then
        let rem = x mod 16; at = base + (16 - 1 - i);
            digit = (if rem > 9 then letter + ucast (rem - 10) else 0x30 + ucast rem)
        in hex_loop letter base (drop_bit 4 x) (i + 1) at (mem(at := digit))
      else (ptr, mem))"
  by pat_completeness auto
termination
  by (relation "measure (\<lambda>(letter, base, x, i, ptr, mem). unat x)")
     (auto simp: unat_drop_bit_eq drop_bit_eq_div word_less_nat_alt unat_div)

function u_loop :: "nat \<Rightarrow> u32 \<Rightarrow> nat \<Rightarrow> nat \<Rightarrow> kmem \<Rightarrow> nat \<times> kmem" where
  "u_loop base x i ptr mem =
     (if x > 0 then
        let at = base + (10 - 1 - i)
        in u_loop base (x div 10) (i + 1) at (mem(at := 0x30 + ucast (x mod 10)))
      else (ptr, mem))"
  by pat_completeness auto
termination
  by (relation "measure (\<lambda>(base, x, i, ptr, mem). unat x)")
     (auto simp: unat_div word_less_nat_alt)

text \<open>\<open>d_at\<close> is the index of the last digit written; the loop runs only for a positive number.\<close>

function d_loop :: "int \<Rightarrow> nat \<Rightarrow> int \<Rightarrow> nat \<Rightarrow> u32 \<Rightarrow> str_ptr \<Rightarrow> kmem \<Rightarrow> u32 \<times> str_ptr \<times> kmem" where
  "d_loop d base x i d_at ptr mem =
     (if x > 0 then
        let d_at = (if d < 0 then 11 else 10) - 1 - of_nat i; at = base + unat d_at
        in d_loop d base (x div 10) (i + 1) d_at (At at) (mem(at := 0x30 + of_int (x mod 10)))
      else (d_at, ptr, mem))"
  by pat_completeness auto
termination
  by (relation "measure (\<lambda>(d, base, x, i, d_at, ptr, mem). nat x)") auto

declare hex_loop.simps [simp del] u_loop.simps [simp del] d_loop.simps [simp del]

definition print_hex :: "frame \<Rightarrow> bool \<Rightarrow> u32 \<Rightarrow> kmem \<Rightarrow> str_ptr \<times> kmem" where
  "print_hex fr upper hex mem =
     (if hex = 0 then (Lit [0x30], mem)
      else let mem = zero_bytes (hex_as_str fr) 9 mem;
               (ptr, mem) = hex_loop (if upper then 0x41 else 0x61) (hex_as_str fr) hex 0 0 mem
           in (At ptr, mem))"

definition print_u :: "frame \<Rightarrow> u32 \<Rightarrow> kmem \<Rightarrow> str_ptr \<times> kmem" where
  "print_u fr u mem =
     (if u = 0 then (Lit [0x30], mem)
      else let mem = zero_bytes (u_as_str fr) 11 mem; (ptr, mem) = u_loop (u_as_str fr) u 0 0 mem
           in (At ptr, mem))"

definition print_d :: "frame \<Rightarrow> int \<Rightarrow> kmem \<Rightarrow> str_ptr \<times> kmem" where
  "print_d fr d mem =
     (if d = 0 then (Lit [0x30], mem)
      else let mem = zero_bytes (d_as_str fr) 11 mem;
               (d_at, ptr, mem) = d_loop d (d_as_str fr) d 0 (d_at0 fr) NullPtr mem
           in if d < 0 then let at = d_as_str fr + unat (d_at - 1) in (At at, mem(at := 0x2d))
              else (ptr, mem))"

text \<open>The loop after a \<open>0\<close> flag skips up to the next digit.\<close>

function skip_flag :: "bytes \<Rightarrow> nat \<Rightarrow> nat option" where
  "skip_flag fmt cursor =
     (if cursor < length fmt
      then if fmt ! cursor < 0x30 \<or> 0x39 < fmt ! cursor then skip_flag fmt (cursor + 1) else Some cursor
      else None)"
  by pat_completeness auto
termination
  by (relation "measure (\<lambda>(fmt, cursor). length fmt - cursor)") auto

declare skip_flag.simps [simp del]

lemma skip_flag_bound: "skip_flag fmt cursor = Some c \<Longrightarrow> cursor \<le> c \<and> c < length fmt"
  by (induction fmt cursor rule: skip_flag.induct) (subst (asm) (2) skip_flag.simps, auto split: if_splits)

text \<open>
  The switch on the token at \<open>cursor\<close>: \<open>Inl ()\<close> for an unsupported token, else the position of the token's
  last character, the arguments left, the new \<open>cursor_into\<close>, what to print and the memory.
\<close>

function switch_token ::
    "frame \<Rightarrow> nat \<Rightarrow> bytes \<Rightarrow> nat \<Rightarrow> u64 list \<Rightarrow> nat \<Rightarrow> kmem
      \<Rightarrow> (unit + nat \<times> u64 list \<times> nat \<times> str_ptr \<times> kmem) option" where
  "switch_token fr str fmt cursor args into mem =
     (if cursor \<ge> length fmt then None
      else if fmt ! cursor = 0x25 then Some (Inr (cursor, args, into + 1, NullPtr, mem(str + into := 0x25)))
      else if fmt ! cursor = 0x30 then
        (case skip_flag fmt (cursor + 1) of None \<Rightarrow> None
         | Some c \<Rightarrow> switch_token fr str fmt c args into mem)
      else if fmt ! cursor = 0x73 then
        (case args of [] \<Rightarrow> None
         | a # as \<Rightarrow> Some (Inr (cursor, as, into, if a = 0 then NullPtr else At (unat a), mem)))
      else if fmt ! cursor = 0x63 then
        (case args of [] \<Rightarrow> None
         | a # as \<Rightarrow> Some (Inr (cursor, as, into + 1, NullPtr, mem(str + into := ucast a))))
      else if fmt ! cursor = 0x78 \<or> fmt ! cursor = 0x58 then
        (case args of [] \<Rightarrow> None
         | a # as \<Rightarrow> let (ptr, mem) = print_hex fr (fmt ! cursor = 0x58) (ucast a) mem
                    in Some (Inr (cursor, as, into, ptr, mem)))
      else if fmt ! cursor = 0x75 then
        (case args of [] \<Rightarrow> None
         | a # as \<Rightarrow> let (ptr, mem) = print_u fr (ucast a) mem in Some (Inr (cursor, as, into, ptr, mem)))
      else if fmt ! cursor = 0x64 then
        (case args of [] \<Rightarrow> None
         | a # as \<Rightarrow> let (ptr, mem) = print_d fr (sint (ucast a :: u32)) mem in Some (Inr (cursor, as, into, ptr, mem)))
      else Some (Inl ()))"
  by pat_completeness auto
termination
  by (relation "measure (\<lambda>(fr, str, fmt, cursor, args, into, mem). length fmt - cursor)")
     (auto dest!: skip_flag_bound)

declare switch_token.simps [simp del]

text \<open>The copy of \<open>str_to_print\<close>, which measures the string again before every byte.\<close>

fun ptr_len :: "kmem \<Rightarrow> str_ptr \<Rightarrow> nat option" where
  "ptr_len mem NullPtr = Some 0"
| "ptr_len mem (Lit xs) = Some (length xs)"
| "ptr_len mem (At p) = strlen mem p"

fun ptr_byte :: "kmem \<Rightarrow> str_ptr \<Rightarrow> nat \<Rightarrow> u8" where
  "ptr_byte mem NullPtr m = 0"
| "ptr_byte mem (Lit xs) m = xs ! m"
| "ptr_byte mem (At p) m = mem (p + m)"

function copy_str :: "str_ptr \<Rightarrow> nat \<Rightarrow> nat \<Rightarrow> int \<Rightarrow> nat \<Rightarrow> kmem \<Rightarrow> (nat \<times> kmem) option" where
  "copy_str ptr str m limit into mem =
     (case ptr_len mem ptr of None \<Rightarrow> None
      | Some len \<Rightarrow>
          if m < len \<and> int into < limit
          then copy_str ptr str (m + 1) limit (into + 1) (mem(str + into := ptr_byte mem ptr m))
          else Some (into, mem))"
  by pat_completeness auto
termination
  by (relation "measure (\<lambda>(ptr, str, m, limit, into, mem). nat (limit - int into))") auto

declare copy_str.simps [simp del]

partial_function (option) snprintf_loop ::
    "frame \<Rightarrow> nat \<Rightarrow> int \<Rightarrow> bytes \<Rightarrow> nat \<Rightarrow> u64 list \<Rightarrow> nat \<Rightarrow> kmem \<Rightarrow> (int \<times> kmem) option" where
  "snprintf_loop fr str limit fmt cursor args into mem =
     (if cursor \<ge> length fmt then None
      else if fmt ! cursor \<noteq> 0 \<and> int into < limit then
        if fmt ! cursor = 0x25 then
          case switch_token fr str fmt (cursor + 1) args into mem of None \<Rightarrow> None
          | Some (Inl _) \<Rightarrow> Some (- 1, mem)
          | Some (Inr (cursor, args, into, ptr, mem)) \<Rightarrow>
             (case copy_str ptr str 0 limit into mem of None \<Rightarrow> None
              | Some (into, mem) \<Rightarrow> snprintf_loop fr str limit fmt (cursor + 1) args into mem)
        else snprintf_loop fr str limit fmt (cursor + 1) args (into + 1) (mem(str + into := fmt ! cursor))
      else Some (int into, mem))"

definition snprintf :: "frame \<Rightarrow> nat \<Rightarrow> int \<Rightarrow> bytes \<Rightarrow> u64 list \<Rightarrow> kmem \<Rightarrow> (int \<times> kmem) option" where
  "snprintf fr str limit fmt args mem = snprintf_loop fr str limit fmt 0 args 0 mem"

section \<open>Strings in memory\<close>

definition cstring :: "kmem \<Rightarrow> nat \<Rightarrow> bytes \<Rightarrow> bool" where
  "cstring mem a xs \<longleftrightarrow> (\<forall>i<length xs. mem (a + i) = xs ! i) \<and> 0 \<notin> set xs \<and> mem (a + length xs) = 0"

definition write_bytes :: "nat \<Rightarrow> bytes \<Rightarrow> kmem \<Rightarrow> kmem" where
  "write_bytes a xs mem = (\<lambda>p. if a \<le> p \<and> p < a + length xs then xs ! (p - a) else mem p)"

lemma write_bytes_nil [simp]: "write_bytes a [] mem = mem"
  by (auto simp: write_bytes_def fun_eq_iff)

lemma write_bytes_snoc: "write_bytes a xs (mem(a + length xs := v)) = write_bytes a (xs @ [v]) mem"
  by (auto simp: write_bytes_def nth_append fun_eq_iff)

lemma write_bytes_upd: "(write_bytes a xs mem)(a + length xs := v) = write_bytes a (xs @ [v]) mem"
  by (auto simp: write_bytes_def nth_append fun_eq_iff)

lemma strlen_loop_cstring:
  "cstring mem (a + n) xs \<Longrightarrow> strlen_loop mem (a + n) n = Some (n + length xs)"
proof (induction xs arbitrary: n)
  case Nil
  then show ?case by (subst strlen_loop.simps) (simp add: cstring_def)
next
  case (Cons x xs)
  have "cstring mem (a + Suc n) xs" and "mem (a + n) \<noteq> 0"
    using Cons.prems by (auto simp: cstring_def nth_Cons split: nat.splits)
  then show ?case using Cons.IH [of "Suc n"] by (subst strlen_loop.simps) simp
qed

lemma strlen_cstring: "a \<noteq> 0 \<Longrightarrow> cstring mem a xs \<Longrightarrow> strlen mem a = Some (length xs)"
  using strlen_loop_cstring [of mem a 0 xs] by (simp add: strlen_def)

section \<open>Digits\<close>

text \<open>The digits of a number, most significant first, and their characters.\<close>

fun digits :: "nat \<Rightarrow> nat \<Rightarrow> nat list" where
  "digits b n = (if n = 0 \<or> b < 2 then [] else digits b (n div b) @ [n mod b])"

declare digits.simps [simp del]

lemma digits_0 [simp]: "digits b 0 = []"
  by (simp add: digits.simps)

lemma digits_less: "n < b ^ k \<Longrightarrow> length (digits b n) \<le> k"
proof (induction b n arbitrary: k rule: digits.induct)
  case (1 b n)
  show ?case
  proof (cases "n = 0 \<or> b < 2")
    case True
    then show ?thesis by (simp add: digits.simps)
  next
    case False
    then obtain j where j: "k = Suc j" using 1(2) by (cases k) auto
    then have "n div b < b ^ j" using 1(2) False by (simp add: less_mult_imp_div_less mult.commute)
    then show ?thesis using 1(1) [OF False] False j by (subst digits.simps) simp
  qed
qed

lemma digits_nonempty: "0 < n \<Longrightarrow> 2 \<le> b \<Longrightarrow> digits b n \<noteq> []"
  by (subst digits.simps) simp

definition digit_char :: "u8 \<Rightarrow> nat \<Rightarrow> u8" where
  "digit_char letter k = (if k > 9 then letter + of_nat (k - 10) else 0x30 + of_nat k)"

definition hex_digits :: "bool \<Rightarrow> u32 \<Rightarrow> bytes" where
  "hex_digits upper x = map (digit_char (if upper then 0x41 else 0x61)) (digits 16 (unat x))"

definition dec_digits :: "nat \<Rightarrow> bytes" where
  "dec_digits n = map (digit_char 0) (digits 10 n)"

lemma ucast_unat: "ucast (w :: u32) = (of_nat (unat w) :: u8)"
  by simp

lemma hex_digit_char:
  fixes x :: u32
  shows "(if x mod 16 > 9 then letter + ucast (x mod 16 - 10) else 0x30 + ucast (x mod 16)) = digit_char letter (unat x mod 16)"
proof -
  have m: "unat (x mod 16) = unat x mod 16" by (simp add: unat_mod)
  have gt: "x mod 16 > 9 \<longleftrightarrow> unat x mod 16 > 9" using m by (simp add: word_less_nat_alt)
  have "unat (x mod 16 - 10) = unat x mod 16 - 10" if "unat x mod 16 > 9"
    using that m unat_sub [of 10 "x mod 16"] by (simp add: word_le_nat_alt)
  then show ?thesis using m gt by (auto simp: digit_char_def ucast_unat simp del: of_nat_unat)
qed

lemma hex_loop_digits:
  assumes "i + length (digits 16 (unat x)) \<le> 16" and "0 < x"
  shows "hex_loop letter base x i ptr mem =
    (base + 16 - i - length (digits 16 (unat x)),
     write_bytes (base + 16 - i - length (digits 16 (unat x))) (map (digit_char letter) (digits 16 (unat x))) mem)"
  using assms
proof (induction letter base x i ptr mem rule: hex_loop.induct)
  case (1 letter base x i ptr mem)
  let ?n = "unat x"
  have x: "0 < ?n" using 1(3) by (simp add: word_less_nat_alt)
  have step: "digits 16 ?n = digits 16 (?n div 16) @ [?n mod 16]" using x by (subst digits.simps) simp
  have y: "unat (drop_bit 4 x) = ?n div 16" by (simp add: drop_bit_eq_div unat_div)
  have digit: "(if x mod 16 > 9 then letter + ucast (x mod 16 - 10) else 0x30 + ucast (x mod 16)) = digit_char letter (?n mod 16)"
    using hex_digit_char [of x letter] .
  show ?case
  proof (cases "0 < drop_bit 4 x")
    case False
    then have "?n div 16 = 0" using y by (simp add: word_less_nat_alt)
    then have "digits 16 ?n = [?n mod 16]" using step by simp
    moreover have "\<not> 0 < drop_bit 4 x" by (rule False)
    ultimately show ?thesis
      using 1(2,3) write_bytes_snoc [of "base + 15 - i" "[]" mem]
      by (subst hex_loop.simps, subst hex_loop.simps) (simp add: Let_def digit add.commute)
  next
    case True
    let ?ds = "digits 16 (?n div 16)"
    have len: "Suc i + length ?ds \<le> 16" using 1(2) step by simp
    have at: "base + 16 - Suc i - length ?ds + length ?ds = base + (16 - 1 - i)" using len by simp
    show ?thesis
      using 1(1) [OF 1(3) refl refl refl] True len y 1(3) step
        write_bytes_snoc [of "base + 16 - Suc i - length ?ds" "map (digit_char letter) ?ds" mem "digit_char letter (?n mod 16)"] at
      by (subst hex_loop.simps) (simp only: Let_def digit, simp add: fun_upd_def add.commute [of base])
  qed
qed

lemma u_loop_digits:
  assumes "i + length (digits 10 (unat x)) \<le> 10" and "0 < x"
  shows "u_loop base x i ptr mem =
    (base + 10 - i - length (digits 10 (unat x)),
     write_bytes (base + 10 - i - length (digits 10 (unat x))) (dec_digits (unat x)) mem)"
  using assms
proof (induction base x i ptr mem rule: u_loop.induct)
  case (1 base x i ptr mem)
  let ?n = "unat x"
  have x: "0 < ?n" using 1(3) by (simp add: word_less_nat_alt)
  have step: "digits 10 ?n = digits 10 (?n div 10) @ [?n mod 10]" using x by (subst digits.simps) simp
  have y: "unat (x div 10) = ?n div 10" by (simp add: unat_div)
  have digit: "0x30 + ucast (x mod 10) = digit_char 0 (?n mod 10)"
    by (simp add: digit_char_def ucast_unat unat_mod del: of_nat_unat)
  show ?case
  proof (cases "0 < x div 10")
    case False
    then have "?n div 10 = 0" using y by (simp add: word_less_nat_alt)
    then have "digits 10 ?n = [?n mod 10]" using step by simp
    moreover have "\<not> 0 < x div 10" by (rule False)
    ultimately show ?thesis
      using 1(2,3) write_bytes_snoc [of "base + 9 - i" "[]" mem]
      by (subst u_loop.simps, subst u_loop.simps) (simp add: Let_def digit dec_digits_def add.commute)
  next
    case True
    let ?ds = "digits 10 (?n div 10)"
    have len: "Suc i + length ?ds \<le> 10" using 1(2) step by simp
    have at: "base + 10 - Suc i - length ?ds + length ?ds = base + (10 - 1 - i)" using len by simp
    show ?thesis
      using 1(1) [OF 1(3) refl] True len y 1(3) step digit
        write_bytes_snoc [of "base + 10 - Suc i - length ?ds" "dec_digits (?n div 10)" mem "digit_char 0 (?n mod 10)"] at
      by (subst u_loop.simps) (simp add: Let_def dec_digits_def fun_upd_def)
  qed
qed

lemma d_index: "i \<le> 9 \<Longrightarrow> unat (10 - 1 - of_nat i :: u32) = 9 - i"
proof -
  assume i: "i \<le> 9"
  then have "unat (of_nat i :: u32) = i" by (simp add: unat_of_nat)
  then show ?thesis using i unat_sub [of "of_nat i :: u32" 9] by (simp add: word_le_nat_alt)
qed

lemma d_loop_digits:
  assumes "i + length (digits 10 (nat x)) \<le> 10" and "0 < x" and "0 < d"
  shows "\<exists>d_at'. d_loop d base x i d_at ptr mem =
    (d_at', At (base + 10 - i - length (digits 10 (nat x))),
     write_bytes (base + 10 - i - length (digits 10 (nat x))) (dec_digits (nat x)) mem)"
  using assms
proof (induction d base x i d_at ptr mem rule: d_loop.induct)
  case (1 d base x i d_at ptr mem)
  have x: "0 < nat x" using 1(3) by simp
  have step: "digits 10 (nat x) = digits 10 (nat x div 10) @ [nat x mod 10]" using x by (subst digits.simps) simp
  have y: "nat (x div 10) = nat x div 10" using 1(3) by (simp add: nat_div_distrib)
  have i: "i \<le> 9" using 1(2) step by simp
  have "x mod 10 = int (nat x mod 10)" using 1(3) by (simp add: zmod_int)
  then have digit: "0x30 + of_int (x mod 10) = digit_char 0 (nat x mod 10)"
    by (simp add: digit_char_def del: of_nat_nat)
  show ?case
  proof (cases "0 < x div 10")
    case False
    then have "nat x div 10 = 0" using y 1(3) by simp
    then have "digits 10 (nat x) = [nat x mod 10]" using step by simp
    moreover have "\<not> 0 < x div 10" by (rule False)
    ultimately show ?thesis
      using 1(3,4) i d_index [OF i] digit write_bytes_snoc [of "base + 9 - i" "[]" mem]
      by (subst d_loop.simps, subst d_loop.simps) (simp add: Let_def dec_digits_def add.commute)
  next
    case True
    let ?ds = "digits 10 (nat x div 10)"
    have len: "Suc i + length ?ds \<le> 10" using 1(2) step by simp
    have at: "base + 10 - Suc i - length ?ds + length ?ds = base + (10 - 1 - i)" using len by simp
    show ?thesis
      using 1(1) [OF 1(3) refl refl] True len y 1(3,4) step digit d_index [OF i]
        write_bytes_snoc [of "base + 10 - Suc i - length ?ds" "dec_digits (nat x div 10)" mem "digit_char 0 (nat x mod 10)"] at
      by (subst d_loop.simps) (simp add: Let_def dec_digits_def fun_upd_def)
  qed
qed

section \<open>What the conversions print\<close>

text \<open>The string a pointer stands for.\<close>

fun ptr_text :: "kmem \<Rightarrow> str_ptr \<Rightarrow> bytes \<Rightarrow> bool" where
  "ptr_text mem NullPtr ys \<longleftrightarrow> ys = []"
| "ptr_text mem (Lit xs) ys \<longleftrightarrow> ys = xs"
| "ptr_text mem (At p) ys \<longleftrightarrow> p \<noteq> 0 \<and> cstring mem p ys"

fun ptr_clear :: "str_ptr \<Rightarrow> bytes \<Rightarrow> nat \<Rightarrow> int \<Rightarrow> bool" where
  "ptr_clear (At p) ys str limit \<longleftrightarrow> p + length ys < str \<or> str + nat limit \<le> p"
| "ptr_clear q ys str limit \<longleftrightarrow> True"

lemma ptr_len_text: "ptr_text mem ptr ys \<Longrightarrow> ptr_len mem ptr = Some (length ys)"
  by (cases ptr) (auto simp: strlen_cstring)

lemma ptr_byte_text: "ptr_text mem ptr ys \<Longrightarrow> m < length ys \<Longrightarrow> ptr_byte mem ptr m = ys ! m"
  by (cases ptr) (auto simp: cstring_def)

lemma ptr_text_upd:
  "ptr_text mem ptr ys \<Longrightarrow> ptr_clear ptr ys str limit \<Longrightarrow> int into < limit \<Longrightarrow> ptr_text (mem(str + into := v)) ptr ys"
  by (cases ptr) (auto simp: cstring_def)

lemma copy_str_text:
  assumes "ptr_text mem ptr ys" and "ptr_clear ptr ys str limit" and "m \<le> length ys" and "int into \<le> limit"
  shows "copy_str ptr str m limit into mem =
    (let out = take (nat limit - into) (drop m ys) in Some (into + length out, write_bytes (str + into) out mem))"
  using assms
proof (induction ptr str m limit into mem rule: copy_str.induct)
  case (1 ptr str m limit into mem)
  note len = ptr_len_text [OF 1(2)]
  show ?case
  proof (cases "m < length ys \<and> int into < limit")
    case True
    then obtain k where k: "nat limit - into = Suc k" by (metis Suc_diff_Suc nat_int zless_nat_conj zle_diff1_eq diff_Suc_1 less_nat_zero_code not0_implies_Suc of_nat_less_iff zero_less_diff zless_nat_eq_int_zless)
    have k': "nat limit - Suc into = k" using k by simp
    have byte: "ptr_byte mem ptr m = ys ! m" using ptr_byte_text [OF 1(2)] True by simp
    have "copy_str ptr str (m + 1) limit (into + 1) (mem(str + into := ys ! m)) =
       (let out = take k (drop (m + 1) ys) in Some (into + 1 + length out, write_bytes (str + (into + 1)) out (mem(str + into := ys ! m))))"
      using 1(1) [OF len True] 1(2-5) True ptr_text_upd [OF 1(2,3), of into "ys ! m"] by (simp add: byte k' fun_upd_def)
    moreover have "write_bytes (str + into) (y # out) mem = write_bytes (Suc (str + into)) out (mem(str + into := y))" for y out
      by (auto simp: write_bytes_def fun_eq_iff nth_Cons split: nat.splits) (metis Suc_diff_Suc le_neq_implies_less diff_Suc_1 not_less_eq_eq)+
    ultimately show ?thesis
      using True by (subst copy_str.simps) (simp add: len byte k Let_def flip: Cons_nth_drop_Suc)
  next
    case False
    then show ?thesis using 1(4,5) by (subst copy_str.simps) (auto simp: len Let_def)
  qed
qed

text \<open>The tokens of a format string, its encoding, and the text it stands for; \<open>S\<close> gives the strings in memory.\<close>

datatype token = Text u8 | Percent | TStr | TChr | THex bool | TUInt | TSInt

fun encode :: "token \<Rightarrow> bytes" where
  "encode (Text c) = [c]"
| "encode Percent = [0x25, 0x25]"
| "encode TStr = [0x25, 0x73]"
| "encode TChr = [0x25, 0x63]"
| "encode (THex upper) = [0x25, if upper then 0x58 else 0x78]"
| "encode TUInt = [0x25, 0x75]"
| "encode TSInt = [0x25, 0x64]"

definition number :: "bytes \<Rightarrow> bytes" where
  "number ds = (if ds = [] then [0x30] else ds)"

fun render :: "(nat \<Rightarrow> bytes) \<Rightarrow> token list \<Rightarrow> u64 list \<Rightarrow> bytes" where
  "render S (Text c # ts) as = c # render S ts as"
| "render S (Percent # ts) as = 0x25 # render S ts as"
| "render S (TStr # ts) (a # as) = (if a = 0 then [] else S (unat a)) @ render S ts as"
| "render S (TChr # ts) (a # as) = ucast a # render S ts as"
| "render S (THex upper # ts) (a # as) = number (hex_digits upper (ucast a)) @ render S ts as"
| "render S (TUInt # ts) (a # as) = number (dec_digits (unat (ucast a :: u32))) @ render S ts as"
| "render S (TSInt # ts) (a # as) = number (dec_digits (nat (sint (ucast a :: u32)))) @ render S ts as"
| "render S _ _ = []"

text \<open>Formats the code prints right: plain characters, enough arguments, no negative number for \<open>%d\<close>.\<close>

fun supported :: "token list \<Rightarrow> u64 list \<Rightarrow> bool" where
  "supported [] as \<longleftrightarrow> True"
| "supported (Text c # ts) as \<longleftrightarrow> c \<noteq> 0 \<and> c \<noteq> 0x25 \<and> supported ts as"
| "supported (Percent # ts) as \<longleftrightarrow> supported ts as"
| "supported (TSInt # ts) (a # as) \<longleftrightarrow> 0 \<le> sint (ucast a :: u32) \<and> supported ts as"
| "supported (t # ts) (a # as) \<longleftrightarrow> supported ts as"
| "supported (t # ts) [] \<longleftrightarrow> False"

fun string_args :: "token list \<Rightarrow> u64 list \<Rightarrow> nat set" where
  "string_args (Text c # ts) as = string_args ts as"
| "string_args (Percent # ts) as = string_args ts as"
| "string_args (TStr # ts) (a # as) = (if a = 0 then {} else {unat a}) \<union> string_args ts as"
| "string_args (t # ts) (a # as) = string_args ts as"
| "string_args _ _ = {}"

definition in_locals :: "frame \<Rightarrow> nat \<Rightarrow> bool" where
  "in_locals fr p \<longleftrightarrow> hex_as_str fr \<le> p \<and> p < hex_as_str fr + 16 \<or> u_as_str fr \<le> p \<and> p < u_as_str fr + 11
     \<or> d_as_str fr \<le> p \<and> p < d_as_str fr + 11"

text \<open>
  The stack frame is apart from the destination and the strings, its address is not null, and the byte behind the
  hexadecimal digits, which the code never writes, happens to be 0.
\<close>

definition frame_ok :: "frame \<Rightarrow> nat \<Rightarrow> int \<Rightarrow> bool" where
  "frame_ok fr str limit \<longleftrightarrow> hex_as_str fr \<noteq> 0 \<and> u_as_str fr \<noteq> 0 \<and> d_as_str fr \<noteq> 0
     \<and> \<not> in_locals fr (hex_as_str fr + 16)
     \<and> (hex_as_str fr + 16 < str \<or> str + nat limit \<le> hex_as_str fr)
     \<and> (u_as_str fr + 11 < str \<or> str + nat limit \<le> u_as_str fr)
     \<and> (d_as_str fr + 11 < str \<or> str + nat limit \<le> d_as_str fr)"

definition memory_ok :: "frame \<Rightarrow> nat \<Rightarrow> int \<Rightarrow> (nat \<Rightarrow> bytes) \<Rightarrow> nat set \<Rightarrow> kmem \<Rightarrow> bool" where
  "memory_ok fr str limit S A mem \<longleftrightarrow> mem (hex_as_str fr + 16) = 0
     \<and> (\<forall>a\<in>A. cstring mem a (S a) \<and> (a + length (S a) < str \<or> str + nat limit \<le> a)
          \<and> (\<forall>i\<le>length (S a). \<not> in_locals fr (a + i)))"

definition agree :: "frame \<Rightarrow> kmem \<Rightarrow> kmem \<Rightarrow> bool" where
  "agree fr mem mem' \<longleftrightarrow> (\<forall>p. \<not> in_locals fr p \<longrightarrow> mem' p = mem p)"

lemma memory_ok_locals:
  assumes "memory_ok fr str limit S A mem" and "frame_ok fr str limit" and "agree fr mem mem'"
  shows "memory_ok fr str limit S A mem'"
  using assms by (auto simp: memory_ok_def frame_ok_def agree_def cstring_def)

lemma memory_ok_dest:
  assumes "memory_ok fr str limit S A mem" and "frame_ok fr str limit" and "into + length xs \<le> nat limit"
  shows "memory_ok fr str limit S A (write_bytes (str + into) xs mem)"
  using assms by (auto simp: memory_ok_def frame_ok_def cstring_def write_bytes_def)

lemma zero_bytes_eq: "zero_bytes a n mem = write_bytes a (replicate n 0) mem"
proof (induction n)
  case 0
  then show ?case by (simp add: zero_bytes_def)
next
  case (Suc n)
  then show ?case
    using write_bytes_upd [of a "replicate n 0" mem 0] by (simp add: zero_bytes_def replicate_append_same)
qed

lemma digit_char_nonzero: "k < 10 \<Longrightarrow> digit_char 0 k \<noteq> 0"
proof -
  assume k: "k < 10"
  then have "unat (0x30 + of_nat k :: u8) = 0x30 + k" by (simp add: unat_word_ariths(1) unat_of_nat)
  then show ?thesis using k by (auto simp: digit_char_def)
qed

lemma digits_range: "2 \<le> b \<Longrightarrow> k \<in> set (digits b n) \<Longrightarrow> k < b"
proof (induction b n rule: digits.induct)
  case (1 b n)
  then show ?case by (subst (asm) (2) digits.simps) (auto split: if_splits)
qed

lemma dec_digits_nonzero: "0 \<notin> set (dec_digits n)"
  using digits_range [of 10 _ n] digit_char_nonzero by (fastforce simp: dec_digits_def)

lemma hex_digits_nonzero: "0 \<notin> set (hex_digits upper x)"
proof -
  have "digit_char (if upper then 0x41 else 0x61) k \<noteq> 0" if "k < 16" for k
  proof -
    have "k \<in> set [0..<16]" using that by simp
    then show ?thesis by (cases upper) (auto simp: upt_conv_Cons digit_char_def)
  qed
  then show ?thesis using digits_range [of 16 _ "unat x"] by (fastforce simp: hex_digits_def)
qed

text \<open>An array filled from the back with a terminator behind it is a string.\<close>

lemma cstring_filled:
  assumes "length ds \<le> n" and "0 \<notin> set ds" and "mem (base + n) = 0"
  shows "cstring (write_bytes (base + n - length ds) ds mem) (base + n - length ds) ds"
  using assms by (auto simp: cstring_def write_bytes_def)

lemma print_hex_text:
  assumes "frame_ok fr str limit" and "mem (hex_as_str fr + 16) = 0"
  shows "\<exists>ptr mem'. print_hex fr upper x mem = (ptr, mem') \<and> ptr_text mem' ptr (number (hex_digits upper x))
    \<and> ptr_clear ptr (number (hex_digits upper x)) str limit \<and> agree fr mem mem'"
proof (cases "x = 0")
  case True
  then show ?thesis by (simp add: print_hex_def hex_digits_def number_def agree_def)
next
  case False
  let ?ds = "hex_digits upper x" and ?b = "hex_as_str fr" and ?m = "zero_bytes (hex_as_str fr) 9 mem"
  have x: "0 < x" "0 < unat x" using False by (simp_all add: word_gt_0 unat_gt_0)
  have len: "length ?ds \<le> 8"
    using digits_less [of "unat x" 16 8] unat_u32 [of x] by (simp add: hex_digits_def)
  have ne: "?ds \<noteq> []" using digits_nonempty [of "unat x" 16] x by (simp add: hex_digits_def)
  have "print_hex fr upper x mem = (At (?b + 16 - length ?ds), write_bytes (?b + 16 - length ?ds) ?ds ?m)"
    using hex_loop_digits [of 0 x _ ?b 0 ?m] len x False by (simp add: print_hex_def hex_digits_def)
  moreover have "cstring (write_bytes (?b + 16 - length ?ds) ?ds ?m) (?b + 16 - length ?ds) ?ds"
    using len hex_digits_nonzero assms(2) by (intro cstring_filled) (simp_all add: zero_bytes_eq write_bytes_def)
  moreover have "agree fr mem (write_bytes (?b + 16 - length ?ds) ?ds ?m)"
    using len by (auto simp: agree_def in_locals_def zero_bytes_eq write_bytes_def)
  ultimately show ?thesis
    using ne len assms(1) by (auto simp: number_def frame_ok_def)
qed

lemma print_u_text:
  assumes "frame_ok fr str limit"
  shows "\<exists>ptr mem'. print_u fr x mem = (ptr, mem') \<and> ptr_text mem' ptr (number (dec_digits (unat x)))
    \<and> ptr_clear ptr (number (dec_digits (unat x))) str limit \<and> agree fr mem mem'"
proof (cases "x = 0")
  case True
  then show ?thesis by (simp add: print_u_def dec_digits_def number_def agree_def)
next
  case False
  let ?ds = "dec_digits (unat x)" and ?b = "u_as_str fr" and ?m = "zero_bytes (u_as_str fr) 11 mem"
  have x: "0 < x" "0 < unat x" using False by (simp_all add: word_gt_0 unat_gt_0)
  have len: "length ?ds \<le> 10"
    using digits_less [of "unat x" 10 10] unat_u32 [of x] by (simp add: dec_digits_def)
  have ne: "?ds \<noteq> []" using digits_nonempty [of "unat x" 10] x by (simp add: dec_digits_def)
  have "print_u fr x mem = (At (?b + 10 - length ?ds), write_bytes (?b + 10 - length ?ds) ?ds ?m)"
    using u_loop_digits [of 0 x ?b 0 ?m] len x False by (simp add: print_u_def dec_digits_def)
  moreover have "cstring (write_bytes (?b + 10 - length ?ds) ?ds ?m) (?b + 10 - length ?ds) ?ds"
    using len dec_digits_nonzero by (intro cstring_filled) (simp_all add: zero_bytes_eq write_bytes_def)
  moreover have "agree fr mem (write_bytes (?b + 10 - length ?ds) ?ds ?m)"
    using len by (auto simp: agree_def in_locals_def zero_bytes_eq write_bytes_def)
  ultimately show ?thesis
    using ne len assms(1) by (auto simp: number_def frame_ok_def)
qed

lemma print_d_text:
  assumes "frame_ok fr str limit" and "0 \<le> d" and "d < 2 ^ 31"
  shows "\<exists>ptr mem'. print_d fr d mem = (ptr, mem') \<and> ptr_text mem' ptr (number (dec_digits (nat d)))
    \<and> ptr_clear ptr (number (dec_digits (nat d))) str limit \<and> agree fr mem mem'"
proof (cases "d = 0")
  case True
  then show ?thesis by (simp add: print_d_def dec_digits_def number_def agree_def)
next
  case False
  let ?ds = "dec_digits (nat d)" and ?b = "d_as_str fr" and ?m = "zero_bytes (d_as_str fr) 11 mem"
  have d: "0 < d" "0 < nat d" "\<not> d < 0" using False assms by simp_all
  have len: "length ?ds \<le> 10"
    using digits_less [of "nat d" 10 10] assms(3) by (simp add: dec_digits_def)
  have ne: "?ds \<noteq> []" using digits_nonempty [of "nat d" 10] d by (simp add: dec_digits_def)
  obtain d_at where "d_loop d ?b d 0 (d_at0 fr) NullPtr ?m =
      (d_at, At (?b + 10 - length ?ds), write_bytes (?b + 10 - length ?ds) ?ds ?m)"
    using d_loop_digits [of 0 d d ?b "d_at0 fr" NullPtr ?m] len d by (auto simp: dec_digits_def)
  then have "print_d fr d mem = (At (?b + 10 - length ?ds), write_bytes (?b + 10 - length ?ds) ?ds ?m)"
    using d False by (simp add: print_d_def)
  moreover have "cstring (write_bytes (?b + 10 - length ?ds) ?ds ?m) (?b + 10 - length ?ds) ?ds"
    using len dec_digits_nonzero by (intro cstring_filled) (simp_all add: zero_bytes_eq write_bytes_def)
  moreover have "agree fr mem (write_bytes (?b + 10 - length ?ds) ?ds ?m)"
    using len by (auto simp: agree_def in_locals_def zero_bytes_eq write_bytes_def)
  ultimately show ?thesis
    using ne len assms(1) by (auto simp: number_def frame_ok_def)
qed

section \<open>The whole format\<close>

definition frame_outcome :: "frame \<Rightarrow> nat \<Rightarrow> nat \<Rightarrow> bytes \<Rightarrow> kmem \<Rightarrow> (int \<times> kmem) option \<Rightarrow> bool" where
  "frame_outcome fr str into out mem r \<longleftrightarrow>
     (\<exists>mem'. r = Some (int (into + length out), mem') \<and> agree fr (write_bytes (str + into) out mem) mem')"

text \<open>One token: what the switch leaves to print.\<close>

lemma switch_token_simps:
  assumes "cursor < length fmt"
  shows "fmt ! cursor = 0x25 \<Longrightarrow> switch_token fr str fmt cursor args into mem =
      Some (Inr (cursor, args, into + 1, NullPtr, mem(str + into := 0x25)))"
    and "fmt ! cursor = 0x73 \<Longrightarrow> switch_token fr str fmt cursor (a # as) into mem =
      Some (Inr (cursor, as, into, if a = 0 then NullPtr else At (unat a), mem))"
    and "fmt ! cursor = 0x63 \<Longrightarrow> switch_token fr str fmt cursor (a # as) into mem =
      Some (Inr (cursor, as, into + 1, NullPtr, mem(str + into := ucast a)))"
    and "fmt ! cursor = (if upper then 0x58 else 0x78) \<Longrightarrow> print_hex fr upper (ucast a) mem = (ptr, mem') \<Longrightarrow>
      switch_token fr str fmt cursor (a # as) into mem = Some (Inr (cursor, as, into, ptr, mem'))"
    and "fmt ! cursor = 0x75 \<Longrightarrow> print_u fr (ucast a) mem = (ptr, mem') \<Longrightarrow>
      switch_token fr str fmt cursor (a # as) into mem = Some (Inr (cursor, as, into, ptr, mem'))"
    and "fmt ! cursor = 0x64 \<Longrightarrow> print_d fr (sint (ucast a :: u32)) mem = (ptr, mem') \<Longrightarrow>
      switch_token fr str fmt cursor (a # as) into mem = Some (Inr (cursor, as, into, ptr, mem'))"
  using assms by (subst switch_token.simps, auto simp: Let_def split: if_splits)+

lemma write_bytes_append: "write_bytes (a + length xs) ys (write_bytes a xs mem) = write_bytes a (xs @ ys) mem"
  by (auto simp: write_bytes_def fun_eq_iff nth_append)

lemma agree_write: "agree fr mem mem' \<Longrightarrow> agree fr (write_bytes a xs mem) (write_bytes a xs mem')"
  by (auto simp: agree_def write_bytes_def)

lemma agree_trans: "agree fr a b \<Longrightarrow> agree fr b c \<Longrightarrow> agree fr a c"
  by (simp add: agree_def)

lemma frame_outcome_append:
  assumes "frame_outcome fr str (into + length xs) ys (write_bytes (str + into) xs m1) r" and "agree fr mem m1"
  shows "frame_outcome fr str into (xs @ ys) mem r"
  using assms write_bytes_append [of "str + into" xs ys m1] agree_write [OF assms(2), of "str + into" "xs @ ys"]
  by (auto simp: frame_outcome_def add.assoc intro: agree_trans)

lemma loop_token:
  assumes "cursor < length fmt" and "fmt ! cursor = 0x25" and "int into < limit"
    and "switch_token fr str fmt (cursor + 1) args into mem = Some (Inr (cursor + 1, as, into', ptr, m1))"
    and "ptr_text m1 ptr ys" and "ptr_clear ptr ys str limit" and "int into' \<le> limit"
  shows "snprintf_loop fr str limit fmt cursor args into mem =
    (let xs = take (nat limit - into') ys
     in snprintf_loop fr str limit fmt (cursor + 2) as (into' + length xs) (write_bytes (str + into') xs m1))"
  using assms copy_str_text [OF assms(5,6), of 0 into']
  by (subst snprintf_loop.simps) (simp add: Let_def)

lemma nth_pre: "(pre @ x # xs) ! length pre = x" "(pre @ x # y # xs) ! Suc (length pre) = y"
  by (simp_all add: nth_append)

text \<open>A conversion writes at most one byte itself and leaves a string to copy.\<close>

definition token_outcome :: "frame \<Rightarrow> nat \<Rightarrow> int \<Rightarrow> nat \<Rightarrow> nat \<Rightarrow> kmem \<Rightarrow> bytes \<Rightarrow> u64 list
    \<Rightarrow> (unit + nat \<times> u64 list \<times> nat \<times> str_ptr \<times> kmem) option \<Rightarrow> bool" where
  "token_outcome fr str limit cursor into mem out as r \<longleftrightarrow>
     (\<exists>zs ys ptr m1. r = Some (Inr (cursor, as, into + length zs, ptr, m1)) \<and> out = zs @ ys \<and> length zs \<le> 1
        \<and> agree fr (write_bytes (str + into) zs mem) m1 \<and> ptr_text m1 ptr ys \<and> ptr_clear ptr ys str limit)"

lemma token_outcome_copy:
  "r = Some (Inr (cursor, as, into, ptr, m1)) \<Longrightarrow> agree fr mem m1 \<Longrightarrow> ptr_text m1 ptr ys \<Longrightarrow> ptr_clear ptr ys str limit \<Longrightarrow>
   token_outcome fr str limit cursor into mem ys as r"
  by (auto simp: token_outcome_def intro!: exI [of _ "[]"])

lemma token_outcome_byte:
  "r = Some (Inr (cursor, as, into + 1, NullPtr, mem(str + into := v))) \<Longrightarrow>
   token_outcome fr str limit cursor into mem [v] as r"
  using write_bytes_snoc [of "str + into" "[]" mem v]
  by (auto simp: token_outcome_def agree_def intro!: exI [of _ "[v]"])

lemma switch_token_outcome:
  assumes "supported (t # ts) args" and "string_args (t # ts) args \<subseteq> A" and "\<nexists>c. t = Text c"
    and fr: "frame_ok fr str limit" and mem: "memory_ok fr str limit S A mem"
    and cursor: "cursor < length fmt" and tok: "encode t = [0x25, fmt ! cursor]"
  shows "\<exists>out as. render S (t # ts) args = out @ render S ts as \<and> supported ts as \<and> string_args ts as \<subseteq> A
    \<and> token_outcome fr str limit cursor into mem out as (switch_token fr str fmt cursor args into mem)"
proof (cases "t = Percent")
  case True
  then have "token_outcome fr str limit cursor into mem [0x25] args (switch_token fr str fmt cursor args into mem)"
    using switch_token_simps(1) [OF cursor] tok by (intro token_outcome_byte) simp
  then show ?thesis using assms(1,2) True by (intro exI [of _ "[0x25]"] exI [of _ args]) simp
next
  case False
  then obtain a as where args: "args = a # as" using assms(1,3) by (cases t; cases args) auto
  note conv = switch_token_simps [OF cursor]
  have tag0: "mem (hex_as_str fr + 16) = 0" using mem by (simp add: memory_ok_def)
  show ?thesis
  proof (cases t)
    case TStr
    have "token_outcome fr str limit cursor into mem (if a = 0 then [] else S (unat a)) as (switch_token fr str fmt cursor args into mem)"
      using mem assms(2) TStr tok unfolding args
      by (intro token_outcome_copy [OF conv(2)])
         (auto simp: agree_def memory_ok_def unat_eq_0)
    then show ?thesis using assms(1,2) TStr args by (intro exI [of _ "if a = 0 then [] else S (unat a)"] exI [of _ as]) simp
  next
    case TChr
    have "token_outcome fr str limit cursor into mem [ucast a] as (switch_token fr str fmt cursor args into mem)"
      using conv(3) tok TChr args by (intro token_outcome_byte) simp
    then show ?thesis using assms(1,2) TChr args by (intro exI [of _ "[ucast a]"] exI [of _ as]) simp
  next
    case (THex upper)
    let ?out = "number (hex_digits upper (ucast a))"
    obtain ptr m1 where "print_hex fr upper (ucast a) mem = (ptr, m1)" "ptr_text m1 ptr ?out" "ptr_clear ptr ?out str limit" "agree fr mem m1"
      using print_hex_text [OF fr, where mem = mem, OF tag0] by blast
    then have "token_outcome fr str limit cursor into mem ?out as (switch_token fr str fmt cursor args into mem)"
      using tok THex unfolding args by (intro token_outcome_copy [OF conv(4)]) simp_all
    then show ?thesis using assms(1,2) THex args by (intro exI [of _ ?out] exI [of _ as]) simp
  next
    case TUInt
    let ?out = "number (dec_digits (unat (ucast a :: u32)))"
    obtain ptr m1 where "print_u fr (ucast a) mem = (ptr, m1)" "ptr_text m1 ptr ?out" "ptr_clear ptr ?out str limit" "agree fr mem m1"
      using print_u_text [OF fr] by blast
    then have "token_outcome fr str limit cursor into mem ?out as (switch_token fr str fmt cursor args into mem)"
      using tok TUInt unfolding args by (intro token_outcome_copy [OF conv(5)]) simp_all
    then show ?thesis using assms(1,2) TUInt args by (intro exI [of _ ?out] exI [of _ as]) simp
  next
    case TSInt
    let ?d = "sint (ucast a :: u32)" and ?out = "number (dec_digits (nat (sint (ucast a :: u32))))"
    have "0 \<le> ?d" "?d < 2 ^ 31" using assms(1) TSInt args sint_less [of "ucast a :: u32"] by simp_all
    then obtain ptr m1 where "print_d fr ?d mem = (ptr, m1)" "ptr_text m1 ptr ?out" "ptr_clear ptr ?out str limit" "agree fr mem m1"
      using print_d_text [OF fr] by blast
    then have "token_outcome fr str limit cursor into mem ?out as (switch_token fr str fmt cursor args into mem)"
      using tok TSInt unfolding args by (intro token_outcome_copy [OF conv(6)]) simp_all
    then show ?thesis using assms(1,2) TSInt args by (intro exI [of _ ?out] exI [of _ as]) simp
  qed (use assms(3) False in auto)
qed

lemma supported_Text: "supported (Text c # ts) as \<longleftrightarrow> c \<noteq> 0 \<and> c \<noteq> 0x25 \<and> supported ts as"
  by simp

lemma snprintf_loop_end:
  "\<not> (fmt ! cursor \<noteq> 0 \<and> int into < limit) \<Longrightarrow> cursor < length fmt \<Longrightarrow>
   snprintf_loop fr str limit fmt cursor args into mem = Some (int into, mem)"
  by (subst snprintf_loop.simps) auto

lemma agree_refl [simp]: "agree fr mem mem"
  by (simp add: agree_def)

lemma snprintf_loop_outcome:
  assumes "supported ts as" and "string_args ts as \<subseteq> A" and "frame_ok fr str limit"
    and "memory_ok fr str limit S A mem" and "int into \<le> limit"
  shows "frame_outcome fr str into (take (nat limit - into) (render S ts as)) mem
    (snprintf_loop fr str limit (pre @ concat (map encode ts) @ [0]) (length pre) as into mem)"
  using assms
proof (induction ts arbitrary: pre as into mem)
  case Nil
  then show ?case by (simp add: snprintf_loop_end frame_outcome_def agree_def)
next
  case (Cons t ts)
  let ?fmt = "pre @ concat (map encode (t # ts)) @ [0]"
  have cursor: "length pre < length ?fmt" by simp
  show ?case
  proof (cases "int into < limit")
    case False
    then show ?thesis using Cons.prems by (simp add: snprintf_loop_end frame_outcome_def agree_def)
  next
    case lt: True
    show ?thesis
    proof (cases "\<exists>c. t = Text c")
      case True
      then obtain c where t: "t = Text c" by blast
      have ok: "memory_ok fr str limit S A (write_bytes (str + into) [c] mem)"
        using Cons.prems lt by (intro memory_ok_dest) simp_all
      have k: "nat limit - into = Suc (nat limit - Suc into)" using lt by simp
      have "frame_outcome fr str (into + length [c]) (take (nat limit - Suc into) (render S ts as)) (write_bytes (str + into) [c] mem)
        (snprintf_loop fr str limit ((pre @ [c]) @ concat (map encode ts) @ [0]) (length (pre @ [c])) as (into + 1) (write_bytes (str + into) [c] mem))"
        using Cons.IH [OF _ _ _ ok, of as "into + 1" "pre @ [c]"] Cons.prems lt t by simp
      then have "frame_outcome fr str into ([c] @ take (nat limit - Suc into) (render S ts as)) mem
        (snprintf_loop fr str limit ?fmt (length pre + 1) as (into + 1) (write_bytes (str + into) [c] mem))"
        using frame_outcome_append [OF _ agree_refl, of fr str into "[c]"] by (simp add: t)
      moreover have "mem(str + into := c) = write_bytes (str + into) [c] mem"
        using write_bytes_snoc [of "str + into" "[]" mem c] by simp
      ultimately show ?thesis
        using Cons.prems lt by (subst snprintf_loop.simps) (simp add: t k nth_append)
    next
      case False
      obtain x where enc: "encode t = [0x25, x]" using False by (cases t) auto
      have x: "?fmt ! (length pre + 1) = x" "length pre + 1 < length ?fmt" "?fmt ! length pre = 0x25"
        by (simp_all add: enc nth_append)
      obtain out as' where render: "render S (t # ts) as = out @ render S ts as'" and rest: "supported ts as'" "string_args ts as' \<subseteq> A"
        and tok: "token_outcome fr str limit (length pre + 1) into mem out as' (switch_token fr str ?fmt (length pre + 1) as into mem)"
        using switch_token_outcome [OF Cons.prems(1,2) _ Cons.prems(3,4) x(2), of into] False enc x(1) by auto
      from tok obtain zs ys ptr m1 where sw: "switch_token fr str ?fmt (length pre + 1) as into mem = Some (Inr (length pre + 1, as', into + length zs, ptr, m1))"
        and out: "out = zs @ ys" "length zs \<le> 1" and m1: "agree fr (write_bytes (str + into) zs mem) m1"
        and ptr: "ptr_text m1 ptr ys" "ptr_clear ptr ys str limit"
        unfolding token_outcome_def by blast
      let ?k = "nat limit - (into + length zs)"
      let ?xs = "take ?k ys"
      have zs: "length zs \<le> nat limit - into" "int (into + length zs) \<le> limit" using out lt by auto
      have "memory_ok fr str limit S A m1"
        using memory_ok_locals [OF memory_ok_dest [OF Cons.prems(4,3)] Cons.prems(3) m1] zs(2) by simp
      then have ok: "memory_ok fr str limit S A (write_bytes (str + (into + length zs)) ?xs m1)"
        using Cons.prems(3) by (intro memory_ok_dest) (use zs in auto)
      have "frame_outcome fr str (into + length zs + length ?xs) (take (nat limit - (into + length zs + length ?xs)) (render S ts as'))
         (write_bytes (str + (into + length zs)) ?xs m1) (snprintf_loop fr str limit ?fmt (length pre + 2) as' (into + length zs + length ?xs) (write_bytes (str + (into + length zs)) ?xs m1))"
        using Cons.IH [OF rest Cons.prems(3) ok, of "into + length zs + length ?xs" "pre @ [0x25, x]"] zs
        by (simp add: enc)
      then have "frame_outcome fr str (into + length zs) (?xs @ take (nat limit - (into + length zs + length ?xs)) (render S ts as'))
         (write_bytes (str + into) zs mem) (snprintf_loop fr str limit ?fmt (length pre) as into mem)"
        unfolding loop_token [OF cursor x(3) lt sw ptr zs(2)] Let_def
        by (rule frame_outcome_append) (rule m1)
      then have "frame_outcome fr str into (zs @ ?xs @ take (nat limit - (into + length zs + length ?xs)) (render S ts as')) mem
         (snprintf_loop fr str limit ?fmt (length pre) as into mem)"
        by (rule frame_outcome_append) (simp add: agree_def)
      moreover have "zs @ ?xs @ take (nat limit - (into + length zs + length ?xs)) (render S ts as') = take (nat limit - into) (zs @ ys @ render S ts as')"
        using zs(1) by (simp add: min_def)
      ultimately show ?thesis by (simp add: render out)
    qed
  qed
qed

text \<open>The value a digit string denotes in base \<open>b\<close>.\<close>

definition denotes :: "nat \<Rightarrow> nat list \<Rightarrow> nat" where
  "denotes b ds = foldl (\<lambda>v d. b * v + d) 0 ds"

lemma denotes_digits: "2 \<le> b \<Longrightarrow> denotes b (digits b n) = n"
proof (induction b n rule: digits.induct)
  case (1 b n)
  then show ?case by (subst digits.simps) (auto simp: denotes_def)
qed

definition char_digit :: "u8 \<Rightarrow> nat" where
  "char_digit c = (if c \<le> 0x39 then unat c - 0x30 else if c \<le> 0x46 then unat c - 0x41 + 10 else unat c - 0x61 + 10)"

lemma char_digit_char:
  assumes "k < 16" and "letter = 0x41 \<or> letter = 0x61"
  shows "char_digit (digit_char letter k) = k"
proof -
  have "k \<in> set [0..<16]" using assms(1) by simp
  then show ?thesis using assms(2) by (auto simp: upt_conv_Cons digit_char_def char_digit_def word_le_nat_alt)
qed

lemma map_char_digit:
  "letter = 0x41 \<or> letter = 0x61 \<Longrightarrow> b = 10 \<or> b = 16 \<Longrightarrow>
   map char_digit (map (digit_char letter) (digits b n)) = digits b n"
  using digits_range [of b _ n] by (fastforce simp: char_digit_char intro!: map_idI)

lemma dec_digits_letter: "dec_digits n = map (digit_char 0x41) (digits 10 n)"
  using digits_range [of 10 _ n] by (fastforce simp: dec_digits_def digit_char_def)

lemma hd_digits: "0 < n \<Longrightarrow> 2 \<le> b \<Longrightarrow> hd (digits b n) \<noteq> 0"
proof (induction b n rule: digits.induct)
  case (1 b n)
  have "digits b n = digits b (n div b) @ [n mod b]" using 1(2,3) by (subst digits.simps) simp
  then show ?case
    using 1 digits_nonempty [of "n div b" b] by (cases "n div b = 0") (auto simp: hd_append div_eq_0_iff)
qed

lemma skip_flag_skips:
  assumes "list_all (\<lambda>c. c < 0x30 \<or> 0x39 < c) skipped"
  shows "skip_flag (pre @ skipped @ rest) (length pre) = skip_flag (pre @ skipped @ rest) (length pre + length skipped)"
  using assms
proof (induction skipped arbitrary: pre)
  case Nil
  then show ?case by simp
next
  case (Cons c cs)
  then show ?case
    using Cons.IH [of "pre @ [c]"] by (subst skip_flag.simps) (simp add: nth_append)
qed

section \<open>Confinement\<close>

text \<open>All that a call can write: the destination, the local arrays, and the byte a negative \<open>%d\<close> hits.\<close>

definition touchable :: "frame \<Rightarrow> nat \<Rightarrow> int \<Rightarrow> nat \<Rightarrow> bool" where
  "touchable fr str limit p \<longleftrightarrow> in_locals fr p \<or> str \<le> p \<and> p < str + nat limit \<or> p = d_as_str fr + unat (d_at0 fr - 1)"

definition confined :: "frame \<Rightarrow> nat \<Rightarrow> int \<Rightarrow> kmem \<Rightarrow> kmem \<Rightarrow> bool" where
  "confined fr str limit mem mem' \<longleftrightarrow> (\<forall>p. \<not> touchable fr str limit p \<longrightarrow> mem' p = mem p)"

lemma confined_refl [simp, intro]: "confined fr str limit mem mem"
  by (simp add: confined_def)

lemma confined_trans [trans]: "confined fr str limit a b \<Longrightarrow> confined fr str limit b c \<Longrightarrow> confined fr str limit a c"
  by (simp add: confined_def)

lemma confined_upd: "touchable fr str limit p \<Longrightarrow> confined fr str limit mem (mem(p := v))"
  by (auto simp: confined_def)

lemma confined_locals: "agree fr mem mem' \<Longrightarrow> confined fr str limit mem mem'"
  by (simp add: confined_def agree_def touchable_def)

lemma confined_dest: "int into < limit \<Longrightarrow> confined fr str limit mem (mem(str + into := v))"
  by (rule confined_upd) (auto simp: touchable_def)

lemma hex_loop_range:
  "hex_loop letter base x i ptr mem = (ptr', mem') \<Longrightarrow> \<not> (base \<le> p \<and> p < base + 16) \<Longrightarrow> mem' p = mem p"
proof (induction letter base x i ptr mem rule: hex_loop.induct)
  case (1 letter base x i ptr mem)
  show ?case
  proof (cases "x > 0")
    case True
    show ?thesis
      using "1.IH" [OF True refl refl refl] 1(2,3) True
      unfolding hex_loop.simps [of letter base x i ptr mem] by (auto simp: Let_def fun_upd_def)
  next
    case False
    then show ?thesis using 1(2) by (subst (asm) hex_loop.simps) simp
  qed
qed

lemma u_loop_range:
  "u_loop base x i ptr mem = (ptr', mem') \<Longrightarrow> \<not> (base \<le> p \<and> p < base + 10) \<Longrightarrow> mem' p = mem p"
proof (induction base x i ptr mem rule: u_loop.induct)
  case (1 base x i ptr mem)
  show ?case
  proof (cases "x > 0")
    case True
    show ?thesis
      using "1.IH" [OF True refl] 1(2,3) True
      unfolding u_loop.simps [of base x i ptr mem] by (auto simp: Let_def fun_upd_def)
  next
    case False
    then show ?thesis using 1(2) by (subst (asm) u_loop.simps) simp
  qed
qed

lemma zero_bytes_range: "\<not> (a \<le> p \<and> p < a + n) \<Longrightarrow> zero_bytes a n mem p = mem p"
  by (auto simp: zero_bytes_eq write_bytes_def)

lemma print_hex_confined:
  "print_hex fr upper x mem = (ptr, mem') \<Longrightarrow> confined fr str limit mem mem'"
  by (rule confined_locals)
     (auto simp: print_hex_def agree_def in_locals_def zero_bytes_range Let_def dest: hex_loop_range split: if_splits prod.splits)

lemma print_u_confined:
  "print_u fr x mem = (ptr, mem') \<Longrightarrow> confined fr str limit mem mem'"
  by (rule confined_locals)
     (auto simp: print_u_def agree_def in_locals_def zero_bytes_range Let_def dest!: u_loop_range split: if_splits prod.splits)

lemma print_d_confined:
  assumes "print_d fr (sint (a :: u32)) mem = (ptr, mem')"
  shows "confined fr str limit mem mem'"
proof (cases "sint a < 0")
  case True
  have "confined fr str limit mem (zero_bytes (d_as_str fr) 11 mem)"
    by (rule confined_locals) (simp add: agree_def in_locals_def zero_bytes_range)
  moreover have "touchable fr str limit (d_as_str fr + unat (d_at0 fr - 1))" by (simp add: touchable_def)
  ultimately show ?thesis
    using assms True confined_trans confined_upd by (auto simp: print_d_def d_loop.simps Let_def)
next
  case False
  let ?d = "sint a" and ?b = "d_as_str fr" and ?m = "zero_bytes (d_as_str fr) 11 mem"
  have len: "length (digits 10 (nat ?d)) \<le> 10"
    using digits_less [of "nat ?d" 10 10] sint_less [of a] False by simp
  show ?thesis
  proof (cases "?d = 0")
    case True
    then show ?thesis using assms by (simp add: print_d_def)
  next
    case pos: False
    with False obtain d_at where "d_loop ?d ?b ?d 0 (d_at0 fr) NullPtr ?m = (d_at, At (?b + 10 - length (digits 10 (nat ?d))),
        write_bytes (?b + 10 - length (digits 10 (nat ?d))) (dec_digits (nat ?d)) ?m)"
      using d_loop_digits [of 0 ?d ?d ?b "d_at0 fr" NullPtr ?m] len by auto
    then have "mem' = write_bytes (?b + 10 - length (digits 10 (nat ?d))) (dec_digits (nat ?d)) ?m"
      using assms pos False by (simp add: print_d_def)
    then show ?thesis
      using len by (auto intro!: confined_locals simp: agree_def in_locals_def zero_bytes_range write_bytes_def dec_digits_def)
  qed
qed

lemma switch_token_confined:
  "switch_token fr str fmt cursor args into mem = Some (Inr (c, as, into', ptr, mem')) \<Longrightarrow> int into < limit \<Longrightarrow>
   confined fr str limit mem mem'"
proof (induction fr str fmt cursor args into mem rule: switch_token.induct)
  case (1 fr str fmt cursor args into mem)
  then show ?case
    by (subst (asm) (2) switch_token.simps)
       (auto simp: Let_def confined_dest print_hex_confined print_u_confined print_d_confined
         split: if_splits option.splits list.splits prod.splits)
qed

lemma copy_str_confined:
  "copy_str ptr str m limit into mem = Some (into', mem') \<Longrightarrow> confined fr str limit mem mem'"
proof (induction ptr str m limit into mem rule: copy_str.induct)
  case (1 ptr str m limit into mem)
  show ?case
    using 1(2) "1.IH" unfolding copy_str.simps [of ptr str m limit into mem]
    by (auto simp: fun_upd_def [symmetric] split: if_splits option.splits intro: confined_trans [OF confined_dest])
qed

lemma snprintf_loop_confined:
  assumes "snprintf_loop fr str limit fmt cursor args into mem = Some rm"
  shows "confined fr str limit mem (snd rm)"
proof (rule snprintf_loop.raw_induct [where P = "\<lambda>fr str limit fmt cursor args into mem rm. confined fr str limit mem (snd rm)", OF _ assms])
  fix f fr str limit fmt cursor args into mem rm
  assume IH: "\<And>fr str limit fmt cursor args into mem rm. f fr str limit fmt cursor args into mem = Some rm \<Longrightarrow> confined fr str limit mem (snd rm)"
    and body: "(if cursor \<ge> length fmt then None
      else if fmt ! cursor \<noteq> 0 \<and> int into < limit then
        if fmt ! cursor = 0x25 then
          case switch_token fr str fmt (cursor + 1) args into mem of None \<Rightarrow> None
          | Some (Inl _) \<Rightarrow> Some (- 1, mem)
          | Some (Inr (cursor, args, into, ptr, mem)) \<Rightarrow>
             (case copy_str ptr str 0 limit into mem of None \<Rightarrow> None
              | Some (into, mem) \<Rightarrow> f fr str limit fmt (cursor + 1) args into mem)
        else f fr str limit fmt (cursor + 1) args (into + 1) (mem(str + into := fmt ! cursor))
      else Some (int into, mem)) = Some rm"
  show "confined fr str limit mem (snd rm)"
    using body
    by (auto split: if_splits option.splits sum.splits prod.splits
        dest!: IH dest: switch_token_confined copy_str_confined intro: confined_trans confined_dest)
qed

lemma digits_read_back:
  "denotes 10 (map char_digit (number (dec_digits n))) = n
   \<and> denotes 16 (map char_digit (number (hex_digits upper x))) = unat x
   \<and> (n = 0 \<or> hd (dec_digits n) \<noteq> 0x30)"
proof -
  have dec: "denotes 10 (map char_digit (number (dec_digits n))) = n" for n
  proof (cases "dec_digits n = []")
    case True
    then have "digits 10 n = []" by (simp add: dec_digits_def)
    then show ?thesis using digits_nonempty [of n 10] True by (auto simp: number_def denotes_def char_digit_def)
  next
    case False
    then show ?thesis by (simp add: number_def dec_digits_letter map_char_digit denotes_digits del: map_map)
  qed
  have hex: "denotes 16 (map char_digit (number (hex_digits upper x))) = unat x"
  proof (cases "hex_digits upper x = []")
    case True
    then have "digits 16 (unat x) = []" by (simp add: hex_digits_def)
    then show ?thesis using digits_nonempty [of "unat x" 16] True by (auto simp: number_def denotes_def char_digit_def)
  next
    case False
    then show ?thesis by (simp add: number_def hex_digits_def map_char_digit denotes_digits del: map_map)
  qed
  have "hd (dec_digits n) \<noteq> 0x30" if "0 < n"
  proof -
    have "hd (digits 10 n) < 10" "hd (digits 10 n) \<noteq> 0"
      using that hd_digits [of n 10] digits_nonempty [of n 10] digits_range [of 10 "hd (digits 10 n)" n] by auto
    then have "char_digit (hd (dec_digits n)) \<noteq> 0"
      using that digits_nonempty [of n 10] by (simp add: dec_digits_letter hd_map char_digit_char)
    then show ?thesis by (auto simp: char_digit_def)
  qed
  then show ?thesis using dec [of n] hex by auto
qed

section \<open>Properties\<close>

text \<open>C17: \<open>snprintf\<close> prints what the format says, cut off at the limit. It returns the number of bytes it wrote, writes
  exactly those bytes at the destination and otherwise changes only its own local arrays: in particular it never
  writes a terminator.\<close>

theorem snprintf_correct:
  assumes "supported ts args" and "0 \<le> limit" and "frame_ok fr str limit"
    and "memory_ok fr str limit S (string_args ts args) mem" and "out = take (nat limit) (render S ts args)"
  shows "\<exists>mem'. snprintf fr str limit (concat (map encode ts) @ [0]) args mem = Some (int (length out), mem')
    \<and> (\<forall>p. \<not> in_locals fr p \<longrightarrow> mem' p = write_bytes str out mem p)"
  using snprintf_loop_outcome [OF assms(1) order_refl assms(3,4), of 0 "[]"] assms(2,5)
  by (simp add: snprintf_def frame_outcome_def agree_def)

definition example_frame :: frame where
  "example_frame = \<lparr>hex_as_str = 2000, u_as_str = 2020, d_as_str = 2040, d_at0 = 0\<rparr>"

lemma example_digits: "digits 10 42 = [4, 2]" "digits 16 255 = [15, 15]"
  by (simp_all add: digits.simps)

theorem snprintf_correct_witness:
  "\<exists>mem'. snprintf example_frame 1000 5 [0x41, 0x25, 0x75, 0x25, 0x25, 0x25, 0x58, 0] [42, 255] (\<lambda>_. 0) = Some (5, mem')
    \<and> map mem' [1000..<1006] = [0x41, 0x34, 0x32, 0x25, 0x46, 0]"
proof -
  have out: "[0x41, 0x34, 0x32, 0x25, 0x46] = take (nat 5) (render (\<lambda>_. []) [Text 0x41, TUInt, Percent, THex True] [42, 255])"
    by (simp add: number_def dec_digits_def hex_digits_def example_digits digit_char_def)
  obtain mem' where m: "snprintf example_frame 1000 5 (concat (map encode [Text 0x41, TUInt, Percent, THex True]) @ [0]) [42, 255] (\<lambda>_. 0)
      = Some (5, mem')" and eq: "\<And>p. \<not> in_locals example_frame p \<Longrightarrow> mem' p = write_bytes 1000 [0x41, 0x34, 0x32, 0x25, 0x46] (\<lambda>_. 0) p"
    using snprintf_correct [OF _ _ _ _ out, of example_frame 1000 "\<lambda>_. 0"]
    by (auto simp: example_frame_def frame_ok_def memory_ok_def in_locals_def)
  have "map mem' [1000..<1006] = map (write_bytes 1000 [0x41, 0x34, 0x32, 0x25, 0x46] (\<lambda>_. 0)) [1000..<1006]"
    using eq by (intro map_cong) (auto simp: example_frame_def in_locals_def)
  also have "\<dots> = [0x41, 0x34, 0x32, 0x25, 0x46, 0]"
    by (simp add: write_bytes_def upt_conv_Cons)
  finally show ?thesis using m by simp
qed

lemma number_leading: "0 < n \<Longrightarrow> hd (number (dec_digits n)) \<noteq> 0x30"
  using digits_read_back [of n] digits_nonempty [of n 10] by (auto simp: number_def dec_digits_def)

text \<open>C18: The digits that \<open>%u\<close>, \<open>%x\<close> and \<open>%X\<close> print denote the number, and so do those of \<open>%d\<close> for every number that is not negative.
  The decimal ones have no leading zero.\<close>

theorem printed_numbers_read_back:
  assumes "frame_ok fr str limit" and "mem (hex_as_str fr + 16) = 0"
  shows "(\<exists>ptr mem' ds. print_u fr u mem = (ptr, mem') \<and> ptr_text mem' ptr ds \<and> denotes 10 (map char_digit ds) = unat u
            \<and> (u = 0 \<or> hd ds \<noteq> 0x30))
       \<and> (\<exists>ptr mem' ds. print_hex fr upper x mem = (ptr, mem') \<and> ptr_text mem' ptr ds \<and> denotes 16 (map char_digit ds) = unat x)
       \<and> (0 \<le> d \<and> d < 2 ^ 31 \<longrightarrow> (\<exists>ptr mem' ds. print_d fr d mem = (ptr, mem') \<and> ptr_text mem' ptr ds
            \<and> int (denotes 10 (map char_digit ds)) = d \<and> (d = 0 \<or> hd ds \<noteq> 0x30)))"
proof (intro conjI impI)
  have dec: "denotes 10 (map char_digit (number (dec_digits n))) = n" for n using digits_read_back by blast
  have hex: "denotes 16 (map char_digit (number (hex_digits upper x))) = unat x" using digits_read_back by blast
  obtain ptr mem' where "print_u fr u mem = (ptr, mem')" "ptr_text mem' ptr (number (dec_digits (unat u)))"
    using print_u_text [OF assms(1), of u mem] by blast
  moreover have "u = 0 \<or> hd (number (dec_digits (unat u))) \<noteq> 0x30" using number_leading [of "unat u"] unat_gt_0 [of u] by auto
  ultimately show "\<exists>ptr mem' ds. print_u fr u mem = (ptr, mem') \<and> ptr_text mem' ptr ds \<and> denotes 10 (map char_digit ds) = unat u
      \<and> (u = 0 \<or> hd ds \<noteq> 0x30)"
    using dec [of "unat u"] by blast
  obtain ptr mem' where "print_hex fr upper x mem = (ptr, mem')" "ptr_text mem' ptr (number (hex_digits upper x))"
    using print_hex_text [of fr str limit mem upper x] assms by blast
  then show "\<exists>ptr mem' ds. print_hex fr upper x mem = (ptr, mem') \<and> ptr_text mem' ptr ds \<and> denotes 16 (map char_digit ds) = unat x"
    using hex by blast
  assume d: "0 \<le> d \<and> d < 2 ^ 31"
  then obtain ptr mem' where "print_d fr d mem = (ptr, mem')" "ptr_text mem' ptr (number (dec_digits (nat d)))"
    using print_d_text [OF assms(1), of d mem] by blast
  moreover have "int (denotes 10 (map char_digit (number (dec_digits (nat d))))) = d" using dec [of "nat d"] d by simp
  moreover have "d = 0 \<or> hd (number (dec_digits (nat d))) \<noteq> 0x30" using number_leading [of "nat d"] d by auto
  ultimately show "\<exists>ptr mem' ds. print_d fr d mem = (ptr, mem') \<and> ptr_text mem' ptr ds \<and> int (denotes 10 (map char_digit ds)) = d
      \<and> (d = 0 \<or> hd ds \<noteq> 0x30)" by blast
qed

theorem printed_numbers_read_back_witness:
  "(\<exists>ptr mem' ds. print_u example_frame 42 (\<lambda>_. 0) = (ptr, mem') \<and> ptr_text mem' ptr ds \<and> denotes 10 (map char_digit ds) = 42)
    \<and> (\<exists>ptr mem' ds. print_d example_frame 2147483647 (\<lambda>_. 0) = (ptr, mem') \<and> ptr_text mem' ptr ds
         \<and> int (denotes 10 (map char_digit ds)) = 2147483647)"
proof -
  have "frame_ok example_frame 100 10" by (simp add: example_frame_def frame_ok_def in_locals_def)
  from printed_numbers_read_back [OF this, of "\<lambda>_. 0" 42 True 0 2147483647] show ?thesis by auto
qed

text \<open>The digits of a negative number are never printed: \<open>%d\<close> prints from an address made from the uninitialised
  \<open>d_at\<close>, whatever the number, after storing a minus sign there.\<close>

theorem print_d_negative:
  assumes "d < 0"
  shows "print_d fr d mem = (At (d_as_str fr + unat (d_at0 fr - 1)),
    (zero_bytes (d_as_str fr) 11 mem)(d_as_str fr + unat (d_at0 fr - 1) := 0x2d))"
  using assms by (simp add: print_d_def d_loop.simps Let_def)

theorem print_d_negative_witness:
  "print_d (example_frame\<lparr>d_at0 := 100\<rparr>) (- 5) (\<lambda>_. 0) =
    (At 2139, (zero_bytes 2040 11 (\<lambda>_. 0))(2139 := 0x2d))"
  using print_d_negative [of "- 5" "example_frame\<lparr>d_at0 := 100\<rparr>" "\<lambda>_. 0"] by (simp add: example_frame_def)

text \<open>The \<open>0\<close> flag does not work: a width after it is an unsupported token, so that \<open>%08x\<close> ends the call with
  \<open>-1\<close>, and without a width the loop runs over the rest of the format and past its end.\<close>

theorem snprintf_zero_flag:
  assumes "0 < limit" and "list_all (\<lambda>c. c < 0x30 \<or> 0x39 < c) skipped"
  shows "(0x30 < w \<and> w \<le> 0x39 \<longrightarrow> snprintf fr str limit ([0x25, 0x30] @ skipped @ w # fmt) args mem = Some (- 1, mem))
    \<and> snprintf fr str limit ([0x25, 0x30] @ skipped) args mem = None"
proof -
  have skip: "skip_flag ([0x25, 0x30] @ skipped @ rest) 2 = skip_flag ([0x25, 0x30] @ skipped @ rest) (2 + length skipped)" for rest
    using skip_flag_skips [OF assms(2), of "[0x25, 0x30]" rest] by (simp add: numeral_2_eq_2)
  have two: "Suc (Suc 0) = 2" by simp
  have switch: "switch_token fr str ([0x25, 0x30] @ skipped @ rest) 1 args 0 mem =
      (case skip_flag ([0x25, 0x30] @ skipped @ rest) (2 + length skipped) of None \<Rightarrow> None
       | Some c \<Rightarrow> switch_token fr str ([0x25, 0x30] @ skipped @ rest) c args 0 mem)" for rest
    unfolding skip [symmetric] by (subst switch_token.simps) (simp add: two)
  have loop: "snprintf fr str limit ([0x25, 0x30] @ skipped @ rest) args mem = r"
    if "switch_token fr str ([0x25, 0x30] @ skipped @ rest) 1 args 0 mem = t"
      and "t = None \<and> r = None \<or> t = Some (Inl ()) \<and> r = Some (- 1, mem)" for rest t r
    unfolding snprintf_def using assms(1) that by (subst snprintf_loop.simps) auto
  have "snprintf fr str limit ([0x25, 0x30] @ skipped @ w # fmt) args mem = Some (- 1, mem)" if "0x30 < w" "w \<le> 0x39"
  proof -
    have w: "([0x25, 0x30] @ skipped @ w # fmt) ! (2 + length skipped) = w" by (simp add: nth_append)
    have flag: "skip_flag ([0x25, 0x30] @ skipped @ w # fmt) (2 + length skipped) = Some (2 + length skipped)"
      using that by (subst skip_flag.simps) (simp add: w, simp add: word_less_nat_alt word_le_nat_alt)
    have "w \<noteq> 0x25 \<and> w \<noteq> 0x30 \<and> w \<noteq> 0x73 \<and> w \<noteq> 0x63 \<and> w \<noteq> 0x78 \<and> w \<noteq> 0x58 \<and> w \<noteq> 0x75 \<and> w \<noteq> 0x64"
      using that by (auto simp: word_less_nat_alt word_le_nat_alt)
    then have "switch_token fr str ([0x25, 0x30] @ skipped @ w # fmt) (2 + length skipped) args 0 mem = Some (Inl ())"
      by (subst switch_token.simps) (simp add: w)
    then show ?thesis by (intro loop [OF switch]) (simp only: flag, simp)
  qed
  moreover have "snprintf fr str limit ([0x25, 0x30] @ skipped @ []) args mem = None"
    by (intro loop [OF switch]) (simp add: skip_flag.simps)
  ultimately show ?thesis by simp
qed

theorem snprintf_zero_flag_witness:
  "snprintf example_frame 1000 128 [0x25, 0x30, 0x38, 0x78, 0] [7] (\<lambda>_. 0) = Some (- 1, \<lambda>_. 0)"
  using snprintf_zero_flag [of 128 "[]" "0x38" example_frame 1000 "[0x78, 0]" "[7]" "\<lambda>_. 0"] by simp

text \<open>C19: No format and no argument makes \<open>snprintf\<close> write outside of the destination's \<open>limit\<close> bytes, its own local
  arrays, and the one byte at the uninitialised index of a negative \<open>%d\<close>.\<close>

theorem snprintf_confined:
  "case snprintf fr str limit fmt args mem of None \<Rightarrow> True
   | Some (r, mem') \<Rightarrow> {p. mem' p \<noteq> mem p} \<subseteq> {p. in_locals fr p} \<union> {str..<str + nat limit} \<union> {d_as_str fr + unat (d_at0 fr - 1)}"
  using snprintf_loop_confined [of fr str limit fmt 0 args 0 mem]
  by (auto simp: snprintf_def confined_def touchable_def split: option.splits prod.splits)

end
