(* ===== verification/Uart.thy ===== *)
theory Uart
  imports KString
begin

text \<open>
  \<open>src/src/kernel/core/port_io.c\<close> and \<open>src/src/kernel/drivers/uart.c\<close>: port input and output and the serial
  driver. The machine is the memory, the list of port accesses made and the driver's flag. The device is a parameter:
  the byte read from a port as a function of all accesses before.
\<close>

datatype port_event = In u16 u8 | Out u16 u8

record machine =
  mem :: kmem
  ports :: "port_event list"
  uart_enabled :: bool

type_synonym device = "port_event list \<Rightarrow> u16 \<Rightarrow> u8"

definition inb :: "device \<Rightarrow> u16 \<Rightarrow> machine \<Rightarrow> u8 \<times> machine" where
  "inb dev port s = (let recv = dev (ports s) port in (recv, s\<lparr>ports := ports s @ [In port recv]\<rparr>))"

definition outb :: "u16 \<Rightarrow> u8 \<Rightarrow> machine \<Rightarrow> machine" where
  "outb port val s = s\<lparr>ports := ports s @ [Out port val]\<rparr>"

definition SERIAL_COM1 :: u16 where
  "SERIAL_COM1 = 0x3F8"

definition uart_init :: "machine \<Rightarrow> int \<times> machine" where
  "uart_init s =
     (let s = outb (SERIAL_COM1 + 1) 0x00 s; s = outb (SERIAL_COM1 + 3) 0x80 s; s = outb (SERIAL_COM1 + 0) 0x01 s;
          s = outb (SERIAL_COM1 + 1) 0x00 s; s = outb (SERIAL_COM1 + 3) 0x03 s; s = outb (SERIAL_COM1 + 2) 0xC7 s;
          s = outb (SERIAL_COM1 + 4) 0x0B s
      in (0, s\<lparr>uart_enabled := True\<rparr>))"

definition uart_recv_ready :: "device \<Rightarrow> machine \<Rightarrow> u8 \<times> machine" where
  "uart_recv_ready dev s = (let (v, s) = inb dev (SERIAL_COM1 + 5) s in (v AND 0x01, s))"

definition uart_send_ready :: "device \<Rightarrow> machine \<Rightarrow> u8 \<times> machine" where
  "uart_send_ready dev s = (let (v, s) = inb dev (SERIAL_COM1 + 5) s in (v AND 0x20, s))"

text \<open>The polling loops; \<open>None\<close> is polling for ever.\<close>

partial_function (option) recv_wait :: "device \<Rightarrow> machine \<Rightarrow> machine option" where
  "recv_wait dev s = (let (ready, s) = uart_recv_ready dev s in if ready = 0 then recv_wait dev s else Some s)"

partial_function (option) send_wait :: "device \<Rightarrow> machine \<Rightarrow> machine option" where
  "send_wait dev s = (let (ready, s) = uart_send_ready dev s in if ready = 0 then send_wait dev s else Some s)"

definition uart_get :: "device \<Rightarrow> machine \<Rightarrow> (u8 \<times> machine) option" where
  "uart_get dev s =
     (if \<not> uart_enabled s then Some (0, s) else map_option (inb dev SERIAL_COM1) (recv_wait dev s))"

definition uart_putc :: "device \<Rightarrow> u8 \<Rightarrow> machine \<Rightarrow> machine option" where
  "uart_putc dev val s =
     (if \<not> uart_enabled s then Some s else map_option (outb SERIAL_COM1 val) (send_wait dev s))"

partial_function (option) puts_loop :: "device \<Rightarrow> nat \<Rightarrow> machine \<Rightarrow> machine option" where
  "puts_loop dev str s =
     (if mem s str \<noteq> 0 then case uart_putc dev (mem s str) s of None \<Rightarrow> None | Some s \<Rightarrow> puts_loop dev (str + 1) s
      else Some s)"

definition uart_puts :: "device \<Rightarrow> nat \<Rightarrow> machine \<Rightarrow> machine option" where
  "uart_puts dev str s = (if str = 0 \<or> \<not> uart_enabled s then Some s else puts_loop dev str s)"

text \<open>\<open>uart_puts\<close> of a string literal, given by its bytes up to the terminator.\<close>

primrec putc_all :: "device \<Rightarrow> bytes \<Rightarrow> machine \<Rightarrow> machine option" where
  "putc_all dev [] s = Some s"
| "putc_all dev (c # cs) s = (case uart_putc dev c s of None \<Rightarrow> None | Some s \<Rightarrow> putc_all dev cs s)"

definition uart_puts_lit :: "device \<Rightarrow> bytes \<Rightarrow> machine \<Rightarrow> machine option" where
  "uart_puts_lit dev cs s = (if \<not> uart_enabled s then Some s else putc_all dev cs s)"

section \<open>What is sent\<close>

text \<open>The bytes written to the data port, and whether each was written right after reading that the device is ready.\<close>

definition sent :: "port_event list \<Rightarrow> bytes" where
  "sent t = concat (map (\<lambda>e. case e of Out p v \<Rightarrow> if p = SERIAL_COM1 then [v] else [] | In p v \<Rightarrow> []) t)"

fun paced :: "port_event list \<Rightarrow> bool" where
  "paced [] \<longleftrightarrow> True"
| "paced (In p w # Out q v # t) \<longleftrightarrow> (q = SERIAL_COM1 \<longrightarrow> p = SERIAL_COM1 + 5 \<and> w AND 0x20 \<noteq> 0) \<and> paced t"
| "paced (Out q v # t) \<longleftrightarrow> q \<noteq> SERIAL_COM1 \<and> paced t"
| "paced (In p w # t) \<longleftrightarrow> paced t"

text \<open>The accesses of \<open>k\<close> polls of the status port, and a device that gets ready whatever happened before.\<close>

primrec polls :: "device \<Rightarrow> port_event list \<Rightarrow> nat \<Rightarrow> port_event list" where
  "polls dev t 0 = t"
| "polls dev t (Suc k) = polls dev (t @ [In (SERIAL_COM1 + 5) (dev t (SERIAL_COM1 + 5))]) k"

definition sending_device :: "device \<Rightarrow> bool" where
  "sending_device dev \<longleftrightarrow> (\<forall>t. \<exists>k. dev (polls dev t k) (SERIAL_COM1 + 5) AND 0x20 \<noteq> 0)"

lemma sent_append [simp]: "sent (t @ u) = sent t @ sent u"
  by (simp add: sent_def)

lemma sent_simps [simp]: "sent [] = []" "sent (In p v # t) = sent t" "sent (Out SERIAL_COM1 v # t) = v # sent t"
  by (simp_all add: sent_def)

lemma paced_In [simp]: "paced (In p w # In q v # t) = paced (In q v # t)" "paced [In p w]"
  by simp_all

definition ready_reads :: "port_event list \<Rightarrow> bool" where
  "ready_reads t \<longleftrightarrow> (\<exists>u w. t = map (In (SERIAL_COM1 + 5)) (u @ [w]) \<and> w AND 0x20 \<noteq> 0)"

lemma ready_reads_one: "w AND 0x20 \<noteq> 0 \<Longrightarrow> ready_reads [In (SERIAL_COM1 + 5) w]"
  unfolding ready_reads_def by (intro exI [of _ "[]"] exI [of _ w]) simp

lemma send_wait_reads:
  assumes "dev (polls dev (ports s) k) (SERIAL_COM1 + 5) AND 0x20 \<noteq> 0"
  shows "\<exists>t. send_wait dev s = Some (s\<lparr>ports := ports s @ t\<rparr>) \<and> ready_reads t"
  using assms
proof (induction k arbitrary: s)
  case 0
  then show ?case
    by (subst send_wait.simps)
       (auto simp: uart_send_ready_def inb_def Let_def ready_reads_one)
next
  case (Suc k)
  let ?v = "dev (ports s) (SERIAL_COM1 + 5)"
  show ?case
  proof (cases "?v AND 0x20 = 0")
    case True
    obtain t where "send_wait dev (s\<lparr>ports := ports s @ [In (SERIAL_COM1 + 5) ?v]\<rparr>) =
        Some (s\<lparr>ports := (ports s @ [In (SERIAL_COM1 + 5) ?v]) @ t\<rparr>)" and "ready_reads t"
      using Suc.IH [of "s\<lparr>ports := ports s @ [In (SERIAL_COM1 + 5) ?v]\<rparr>"] Suc.prems by auto
    moreover from this have "ready_reads (In (SERIAL_COM1 + 5) ?v # t)"
      by (auto simp: ready_reads_def) (metis append_Cons list.simps(9) map_append)
    ultimately show ?thesis
      using True by (subst send_wait.simps) (auto simp: uart_send_ready_def inb_def Let_def)
  next
    case False
    then show ?thesis
      by (subst send_wait.simps)
         (auto simp: uart_send_ready_def inb_def Let_def ready_reads_one)
  qed
qed

lemma ready_reads_paced:
  "ready_reads t \<Longrightarrow> paced u \<Longrightarrow> paced (t @ Out SERIAL_COM1 v # u) \<and> sent (t @ Out SERIAL_COM1 v # u) = v # sent u"
proof -
  assume "ready_reads t" and u: "paced u"
  then obtain ws w where t: "t = map (In (SERIAL_COM1 + 5)) (ws @ [w])" and w: "w AND 0x20 \<noteq> 0"
    by (auto simp: ready_reads_def)
  have "paced (map (In (SERIAL_COM1 + 5)) (ws @ [w]) @ Out SERIAL_COM1 v # u)
    \<and> sent (map (In (SERIAL_COM1 + 5)) (ws @ [w])) = []"
  proof (induction ws)
    case Nil
    then show ?case using u w by simp
  next
    case (Cons a ws)
    then show ?case by (cases ws) simp_all
  qed
  then show ?thesis by (simp add: t)
qed

lemma putc_all_sends:
  assumes "sending_device dev" and "uart_enabled s"
  shows "\<exists>t. putc_all dev cs s = Some (s\<lparr>ports := ports s @ t\<rparr>) \<and> sent t = cs \<and> paced t"
  using assms(2)
proof (induction cs arbitrary: s)
  case Nil
  then show ?case by (auto intro!: exI [of _ "[]"])
next
  case (Cons c cs)
  obtain t where t: "send_wait dev s = Some (s\<lparr>ports := ports s @ t\<rparr>)" "ready_reads t"
    using assms(1) send_wait_reads [of dev s] by (auto simp: sending_device_def)
  let ?s = "s\<lparr>ports := ports s @ t @ [Out SERIAL_COM1 c]\<rparr>"
  obtain u where "putc_all dev cs ?s = Some (?s\<lparr>ports := ports ?s @ u\<rparr>)" "sent u = cs" "paced u"
    using Cons.IH [of ?s] Cons.prems by auto
  then show ?case
    using t Cons.prems ready_reads_paced [of t u c] by (auto simp: uart_putc_def outb_def)
qed

lemma puts_loop_all:
  "cstring (mem s) str cs \<Longrightarrow> (\<And>c s s'. uart_putc dev c s = Some s' \<Longrightarrow> mem s' = mem s) \<Longrightarrow>
   puts_loop dev str s = putc_all dev cs s"
proof (induction cs arbitrary: str s)
  case Nil
  then show ?case by (subst puts_loop.simps) (simp add: cstring_def)
next
  case (Cons c cs)
  have c: "mem s str = c" "c \<noteq> 0" and cs: "cstring (mem s) (Suc str) cs"
    using Cons.prems(1) by (auto simp: cstring_def nth_Cons split: nat.splits)
  show ?case
  proof (cases "uart_putc dev c s")
    case None
    then show ?thesis using c by (subst puts_loop.simps) simp
  next
    case (Some s')
    then have "cstring (mem s') (Suc str) cs" using Cons.prems(2) cs by simp
    then show ?thesis using Cons.IH [OF _ Cons.prems(2)] c Some by (subst puts_loop.simps) simp
  qed
qed

text \<open>No port access changes memory or the driver's flag.\<close>

definition io_only :: "machine \<Rightarrow> machine \<Rightarrow> bool" where
  "io_only s s' \<longleftrightarrow> mem s' = mem s \<and> uart_enabled s' = uart_enabled s"

lemma io_only_trans [trans]: "io_only s t \<Longrightarrow> io_only t u \<Longrightarrow> io_only s u"
  by (simp add: io_only_def)

lemma send_wait_io:
  assumes "send_wait dev s = Some s'"
  shows "io_only s s'"
proof (rule send_wait.raw_induct [where P = "\<lambda>dev s s'. io_only s s'", OF _ assms])
  fix f dev s s'
  assume IH: "\<And>dev s s'. f dev s = Some s' \<Longrightarrow> io_only s s'"
    and body: "(let (ready, s) = uart_send_ready dev s in if ready = 0 then f dev s else Some s) = Some s'"
  show "io_only s s'"
    using body by (auto simp: uart_send_ready_def inb_def Let_def io_only_def dest!: IH split: if_splits)
qed

lemma uart_putc_io: "uart_putc dev c s = Some s' \<Longrightarrow> io_only s s'"
  by (auto simp: uart_putc_def outb_def io_only_def dest!: send_wait_io split: if_splits)

lemma putc_all_io: "putc_all dev cs s = Some s' \<Longrightarrow> io_only s s'"
proof (induction cs arbitrary: s)
  case Nil
  then show ?case by (simp add: io_only_def)
next
  case (Cons c cs)
  then show ?case by (auto split: option.splits dest!: uart_putc_io intro: io_only_trans)
qed

lemma puts_loop_io:
  assumes "puts_loop dev str s = Some s'"
  shows "io_only s s'"
proof (rule puts_loop.raw_induct [where P = "\<lambda>dev str s s'. io_only s s'", OF _ assms])
  fix f dev str s s'
  assume IH: "\<And>dev str s s'. f dev str s = Some s' \<Longrightarrow> io_only s s'"
    and body: "(if mem s str \<noteq> 0 then case uart_putc dev (mem s str) s of None \<Rightarrow> None | Some s \<Rightarrow> f dev (str + 1) s
      else Some s) = Some s'"
  show "io_only s s'"
    using body by (auto split: if_splits option.splits dest!: IH uart_putc_io intro: io_only_trans simp: io_only_def)
qed

lemma uart_puts_io: "uart_puts dev str s = Some s' \<Longrightarrow> io_only s s'"
  by (auto simp: uart_puts_def io_only_def dest: puts_loop_io split: if_splits)

lemma uart_puts_lit_io: "uart_puts_lit dev cs s = Some s' \<Longrightarrow> io_only s s'"
  by (auto simp: uart_puts_lit_def io_only_def dest: putc_all_io split: if_splits)

lemma uart_puts_text:
  assumes "sending_device dev" and "uart_enabled s" and "str \<noteq> 0" and "cstring (mem s) str cs"
  shows "\<exists>t. uart_puts dev str s = Some (s\<lparr>ports := ports s @ t\<rparr>) \<and> sent t = cs \<and> paced t"
proof -
  have "puts_loop dev str s = putc_all dev cs s"
    using assms(4) uart_putc_io by (intro puts_loop_all) (auto simp: io_only_def)
  then show ?thesis using putc_all_sends [OF assms(1,2), of cs] assms(2,3) by (simp add: uart_puts_def)
qed

section \<open>Properties\<close>

text \<open>C20: \<open>uart_puts\<close> on a device that gets ready again and again returns after sending exactly the bytes of the string, in
  order, each right after the status port said that the transmitter is empty.\<close>

theorem uart_puts_sends:
  assumes "sending_device dev" and "uart_enabled s" and "str \<noteq> 0" and "cstring (mem s) str cs"
  shows "\<exists>t. uart_puts dev str s = Some (s\<lparr>ports := ports s @ t\<rparr>) \<and> sent t = cs \<and> paced t"
  using assms by (rule uart_puts_text)

text \<open>A device that is ready at every third status read.\<close>

definition slow_device :: device where
  "slow_device t p = (if length t mod 3 = 2 then 0x60 else 0)"

lemma slow_device: "sending_device slow_device"
proof -
  have len: "length (polls slow_device t k) = length t + k" for t k
    by (induction k arbitrary: t) simp_all
  have "\<exists>k. (length t + k) mod 3 = 2" for t :: "port_event list"
    by (rule exI [of _ "2 * (length t + 1)"]) presburger
  then show ?thesis by (auto simp: sending_device_def slow_device_def len)
qed

theorem uart_puts_sends_witness:
  "\<exists>t. uart_puts slow_device 100 \<lparr>mem = (\<lambda>_. 0)(100 := 0x48, 101 := 0x69), ports = [], uart_enabled = True\<rparr>
     = Some \<lparr>mem = (\<lambda>_. 0)(100 := 0x48, 101 := 0x69), ports = t, uart_enabled = True\<rparr> \<and> sent t = [0x48, 0x69] \<and> paced t"
  using uart_puts_sends [OF slow_device, of "\<lparr>mem = (\<lambda>_. 0)(100 := 0x48, 101 := 0x69), ports = [], uart_enabled = True\<rparr>" 100 "[0x48, 0x69]"]
  by (simp add: cstring_def less_Suc_eq)

end
