(* ===== verification/Multiboot.thy ===== *)
theory Multiboot
  imports KString
begin

text \<open>
  \<open>src/src/kernel/core/multiboot.c\<close> and \<open>src/src/include/kernel/multiboot.h\<close>: the Multiboot2 header of
  the kernel image and the search for a tag in the information block a loader hands over.
\<close>

section \<open>Words in memory\<close>

definition rd32 :: "kmem \<Rightarrow> nat \<Rightarrow> u32" where
  "rd32 mem p = ucast (mem p) OR push_bit 8 (ucast (mem (p + 1))) OR push_bit 16 (ucast (mem (p + 2)))
     OR push_bit 24 (ucast (mem (p + 3)))"

definition rd64 :: "kmem \<Rightarrow> nat \<Rightarrow> u64" where
  "rd64 mem p = ucast (rd32 mem p) OR push_bit 32 (ucast (rd32 mem (p + 4)))"

definition wr32 :: "nat \<Rightarrow> u32 \<Rightarrow> kmem \<Rightarrow> kmem" where
  "wr32 p v mem = mem(p := ucast v, p + 1 := ucast (drop_bit 8 v), p + 2 := ucast (drop_bit 16 v), p + 3 := ucast (drop_bit 24 v))"

section \<open>The information block\<close>

datatype multiboot_info_tag_type =
    MBI_END | MBI_CMD_LINE | MBI_LOADER_NAME | MBI_MODULES | MBI_BASIC_MEM | MBI_BIOS_BOOT_DEV | MBI_MEMORY_MAP
  | MBI_VBE_INFO | MBI_FRAMEBUFFER | MBI_ELF_SYMBOLS | MBI_APM | MBI_EFI_ST_32 | MBI_EFI_ST_64 | MBI_SMBIOS
  | MBI_ACPI_10 | MBI_ACPI_20 | MBI_NET | MBI_EFI_MEMORY_MAP | MBI_NO_EXIT_BOOT_SVCS | MBI_IMG_HND_32
  | MBI_IMG_HND_64 | MBI_IMG_LOAD_BASE

fun tag_code :: "multiboot_info_tag_type \<Rightarrow> u32" where
  "tag_code MBI_END = 0" | "tag_code MBI_CMD_LINE = 1" | "tag_code MBI_LOADER_NAME = 2" | "tag_code MBI_MODULES = 3"
| "tag_code MBI_BASIC_MEM = 4" | "tag_code MBI_BIOS_BOOT_DEV = 5" | "tag_code MBI_MEMORY_MAP = 6"
| "tag_code MBI_VBE_INFO = 7" | "tag_code MBI_FRAMEBUFFER = 8" | "tag_code MBI_ELF_SYMBOLS = 9" | "tag_code MBI_APM = 10"
| "tag_code MBI_EFI_ST_32 = 11" | "tag_code MBI_EFI_ST_64 = 12" | "tag_code MBI_SMBIOS = 13" | "tag_code MBI_ACPI_10 = 14"
| "tag_code MBI_ACPI_20 = 15" | "tag_code MBI_NET = 16" | "tag_code MBI_EFI_MEMORY_MAP = 17"
| "tag_code MBI_NO_EXIT_BOOT_SVCS = 18" | "tag_code MBI_IMG_HND_32 = 19" | "tag_code MBI_IMG_HND_64 = 20"
| "tag_code MBI_IMG_LOAD_BASE = 21"

text \<open>A tag header at \<open>p\<close>: its type at offset 0, its size at offset 4.\<close>

definition tag_type :: "kmem \<Rightarrow> nat \<Rightarrow> u32" where
  "tag_type mem p = rd32 mem p"

definition tag_size :: "kmem \<Rightarrow> nat \<Rightarrow> u32" where
  "tag_size mem p = rd32 mem (p + 4)"

text \<open>The address 0 is the null pointer. \<open>total_size\<close> is the first word of the block.\<close>

partial_function (option) seek_loop :: "kmem \<Rightarrow> u32 \<Rightarrow> nat \<Rightarrow> nat \<Rightarrow> nat option" where
  "seek_loop mem of_type head p =
     (if p < head + unat (rd32 mem head) then
        if of_type \<noteq> tag_type mem p then seek_loop mem of_type head (p + unat (tag_size mem p)) else Some p
      else Some 0)"

definition multiboot2_seek_tag :: "kmem \<Rightarrow> multiboot_info_tag_type \<Rightarrow> nat \<Rightarrow> nat option" where
  "multiboot2_seek_tag mem of_type head = (if head = 0 then Some 0 else seek_loop mem (tag_code of_type) head (head + 8))"

section \<open>The kernel's header\<close>

definition MULTIBOOT_MAGIC_HEADER :: u32 where
  "MULTIBOOT_MAGIC_HEADER = 0xe85250d6"

definition MULTIBOOT_INFO_MAGIC :: u64 where
  "MULTIBOOT_INFO_MAGIC = 0x36d76289"

record crows_multiboot2_header =
  magic :: u32
  architecture :: u32
  header_length :: u32
  checksum :: u32
  req_type :: u16
  req_flags :: u16
  req_size :: u32
  requested_info_tag_types :: "u32 list"

definition multiboot2_header :: crows_multiboot2_header where
  "multiboot2_header =
     \<lparr>magic = MULTIBOOT_MAGIC_HEADER, architecture = 0, header_length = 44,
      checksum = of_int (0x100000000 - (0 + 44 + 0xe85250d6)),
      req_type = 1, req_flags = 0, req_size = 8 + 5 * 4,
      requested_info_tag_types = map tag_code [MBI_CMD_LINE, MBI_LOADER_NAME, MBI_FRAMEBUFFER, MBI_MEMORY_MAP, MBI_EFI_ST_64]\<rparr>"

section \<open>The tags of a block\<close>

text \<open>The positions the search visits: the first tag, and after each tag the position its size leads to.\<close>

inductive tag_at :: "kmem \<Rightarrow> nat \<Rightarrow> nat \<Rightarrow> bool" for mem head where
  first: "head + 8 < head + unat (rd32 mem head) \<Longrightarrow> tag_at mem head (head + 8)"
| following: "tag_at mem head p \<Longrightarrow> p + unat (tag_size mem p) < head + unat (rd32 mem head) \<Longrightarrow>
    tag_at mem head (p + unat (tag_size mem p))"

inductive_simps tag_at_first: "tag_at mem head (head + 8)"

text \<open>No tag of the block is empty.\<close>

definition sized_tags :: "kmem \<Rightarrow> nat \<Rightarrow> bool" where
  "sized_tags mem head \<longleftrightarrow> (\<forall>p. tag_at mem head p \<longrightarrow> 0 < tag_size mem p)"

lemma tag_at_le: "tag_at mem head p \<Longrightarrow> head + 8 \<le> p \<and> p < head + unat (rd32 mem head)"
  by (induction rule: tag_at.induct) auto

text \<open>The visited positions follow one another: none lies inside another tag.\<close>

lemma tag_at_chain:
  assumes "sized_tags mem head"
  shows "tag_at mem head p \<Longrightarrow> tag_at mem head q \<Longrightarrow> p < q \<Longrightarrow> p + unat (tag_size mem p) \<le> q"
proof (induction "p + q" arbitrary: p q rule: less_induct)
  case less
  from less.prems(2) show ?case
  proof cases
    case first
    then show ?thesis using tag_at_le [OF less.prems(1)] less.prems(3) by simp
  next
    case (following q')
    have "0 < unat (tag_size mem q')"
      using assms following(2) by (simp add: sized_tags_def unat_gt_0 word_gt_0)
    then have q': "q' < q" using following(1) by simp
    consider "p < q'" | "p = q'" | "q' < p" by linarith
    then show ?thesis
    proof cases
      case 1
      then show ?thesis using less.hyps [OF _ less.prems(1) following(2)] q' by simp
    next
      case 2
      then show ?thesis using following(1) by simp
    next
      case 3
      then show ?thesis using less.hyps [OF _ following(2) less.prems(1)] q' following(1) less.prems(3) by simp
    qed
  qed
qed

lemma seek_loop_finds:
  assumes sized: "sized_tags mem head"
  shows "(p < head + unat (rd32 mem head) \<longrightarrow> tag_at mem head p) \<Longrightarrow>
    \<exists>r. seek_loop mem t head p = Some r \<and> (r \<noteq> 0 \<longrightarrow> tag_at mem head r \<and> tag_type mem r = t)
      \<and> (\<forall>q. tag_at mem head q \<and> p \<le> q \<and> tag_type mem q = t \<longrightarrow> 0 < r \<and> r \<le> q)"
proof (induction "head + unat (rd32 mem head) - p" arbitrary: p rule: less_induct)
  case less
  show ?case
  proof (cases "p < head + unat (rd32 mem head)")
    case False
    then show ?thesis using tag_at_le by (subst seek_loop.simps) fastforce
  next
    case True
    with less.prems have p: "tag_at mem head p" by simp
    show ?thesis
    proof (cases "t = tag_type mem p")
      case eq: True
      have "0 < p" using tag_at_le [OF p] by simp
      then show ?thesis using True eq p by (subst seek_loop.simps) auto
    next
      case False
      have pos: "0 < unat (tag_size mem p)" using sized p by (simp add: sized_tags_def unat_gt_0 word_gt_0)
      have "\<exists>r. seek_loop mem t head (p + unat (tag_size mem p)) = Some r \<and> (r \<noteq> 0 \<longrightarrow> tag_at mem head r \<and> tag_type mem r = t)
        \<and> (\<forall>q. tag_at mem head q \<and> p + unat (tag_size mem p) \<le> q \<and> tag_type mem q = t \<longrightarrow> 0 < r \<and> r \<le> q)"
        using True pos tag_at.following [OF p] by (intro less.hyps) auto
      then obtain r where r: "seek_loop mem t head (p + unat (tag_size mem p)) = Some r" "r \<noteq> 0 \<longrightarrow> tag_at mem head r \<and> tag_type mem r = t"
        and least: "\<And>q. tag_at mem head q \<Longrightarrow> p + unat (tag_size mem p) \<le> q \<Longrightarrow> tag_type mem q = t \<Longrightarrow> 0 < r \<and> r \<le> q" by blast
      have "0 < r \<and> r \<le> q" if "tag_at mem head q" "p \<le> q" "tag_type mem q = t" for q
        using least [OF that(1) _ that(3)] tag_at_chain [OF sized p that(1)] that False by (cases "p = q") auto
      then show ?thesis using True False r by (subst seek_loop.simps) auto
    qed
  qed
qed

lemma seek_loop_diverges:
  assumes "p < head + unat (rd32 mem head)" and "t \<noteq> tag_type mem p" and "tag_size mem p = 0"
  shows "seek_loop mem t head p = None"
proof (rule ccontr)
  assume "seek_loop mem t head p \<noteq> None"
  then obtain r where some: "seek_loop mem t head p = Some r" by blast
  have "\<not> (mem = mem \<and> t = t \<and> head = head \<and> p = p)"
  proof (rule seek_loop.raw_induct [where P = "\<lambda>mem' t' head' p' r. \<not> (mem' = mem \<and> t' = t \<and> head' = head \<and> p' = p)", OF _ some])
    fix f mem' t' head' p' r
    assume IH: "\<And>mem' t' head' p' r. f mem' t' head' p' = Some r \<Longrightarrow> \<not> (mem' = mem \<and> t' = t \<and> head' = head \<and> p' = p)"
      and body: "(if p' < head' + unat (rd32 mem' head') then
        if t' \<noteq> tag_type mem' p' then f mem' t' head' (p' + unat (tag_size mem' p')) else Some p' else Some 0) = Some r"
    show "\<not> (mem' = mem \<and> t' = t \<and> head' = head \<and> p' = p)"
      using body IH [of mem t head p r] assms by (auto split: if_splits)
  qed
  then show False by simp
qed

section \<open>Properties\<close>

text \<open>C21: If no tag of the block is empty, the search returns: the first of the tags it visits that has the wanted type, or
  null if none has.\<close>

theorem multiboot2_seek_tag_first:
  assumes "head \<noteq> 0" and "sized_tags mem head"
  shows "\<exists>r. multiboot2_seek_tag mem ty head = Some r
    \<and> (r = 0 \<and> (\<forall>q. tag_at mem head q \<longrightarrow> tag_type mem q \<noteq> tag_code ty)
       \<or> tag_at mem head r \<and> tag_type mem r = tag_code ty \<and> (\<forall>q. tag_at mem head q \<and> tag_type mem q = tag_code ty \<longrightarrow> r \<le> q))"
  using seek_loop_finds [OF assms(2), of "head + 8" "tag_code ty"] tag_at.first tag_at_le assms(1)
  by (fastforce simp: multiboot2_seek_tag_def)

definition block_mem :: "nat \<Rightarrow> bytes \<Rightarrow> kmem" where
  "block_mem a xs = write_bytes a xs (\<lambda>_. 0)"

definition one_tag_block :: bytes where
  "one_tag_block = [24, 0, 0, 0, 0, 0, 0, 0, 6, 0, 0, 0, 16, 0, 0, 0, 24, 0, 0, 0, 0, 0, 0, 0]"

lemma one_tag_block:
  "unat (rd32 (block_mem 100 one_tag_block) 100) = 24" "tag_size (block_mem 100 one_tag_block) 108 = 16"
  "tag_type (block_mem 100 one_tag_block) 108 = 6"
  by (simp_all add: block_mem_def one_tag_block_def write_bytes_def rd32_def tag_type_def tag_size_def)

lemma one_tag_block_tags: "tag_at (block_mem 100 one_tag_block) 100 p \<Longrightarrow> p = 108"
  by (induction rule: tag_at.induct) (simp_all add: one_tag_block)

theorem multiboot2_seek_tag_first_witness:
  "multiboot2_seek_tag (block_mem 100 one_tag_block) MBI_MEMORY_MAP 100 = Some 108"
proof -
  let ?mem = "block_mem 100 one_tag_block"
  have at: "tag_at ?mem 100 108" using tag_at.first [of 100 ?mem] by (simp add: one_tag_block)
  have sized: "sized_tags ?mem 100"
    by (auto simp: sized_tags_def dest!: one_tag_block_tags simp: one_tag_block)
  have "(100 :: nat) \<noteq> 0" by simp
  from multiboot2_seek_tag_first [OF this sized, of MBI_MEMORY_MAP]
  obtain r where r: "multiboot2_seek_tag ?mem MBI_MEMORY_MAP 100 = Some r"
    and found: "r = 0 \<and> (\<forall>q. tag_at ?mem 100 q \<longrightarrow> tag_type ?mem q \<noteq> tag_code MBI_MEMORY_MAP) \<or> tag_at ?mem 100 r"
    by blast
  have "tag_type ?mem 108 = tag_code MBI_MEMORY_MAP" by (simp add: one_tag_block)
  then have "tag_at ?mem 100 r" using found at by blast
  then have "r = 108" by (rule one_tag_block_tags)
  then show ?thesis using r by simp
qed

text \<open>An empty tag of another type at the head of the block makes the search loop for ever.\<close>

theorem multiboot2_seek_tag_diverges:
  assumes "head \<noteq> 0" and "8 < rd32 mem head" and "tag_type mem (head + 8) \<noteq> tag_code ty" and "tag_size mem (head + 8) = 0"
  shows "multiboot2_seek_tag mem ty head = None"
  using seek_loop_diverges [of "head + 8" head mem "tag_code ty"] assms
  by (simp add: multiboot2_seek_tag_def word_less_nat_alt)

theorem multiboot2_seek_tag_diverges_witness:
  "multiboot2_seek_tag (block_mem 100 [16, 0, 0, 0, 0, 0, 0, 0, 0, 0, 0, 0, 0, 0, 0, 0]) MBI_MEMORY_MAP 100 = None"
  by (rule multiboot2_seek_tag_diverges)
     (simp_all add: block_mem_def write_bytes_def rd32_def tag_type_def tag_size_def)

text \<open>The search does not skip the padding between tags. In a block with a command line tag of 13 bytes, padded to the next
  multiple of 8 as loaders do, followed by a memory map tag, the memory map is not found.\<close>

definition padded_block :: bytes where
  "padded_block =
     [48, 0, 0, 0, 0, 0, 0, 0,
      1, 0, 0, 0, 13, 0, 0, 0, 0x71, 0x75, 0x69, 0x74, 0, 0, 0, 0,
      6, 0, 0, 0, 16, 0, 0, 0, 24, 0, 0, 0, 0, 0, 0, 0,
      0, 0, 0, 0, 8, 0, 0, 0]"

theorem multiboot2_padding_missed:
  "tag_type (block_mem 104 padded_block) (104 + 24) = tag_code MBI_MEMORY_MAP
   \<and> multiboot2_seek_tag (block_mem 104 padded_block) MBI_MEMORY_MAP 104 = Some 0"
  by (simp add: multiboot2_seek_tag_def seek_loop.simps block_mem_def padded_block_def write_bytes_def rd32_def tag_type_def tag_size_def)

text \<open>The header in the kernel image adds up to 0 as Multiboot2 demands, asks for the five tags, and is as long as it says. It ends
  with the information request: there is no room for an end tag.\<close>

theorem multiboot2_header_wf:
  "magic multiboot2_header + architecture multiboot2_header + header_length multiboot2_header + checksum multiboot2_header = 0
   \<and> unat (req_size multiboot2_header) = 8 + 4 * length (requested_info_tag_types multiboot2_header)
   \<and> requested_info_tag_types multiboot2_header = [1, 2, 8, 6, 12]
   \<and> header_length multiboot2_header = 16 + req_size multiboot2_header"
  by (simp add: multiboot2_header_def MULTIBOOT_MAGIC_HEADER_def)

end
