(* ===== verification/Kernel.thy ===== *)
theory Kernel
  imports Uart Multiboot
begin

text \<open>
  \<open>src/src/kernel/core/main.c\<close>: the kernel's entry point \<open>kmain\<close> and \<open>kinit\<close>, which finds a memory hole for early
  allocations. The addresses of the local buffers and the frame of \<open>snprintf\<close> are parameters, and so is everything the
  code reads before writing it. \<open>None\<close> is a run that does not return.
\<close>

record crows_context =
  memory_map :: nat
  kmem_base :: u64
  kmem_len :: u64

definition ascii :: "string \<Rightarrow> bytes" where
  "ascii s = map of_char s"

abbreviation "crlf \<equiv> [0x0d, 0x0a] :: bytes"

text \<open>The loop \<open>for (i = 0; i < strlen(line); ++i) line[i] = 0\<close>.\<close>

partial_function (option) clear_loop :: "nat \<Rightarrow> nat \<Rightarrow> kmem \<Rightarrow> kmem option" where
  "clear_loop line i m =
     (case strlen m line of None \<Rightarrow> None
      | Some len \<Rightarrow> if i < len then clear_loop line (i + 1) (m(line + i := 0)) else Some m)"

text \<open>The fields of a memory map entry at \<open>p\<close>.\<close>

definition entry_Base :: "kmem \<Rightarrow> nat \<Rightarrow> u64" where "entry_Base m p = rd64 m p"
definition entry_Length :: "kmem \<Rightarrow> nat \<Rightarrow> u64" where "entry_Length m p = rd64 m (p + 8)"
definition entry_Type :: "kmem \<Rightarrow> nat \<Rightarrow> u32" where "entry_Type m p = rd32 m (p + 16)"

definition EntrySize :: "kmem \<Rightarrow> nat \<Rightarrow> u32" where "EntrySize m mem_map = rd32 m (mem_map + 8)"

text \<open>The end of the loop body: take the entry for the pool unless there is one or it does not do.\<close>

definition consider_entry :: "nat \<Rightarrow> crows_context \<Rightarrow> machine \<Rightarrow> crows_context \<times> machine" where
  "consider_entry p ctx s =
     (if kmem_base ctx \<noteq> 0 then (ctx, s)
      else if entry_Base (mem s) p < 0x200000 \<or> 1 \<noteq> entry_Type (mem s) p then (ctx, s)
      else if entry_Length (mem s) p < 0x100000 then (ctx, s)
      else (ctx\<lparr>kmem_base := entry_Base (mem s) p, kmem_len := entry_Length (mem s) p\<rparr>,
            s\<lparr>mem := wr32 (p + 16) 2 (mem s)\<rparr>))"

partial_function (option) kinit_loop ::
    "device \<Rightarrow> frame \<Rightarrow> nat \<Rightarrow> nat \<Rightarrow> nat \<Rightarrow> crows_context \<Rightarrow> machine \<Rightarrow> (crows_context \<times> machine) option" where
  "kinit_loop dev fr line mem_map p ctx s =
     (if p < mem_map + unat (tag_size (mem s) mem_map) then
        case clear_loop line 0 (mem s) of None \<Rightarrow> None
        | Some m \<Rightarrow>
         (case snprintf fr line 256 (ascii ''   Base 0x%X -- Length 0x%X -- Type %d'' @ crlf @ [0])
                 [entry_Base m p, entry_Length m p, ucast (entry_Type m p)] m of None \<Rightarrow> None
          | Some (_, m) \<Rightarrow>
           (case uart_puts dev line (s\<lparr>mem := m\<rparr>) of None \<Rightarrow> None
            | Some s \<Rightarrow>
               let (ctx, s) = consider_entry p ctx s
               in kinit_loop dev fr line mem_map (p + unat (EntrySize (mem s) mem_map)) ctx s))
      else Some (ctx, s))"

definition kinit ::
    "device \<Rightarrow> frame \<Rightarrow> nat \<Rightarrow> crows_context \<Rightarrow> nat \<Rightarrow> machine \<Rightarrow> (int \<times> crows_context \<times> machine) option" where
  "kinit dev fr memmap_line ctx info_tag s =
     (if info_tag = 0 then Some (- 1, ctx, s)
      else case multiboot2_seek_tag (mem s) MBI_MEMORY_MAP info_tag of None \<Rightarrow> None
       | Some mem_map \<Rightarrow>
          if mem_map = 0
          then map_option (\<lambda>s. (- 1, ctx, s)) (uart_puts_lit dev (ascii ''Missing Multiboot2 Memory Map.'' @ crlf) s)
          else
          let ctx = ctx\<lparr>memory_map := mem_map\<rparr>
          in if EntrySize (mem s) mem_map = 0 then None
          else case snprintf fr memmap_line 256
                 (ascii ''Iterating Memory Map provided by Multiboot2 (%u bytes, %u entries).'' @ crlf @ [0])
                 [ucast (tag_size (mem s) mem_map), ucast (tag_size (mem s) mem_map div EntrySize (mem s) mem_map)]
                 (mem s) of None \<Rightarrow> None
          | Some (_, m) \<Rightarrow>
           (case uart_puts dev memmap_line (s\<lparr>mem := m\<rparr>) of None \<Rightarrow> None
            | Some s \<Rightarrow>
             (case kinit_loop dev fr memmap_line mem_map (mem_map + 16) ctx s of None \<Rightarrow> None
              | Some (ctx, s) \<Rightarrow>
                 if kmem_base ctx = 0
                 then map_option (\<lambda>s. (- 1, ctx, s))
                        (uart_puts_lit dev (ascii ''Cannot find a suitable temporary memory hole (>=2MiB @1MiB).'') s)
                 else
                 let into = unat (kmem_base ctx)
                 in case snprintf fr into (sint (ucast (kmem_len ctx) :: u32))
                        (ascii ''Using temporary memory hole at '' @ [0x27] @ ascii ''0x%X'' @ [0x27] @ ascii ''.'' @ crlf @ [0])
                        [of_nat into] (mem s) of None \<Rightarrow> None
                 | Some (_, m) \<Rightarrow>
                    (case uart_puts dev into (s\<lparr>mem := m\<rparr>) of None \<Rightarrow> None
                     | Some s \<Rightarrow> Some (0, ctx, s\<lparr>mem := zero_bytes into (unat (kmem_len ctx)) (mem s)\<rparr>)))))"

definition welcome_msg :: bytes where
  "welcome_msg = crlf @ crlf @ ascii ''Welcome to CrOwS.'' @ crlf @ [0x09] @ ascii ''  CAW CAW CAW!!!'' @ crlf @ crlf"

definition uart_msg :: bytes where
  "uart_msg = ascii ''Crude serial UART driver initialized (duh '' @ [0xf0, 0x9f, 0x98, 0x8e] @ ascii '').'' @ crlf"

definition no_info_msg :: bytes where
  "no_info_msg = ascii ''PANIC:  Multiboot2 Info structure not found. Cannot boot.'' @ crlf"

text \<open>
  \<open>kmain\<close> with the registers it captures, the address of \<open>message\<close> and the uninitialised \<open>kernel_ctx\<close>. 96 is
  \<open>expected_minimum_multiboot_info_size\<close>: headers of 8 bytes for the block, the command line and the loader name, 40
  for the framebuffer, 16 each for the 64-bit pointer and the EFI memory map.
\<close>

definition kmain ::
    "device \<Rightarrow> frame \<Rightarrow> nat \<Rightarrow> nat \<Rightarrow> crows_context \<Rightarrow> u64 \<Rightarrow> u64 \<Rightarrow> machine \<Rightarrow> machine option" where
  "kmain dev fr message memmap_line kernel_ctx rax rbx s =
     (let rax = rax AND ((push_bit 32 1) - 1); rbx = rbx AND ((push_bit 32 1) - 1);
          (_, s) = uart_init s
      in case uart_puts_lit dev welcome_msg s of None \<Rightarrow> None
      | Some s \<Rightarrow>
       (case uart_puts_lit dev uart_msg s of None \<Rightarrow> None
       | Some s \<Rightarrow>
          if MULTIBOOT_INFO_MAGIC \<noteq> rax \<or> rbx = 0 then uart_puts_lit dev no_info_msg s
          else case snprintf fr message 128 (ascii ''Got Multiboot2 info block at physical address 0x%X.'' @ crlf @ [0]) [rbx] (mem s) of
            None \<Rightarrow> None
          | Some (_, m) \<Rightarrow>
           (case uart_puts dev message (s\<lparr>mem := m\<rparr>) of None \<Rightarrow> None
           | Some s \<Rightarrow>
            (case clear_loop message 0 (mem s) of None \<Rightarrow> None
            | Some m \<Rightarrow>
               let s = s\<lparr>mem := m\<rparr>; info_tag = unat rbx
               in if rd32 (mem s) info_tag < 96
                  then uart_puts_lit dev (ascii ''PANIC:  Invalid Multiboot2 Info structure size. Cannot boot.'' @ crlf) s
                  else case kinit dev fr memmap_line kernel_ctx info_tag s of None \<Rightarrow> None
                  | Some (r, _, s) \<Rightarrow>
                     if r < 0 then uart_puts_lit dev (ascii ''PANIC:  Unable to initialize the CrOwS kernel.'' @ crlf) s
                     else Some s))))"

section \<open>Clearing a line\<close>

lemma clear_loop_first:
  assumes "line \<noteq> 0" and "cstring m line cs"
  shows "clear_loop line 0 m = Some (m(line := 0))"
proof (cases "cs = []")
  case True
  have "strlen m line = Some 0" using strlen_cstring [OF assms] True by simp
  moreover have "m(line := 0) = m" using assms(2) True by (auto simp: cstring_def)
  ultimately show ?thesis by (subst clear_loop.simps) simp
next
  case False
  have "strlen (m(line := 0)) line = Some 0"
    using strlen_cstring [OF assms(1), of "m(line := 0)" "[]"] by (simp add: cstring_def)
  then have "clear_loop line 1 (m(line := 0)) = Some (m(line := 0))" by (subst clear_loop.simps) simp
  then show ?thesis using strlen_cstring [OF assms] False by (subst clear_loop.simps) simp
qed

lemma strlen_loop_ge:
  assumes "strlen_loop m a n = Some k"
  shows "n \<le> k \<and> (m a \<noteq> 0 \<longrightarrow> n < k)"
proof (rule strlen_loop.raw_induct [where P = "\<lambda>m a n k. n \<le> k \<and> (m a \<noteq> 0 \<longrightarrow> n < k)", OF _ assms])
  fix f and m :: kmem and a n k :: nat
  assume IH: "\<And>m a n (k :: nat). f m a n = Some k \<Longrightarrow> n \<le> k \<and> (m a \<noteq> 0 \<longrightarrow> n < k)"
    and body: "(if m a \<noteq> 0 then f m (a + 1) (n + 1) else Some n) = Some k"
  show "n \<le> k \<and> (m a \<noteq> 0 \<longrightarrow> n < k)" using body using IH [of m "a + 1" "n + 1" k] by (auto split: if_splits)
qed

lemma clear_loop_result:
  assumes "line \<noteq> 0" and "clear_loop line 0 m = Some m'"
  shows "m' = m(line := 0)"
proof -
  obtain len where len: "strlen m line = Some len"
    using assms(2) by (subst (asm) clear_loop.simps) (auto split: option.splits)
  show ?thesis
  proof (cases "m line = 0")
    case True
    then have "cstring m line []" by (simp add: cstring_def)
    then show ?thesis using clear_loop_first [OF assms(1)] assms(2) by simp
  next
    case False
    then have "0 < len" using len assms(1) strlen_loop_ge [of m line 0 len] by (simp add: strlen_def)
    moreover have "strlen (m(line := 0)) line = Some 0"
      using strlen_cstring [OF assms(1), of "m(line := 0)" "[]"] by (simp add: cstring_def)
    then have "clear_loop line 1 (m(line := 0)) = Some (m(line := 0))" by (subst clear_loop.simps) simp
    ultimately show ?thesis using assms(2) len by (subst (asm) clear_loop.simps) simp
  qed
qed

section \<open>Choosing the pool\<close>

text \<open>The two memories hold the same information block of \<open>n\<close> bytes at \<open>a\<close>; the stack is apart from it.\<close>

definition same_block :: "nat \<Rightarrow> nat \<Rightarrow> kmem \<Rightarrow> kmem \<Rightarrow> bool" where
  "same_block a n m m' \<longleftrightarrow> (\<forall>p. a \<le> p \<and> p < a + n \<longrightarrow> m' p = m p)"

definition stack_apart :: "frame \<Rightarrow> nat \<Rightarrow> nat \<Rightarrow> nat \<Rightarrow> bool" where
  "stack_apart fr line a n \<longleftrightarrow> line \<noteq> 0 \<and> (\<forall>p. a \<le> p \<and> p < a + n \<longrightarrow> \<not> touchable fr line 256 p)"

lemma same_block_trans: "same_block a n m m' \<Longrightarrow> same_block a n m' m'' \<Longrightarrow> same_block a n m m''"
  by (simp add: same_block_def)

lemma rd32_same: "same_block a n m m' \<Longrightarrow> a \<le> p \<Longrightarrow> p + 4 \<le> a + n \<Longrightarrow> rd32 m' p = rd32 m p"
  by (simp add: same_block_def rd32_def)

lemma rd64_same: "same_block a n m m' \<Longrightarrow> a \<le> p \<Longrightarrow> p + 8 \<le> a + n \<Longrightarrow> rd64 m' p = rd64 m p"
  by (simp add: rd64_def rd32_same)

lemma snprintf_same_block:
  assumes "snprintf fr line 256 fmt args m = Some (r, m')" and "stack_apart fr line a n"
  shows "same_block a n m m'"
proof -
  have "confined fr line 256 m m'"
    using snprintf_loop_confined assms(1) by (fastforce simp: snprintf_def)
  then show ?thesis using assms(2) by (auto simp: confined_def same_block_def stack_apart_def)
qed

lemma clear_same_block:
  assumes "clear_loop line 0 m = Some m'" and "stack_apart fr line a n"
  shows "same_block a n m m'"
proof -
  have "line \<noteq> 0" using assms(2) by (simp add: stack_apart_def)
  moreover have "touchable fr line 256 line" by (simp add: touchable_def)
  ultimately show ?thesis
    using clear_loop_result [OF _ assms(1)] assms(2) by (auto simp: same_block_def stack_apart_def)
qed

text \<open>An entry the code takes: a free region from 2 MiB up, of 1 MiB at least.\<close>

definition suitable :: "kmem \<Rightarrow> nat \<Rightarrow> bool" where
  "suitable m p \<longleftrightarrow> 0x200000 \<le> entry_Base m p \<and> entry_Type m p = 1 \<and> 0x100000 \<le> entry_Length m p"

lemma consider_entry_cases:
  "consider_entry p ctx s =
    (if kmem_base ctx = 0 \<and> suitable (mem s) p
     then (ctx\<lparr>kmem_base := entry_Base (mem s) p, kmem_len := entry_Length (mem s) p\<rparr>, s\<lparr>mem := wr32 (p + 16) 2 (mem s)\<rparr>)
     else (ctx, s))"
  by (auto simp: consider_entry_def suitable_def not_less)

lemma kinit_loop_settled:
  assumes "kinit_loop dev fr line mem_map p ctx s = Some r" and "kmem_base ctx \<noteq> 0"
  shows "fst r = ctx"
proof -
  have "kmem_base ctx \<noteq> 0 \<longrightarrow> fst r = ctx"
  proof (rule kinit_loop.raw_induct [where P = "\<lambda>dev fr line mem_map p ctx s r. kmem_base ctx \<noteq> 0 \<longrightarrow> fst r = ctx", OF _ assms(1)])
    fix f dev fr line mem_map p ctx s r
    assume IH: "\<And>dev fr line mem_map p ctx s r. f dev fr line mem_map p ctx s = Some r \<Longrightarrow> kmem_base ctx \<noteq> 0 \<longrightarrow> fst r = ctx"
      and body: "(if p < mem_map + unat (tag_size (mem s) mem_map) then
        case clear_loop line 0 (mem s) of None \<Rightarrow> None
        | Some m \<Rightarrow>
         (case snprintf fr line 256 (ascii ''   Base 0x%X -- Length 0x%X -- Type %d'' @ crlf @ [0])
                 [entry_Base m p, entry_Length m p, ucast (entry_Type m p)] m of None \<Rightarrow> None
          | Some (_, m) \<Rightarrow>
           (case uart_puts dev line (s\<lparr>mem := m\<rparr>) of None \<Rightarrow> None
            | Some s \<Rightarrow>
               let (ctx, s) = consider_entry p ctx s
               in f dev fr line mem_map (p + unat (EntrySize (mem s) mem_map)) ctx s))
      else Some (ctx, s)) = Some r"
    show "kmem_base ctx \<noteq> 0 \<longrightarrow> fst r = ctx"
      using body by (auto simp: consider_entry_cases split: if_splits option.splits dest!: IH)
  qed
  then show ?thesis using assms(2) by blast
qed

text \<open>The loop over a map of \<open>n\<close> whole entries of size \<open>E\<close> inside the block.\<close>

definition map_geometry :: "kmem \<Rightarrow> nat \<Rightarrow> nat \<Rightarrow> nat \<Rightarrow> nat \<Rightarrow> nat \<Rightarrow> bool" where
  "map_geometry m a len mem_map E n \<longleftrightarrow> a \<le> mem_map \<and> 24 \<le> E \<and> unat (EntrySize m mem_map) = E
     \<and> unat (tag_size m mem_map) = 16 + n * E \<and> mem_map + 16 + n * E \<le> a + len"

definition entry_at :: "nat \<Rightarrow> nat \<Rightarrow> nat \<Rightarrow> nat" where
  "entry_at mem_map E k = mem_map + 16 + k * E"

text \<open>What the loop may end with, from entry \<open>k\<close> on, over the contents \<open>m0\<close> of the block.\<close>

definition pool_choice :: "kmem \<Rightarrow> nat \<Rightarrow> nat \<Rightarrow> nat \<Rightarrow> nat \<Rightarrow> crows_context \<Rightarrow> bool" where
  "pool_choice m0 mem_map E n k ctx \<longleftrightarrow>
     (\<exists>j. k \<le> j \<and> j < n \<and> suitable m0 (entry_at mem_map E j)
        \<and> (\<forall>i. k \<le> i \<and> i < j \<longrightarrow> \<not> suitable m0 (entry_at mem_map E i))
        \<and> kmem_base ctx = entry_Base m0 (entry_at mem_map E j) \<and> kmem_len ctx = entry_Length m0 (entry_at mem_map E j))"

lemma entry_inside:
  assumes "map_geometry m0 a len mem_map E n" and "k < n"
  shows "a \<le> entry_at mem_map E k" and "entry_at mem_map E k + 24 \<le> a + len"
proof -
  have "k * E + E \<le> n * E" using assms(2) mult_le_mono1 [of "Suc k" n E] by simp
  then show "a \<le> entry_at mem_map E k" and "entry_at mem_map E k + 24 \<le> a + len"
    using assms(1) by (auto simp: map_geometry_def entry_at_def)
qed

lemma entry_same:
  assumes "same_block a len m0 m" and "map_geometry m0 a len mem_map E n" and "k < n"
  shows "entry_Base m (entry_at mem_map E k) = entry_Base m0 (entry_at mem_map E k)"
    and "entry_Length m (entry_at mem_map E k) = entry_Length m0 (entry_at mem_map E k)"
    and "entry_Type m (entry_at mem_map E k) = entry_Type m0 (entry_at mem_map E k)"
  using entry_inside [OF assms(2,3)] assms(1)
  by (simp_all add: entry_Base_def entry_Length_def entry_Type_def rd64_same rd32_same)

lemma suitable_same:
  assumes "same_block a len m0 m" and "map_geometry m0 a len mem_map E n" and "k < n"
  shows "suitable m (entry_at mem_map E k) = suitable m0 (entry_at mem_map E k)"
  by (simp add: suitable_def entry_same [OF assms])

lemma header_same:
  assumes "same_block a len m0 m" and "map_geometry m0 a len mem_map E n"
  shows "tag_size m mem_map = tag_size m0 mem_map" and "EntrySize m mem_map = EntrySize m0 mem_map"
  using assms by (auto simp: tag_size_def EntrySize_def map_geometry_def intro: rd32_same)

text \<open>One pass of the loop before the entry is considered leaves the block alone.\<close>

lemma kinit_loop_step:
  assumes "kinit_loop dev fr line mem_map p ctx s = Some r" and "p < mem_map + unat (tag_size (mem s) mem_map)"
    and "stack_apart fr line a len"
  shows "\<exists>s'. same_block a len (mem s) (mem s') \<and> kinit_loop dev fr line mem_map
    (p + unat (EntrySize (mem (snd (consider_entry p ctx s'))) mem_map)) (fst (consider_entry p ctx s')) (snd (consider_entry p ctx s')) = Some r"
proof -
  obtain m v m' s' where m: "clear_loop line 0 (mem s) = Some m"
    and m': "snprintf fr line 256 (ascii ''   Base 0x%X -- Length 0x%X -- Type %d'' @ crlf @ [0])
                 [entry_Base m p, entry_Length m p, ucast (entry_Type m p)] m = Some (v, m')"
    and s': "uart_puts dev line (s\<lparr>mem := m'\<rparr>) = Some s'"
    and rest: "kinit_loop dev fr line mem_map (p + unat (EntrySize (mem (snd (consider_entry p ctx s'))) mem_map))
        (fst (consider_entry p ctx s')) (snd (consider_entry p ctx s')) = Some r"
    using assms(1,2) by (subst (asm) kinit_loop.simps) (auto simp: split_beta split: option.splits)
  have "same_block a len (mem s) m'"
    using clear_same_block [OF m assms(3)] snprintf_same_block [OF m' assms(3)] by (rule same_block_trans)
  moreover have "mem s' = m'" using uart_puts_io [OF s'] by (simp add: io_only_def)
  ultimately show ?thesis using rest by blast
qed

lemma kinit_loop_chooses:
  assumes geo: "map_geometry m0 a len mem_map E n" and stack: "stack_apart fr line a len"
  shows "kinit_loop dev fr line mem_map (entry_at mem_map E k) ctx s = Some (ctx', s') \<Longrightarrow> k \<le> n \<Longrightarrow>
    same_block a len m0 (mem s) \<Longrightarrow> kmem_base ctx = 0 \<Longrightarrow> kmem_base ctx' \<noteq> 0 \<Longrightarrow> pool_choice m0 mem_map E n k ctx'"
proof (induction "n - k" arbitrary: k ctx s)
  case 0
  have size: "unat (tag_size (mem s) mem_map) = 16 + n * E"
    using header_same(1) [OF 0(4) geo] geo by (simp add: map_geometry_def)
  have "k = n" using 0 by simp
  then have "ctx' = ctx" using 0(2) size by (subst (asm) kinit_loop.simps) (simp add: entry_at_def)
  then show ?case using 0 by simp
next
  case (Suc d)
  have k: "k < n" using Suc(2) by simp
  have "k * E < n * E" using k geo by (simp add: map_geometry_def)
  then have lt: "entry_at mem_map E k < mem_map + unat (tag_size (mem s) mem_map)"
    using header_same(1) [OF Suc(5) geo] geo by (simp add: map_geometry_def entry_at_def)
  obtain t where t: "same_block a len (mem s) (mem t)"
    and rest: "kinit_loop dev fr line mem_map (entry_at mem_map E k + unat (EntrySize (mem (snd (consider_entry (entry_at mem_map E k) ctx t))) mem_map))
       (fst (consider_entry (entry_at mem_map E k) ctx t)) (snd (consider_entry (entry_at mem_map E k) ctx t)) = Some (ctx', s')"
    using kinit_loop_step [OF Suc(3) lt stack] by blast
  have same: "same_block a len m0 (mem t)" using Suc(5) t by (rule same_block_trans)
  note entry = entry_same [OF same geo k]
  show ?case
  proof (cases "suitable m0 (entry_at mem_map E k)")
    case True
    let ?ctx = "ctx\<lparr>kmem_base := entry_Base m0 (entry_at mem_map E k), kmem_len := entry_Length m0 (entry_at mem_map E k)\<rparr>"
    have "fst (consider_entry (entry_at mem_map E k) ctx t) = ?ctx"
      using True Suc(6) suitable_same [OF same geo k] entry by (simp add: consider_entry_cases)
    moreover have "kmem_base ?ctx \<noteq> 0" using True by (auto simp: suitable_def)
    ultimately have "ctx' = ?ctx" using kinit_loop_settled [OF rest] by simp
    then show ?thesis using True k by (auto simp: pool_choice_def)
  next
    case False
    then have "consider_entry (entry_at mem_map E k) ctx t = (ctx, t)"
      using suitable_same [OF same geo k] by (simp add: consider_entry_cases)
    moreover have "entry_at mem_map E k + unat (EntrySize (mem t) mem_map) = entry_at mem_map E (Suc k)"
      using header_same(2) [OF same geo] geo by (simp add: map_geometry_def entry_at_def)
    ultimately have "pool_choice m0 mem_map E n (Suc k) ctx'"
      using Suc(1) [of "Suc k" ctx t] Suc(2,6,7) rest k same by simp
    then show ?thesis using False
      by (auto simp: pool_choice_def) (metis Suc_leD Suc_leI le_neq_implies_less)
  qed
qed

section \<open>Properties\<close>

text \<open>When \<open>kinit\<close> succeeds, starting with no pool chosen and its stack apart from the information block, the pool is the
  first entry of the memory map that is free, starts at 2 MiB or above and is at least 1 MiB long, and it is filled with
  zeros.\<close>

theorem kinit_pool:
  assumes "kinit dev fr line ctx info s = Some (0, ctx', s')" and "kmem_base ctx = 0"
    and "multiboot2_seek_tag (mem s) MBI_MEMORY_MAP info = Some mem_map" and "map_geometry (mem s) info len mem_map E n"
    and "stack_apart fr line info len"
  shows "pool_choice (mem s) mem_map E n 0 ctx' \<and> (\<forall>i < unat (kmem_len ctx'). mem s' (unat (kmem_base ctx') + i) = 0)"
proof -
  have "\<exists>v m t u. snprintf fr line 256 (ascii ''Iterating Memory Map provided by Multiboot2 (%u bytes, %u entries).'' @ crlf @ [0])
        [ucast (tag_size (mem s) mem_map), ucast (tag_size (mem s) mem_map div EntrySize (mem s) mem_map)] (mem s) = Some (v, m)
      \<and> uart_puts dev line (s\<lparr>mem := m\<rparr>) = Some t
      \<and> kinit_loop dev fr line mem_map (mem_map + 16) (ctx\<lparr>memory_map := mem_map\<rparr>) t = Some (ctx', u) \<and> kmem_base ctx' \<noteq> 0
      \<and> (\<forall>i < unat (kmem_len ctx'). mem s' (unat (kmem_base ctx') + i) = 0)"
    using assms(1,3) by (auto simp: kinit_def Let_def zero_bytes_eq write_bytes_def split: if_splits option.splits)
  then obtain v m t u where m: "snprintf fr line 256 (ascii ''Iterating Memory Map provided by Multiboot2 (%u bytes, %u entries).'' @ crlf @ [0])
        [ucast (tag_size (mem s) mem_map), ucast (tag_size (mem s) mem_map div EntrySize (mem s) mem_map)] (mem s) = Some (v, m)"
    and t: "uart_puts dev line (s\<lparr>mem := m\<rparr>) = Some t"
    and u: "kinit_loop dev fr line mem_map (mem_map + 16) (ctx\<lparr>memory_map := mem_map\<rparr>) t = Some (ctx', u)"
    and base: "kmem_base ctx' \<noteq> 0"
    and w: "(\<forall>i < unat (kmem_len ctx'). mem s' (unat (kmem_base ctx') + i) = 0)" by blast
  have "same_block info len (mem s) (mem t)"
    using snprintf_same_block [OF m assms(5)] uart_puts_io [OF t] by (simp add: io_only_def)
  then have "pool_choice (mem s) mem_map E n 0 ctx'"
    using kinit_loop_chooses [OF assms(4,5), of dev 0 "ctx\<lparr>memory_map := mem_map\<rparr>" t ctx' u] u base assms(2)
    by (simp add: entry_at_def)
  then show ?thesis using w by blast
qed

text \<open>A block with one entry, 1 MiB at 2 MiB, and a machine with the serial port off.\<close>

definition map_block :: bytes where
  "map_block = [48, 0, 0, 0, 0, 0, 0, 0, 6, 0, 0, 0, 40, 0, 0, 0, 24, 0, 0, 0, 0, 0, 0, 0,
     0, 0, 0x20, 0, 0, 0, 0, 0, 0, 0, 0x10, 0, 0, 0, 0, 0, 1, 0, 0, 0, 0, 0, 0, 0]"

definition quiet :: "kmem \<Rightarrow> machine" where
  "quiet m = \<lparr>mem = m, ports = [], uart_enabled = False\<rparr>"

definition kernel_frame :: frame where
  "kernel_frame = \<lparr>hex_as_str = 6000, u_as_str = 6020, d_as_str = 6040, d_at0 = 1\<rparr>"

lemma map_block:
  "multiboot2_seek_tag (block_mem 1000 map_block) MBI_MEMORY_MAP 1000 = Some 1008"
  "map_geometry (block_mem 1000 map_block) 1000 48 1008 24 1"
  "stack_apart kernel_frame 5000 1000 48"
  by (simp_all add: multiboot2_seek_tag_def seek_loop.simps block_mem_def map_block_def write_bytes_def rd32_def tag_type_def
      tag_size_def map_geometry_def EntrySize_def stack_apart_def touchable_def in_locals_def kernel_frame_def)

text \<open>The three lines \<open>kinit\<close> prints for it.\<close>

lemma line_print:
  assumes "supported ts args" and "string_args ts args = {}" and "frame_ok fr str limit" and "m (hex_as_str fr + 16) = 0"
    and "0 \<le> limit" and "fmt = concat (map encode ts) @ [0]"
  shows "\<exists>r m'. snprintf fr str limit fmt args m = Some (r, m') \<and>
    (\<forall>p. \<not> in_locals fr p \<longrightarrow> m' p = write_bytes str (take (nat limit) (render (\<lambda>_. []) ts args)) m p)"
  using snprintf_loop_outcome [OF assms(1) order_refl assms(3), of "\<lambda>_. []" m 0 "[]"] assms
  by (auto simp: memory_ok_def snprintf_def frame_outcome_def agree_def)

lemma cstring_exists:
  assumes "m (a + k) = 0"
  shows "\<exists>cs. cstring m a cs"
proof -
  let ?l = "LEAST k. m (a + k) = 0"
  have "m (a + ?l) = 0" using assms by (rule LeastI)
  moreover have "m (a + i) \<noteq> 0" if "i < ?l" for i using not_less_Least [OF that] .
  ultimately have "cstring m a (map (\<lambda>i. m (a + i)) [0..<?l])" by (auto simp: cstring_def)
  then show ?thesis by blast
qed

definition plain :: "string \<Rightarrow> token list" where
  "plain s = map Text (ascii s)"

definition iterating_ts :: "token list" where
  "iterating_ts = plain ''Iterating Memory Map provided by Multiboot2 ('' @ [TUInt] @ plain '' bytes, '' @ [TUInt] @ plain '' entries).'' @ map Text crlf"

lemma iterating_ts:
  "ascii ''Iterating Memory Map provided by Multiboot2 (%u bytes, %u entries).'' @ crlf @ [0] = concat (map encode iterating_ts) @ [0]"
  "supported iterating_ts [a, b]" "string_args iterating_ts [a, b] = {}"
  by (simp_all add: iterating_ts_def plain_def ascii_def)


definition entry_ts :: "token list" where
  "entry_ts = plain ''   Base 0x'' @ [THex True] @ plain '' -- Length 0x'' @ [THex True] @ plain '' -- Type '' @ [TSInt] @ map Text crlf"

lemma entry_ts:
  "ascii ''   Base 0x%X -- Length 0x%X -- Type %d'' @ crlf @ [0] = concat (map encode entry_ts) @ [0]"
  "supported entry_ts [a, b, 1]" "string_args entry_ts [a, b, c] = {}"
  by (simp_all add: entry_ts_def plain_def ascii_def)

definition hole_ts :: "token list" where
  "hole_ts = plain ''Using temporary memory hole at '' @ [Text 0x27] @ plain ''0x'' @ [THex True] @ [Text 0x27] @ plain ''.'' @ map Text crlf"

lemma hole_ts:
  "ascii ''Using temporary memory hole at '' @ [0x27] @ ascii ''0x%X'' @ [0x27] @ ascii ''.'' @ crlf @ [0] = concat (map encode hole_ts) @ [0]"
  "supported hole_ts [a]" "string_args hole_ts [a] = {}"
  by (simp_all add: hole_ts_def plain_def ascii_def)

lemma iterating_length: "length (render (\<lambda>_. []) iterating_ts [40, 1]) < 255"
  by (simp add: iterating_ts_def plain_def ascii_def number_def dec_digits_def digits.simps)

lemma kernel_frame_ok: "frame_ok kernel_frame 5000 256" "frame_ok kernel_frame 0x200000 0x100000"
  by (simp_all add: frame_ok_def kernel_frame_def in_locals_def)

lemma quiet_puts: "uart_puts dev str (quiet m) = Some (quiet m)"
  by (simp add: uart_puts_def quiet_def)

lemma quiet_simps [simp]: "mem (quiet m) = m" "(quiet m)\<lparr>mem := m'\<rparr> = quiet m'"
  by (simp_all add: quiet_def)

lemma map_block_entry:
  assumes "same_block 1000 48 (block_mem 1000 map_block) m"
  shows "tag_size m 1008 = 40" "EntrySize m 1008 = 24" "entry_Base m 1024 = 0x200000" "entry_Length m 1024 = 0x100000"
    "entry_Type m 1024 = 1"
  using entry_same [OF assms map_block(2), of 0] header_same [OF assms map_block(2)]
  by (simp_all add: entry_at_def entry_Base_def entry_Length_def entry_Type_def EntrySize_def tag_size_def rd64_def rd32_def
      block_mem_def map_block_def write_bytes_def)

lemma kinit_example:
  "\<exists>ctx' m'. kinit dev kernel_frame 5000 \<lparr>memory_map = 0, kmem_base = 0, kmem_len = 0\<rparr> 1000 (quiet (block_mem 1000 map_block))
     = Some (0, ctx', quiet m')"
proof -
  let ?m0 = "block_mem 1000 map_block" and ?S = "\<lambda>_ :: nat. [] :: bytes"
  have zero: "?m0 (hex_as_str kernel_frame + 16) = 0" "?m0 5255 = 0"
    by (simp_all add: block_mem_def kernel_frame_def map_block_def write_bytes_def)
  have out_locals: "\<not> in_locals kernel_frame (hex_as_str kernel_frame + 16)" "\<not> in_locals kernel_frame 5255"
    by (simp_all add: in_locals_def kernel_frame_def)
  obtain r m1 where m1: "snprintf kernel_frame 5000 256 (concat (map encode iterating_ts) @ [0]) [40, 1] ?m0 = Some (r, m1)"
    and w1: "\<And>p. \<not> in_locals kernel_frame p \<Longrightarrow> m1 p = write_bytes 5000 (take 256 (render ?S iterating_ts [40, 1])) ?m0 p"
    using line_print [of iterating_ts "[40, 1]" kernel_frame 5000 256 ?m0] iterating_ts(2,3) kernel_frame_ok(1) zero(1) by auto
  have z1: "m1 (5000 + 255) = 0" "m1 (hex_as_str kernel_frame + 16) = 0"
    using w1 [OF out_locals(1)] w1 [OF out_locals(2)] zero iterating_length
    by (simp_all add: write_bytes_def kernel_frame_def)
  obtain cs where "cstring m1 5000 cs" using cstring_exists [of m1 5000 255, OF z1(1)] by blast
  then have clear: "clear_loop 5000 0 m1 = Some (m1(5000 := 0))" by (simp add: clear_loop_first)
  have b1: "same_block 1000 48 ?m0 m1" by (rule snprintf_same_block [OF m1 map_block(3)])
  have b1': "same_block 1000 48 ?m0 (m1(5000 := 0))" using b1 by (simp add: same_block_def)
  obtain r2 m2 where m2: "snprintf kernel_frame 5000 256 (concat (map encode entry_ts) @ [0]) [0x200000, 0x100000, 1] (m1(5000 := 0)) = Some (r2, m2)"
    and w2: "\<And>p. \<not> in_locals kernel_frame p \<Longrightarrow> m2 p = write_bytes 5000 (take 256 (render ?S entry_ts [0x200000, 0x100000, 1])) (m1(5000 := 0)) p"
    using line_print [of entry_ts "[0x200000, 0x100000, 1]" kernel_frame 5000 256 "m1(5000 := 0)"] entry_ts(2,3) kernel_frame_ok(1) z1(2)
    by (auto simp: kernel_frame_def)
  have z2: "m2 (hex_as_str kernel_frame + 16) = 0"
    using w2 [OF out_locals(1)] z1(2) by (simp add: write_bytes_def kernel_frame_def)
  have b2: "same_block 1000 48 ?m0 m2" using b1' snprintf_same_block [OF m2 map_block(3)] by (rule same_block_trans)
  let ?m3 = "wr32 1040 2 m2"
  have size3: "tag_size ?m3 1008 = 40" "EntrySize ?m3 1008 = 24"
    using map_block_entry(1,2) [OF b2] by (simp_all add: tag_size_def EntrySize_def rd32_def wr32_def)
  obtain r4 m4 where m4: "snprintf kernel_frame 0x200000 0x100000 (concat (map encode hole_ts) @ [0]) [0x200000] ?m3 = Some (r4, m4)"
    using line_print [of hole_ts "[0x200000]" kernel_frame "0x200000" "0x100000" ?m3] hole_ts(2,3) kernel_frame_ok(2) z2
    by (auto simp: kernel_frame_def wr32_def)
  have loop: "kinit_loop dev kernel_frame 5000 1008 1024 ctx (quiet m1) =
      Some (ctx\<lparr>kmem_base := 0x200000, kmem_len := 0x100000\<rparr>, quiet ?m3)" if "kmem_base ctx = 0" for ctx
  proof -
    have "kinit_loop dev kernel_frame 5000 1008 1048 ctx' (quiet ?m3) = Some (ctx', quiet ?m3)" for ctx'
      by (subst kinit_loop.simps) (simp add: size3)
    then show ?thesis
      using that clear m2 map_block_entry [OF b1] map_block_entry [OF b1'] map_block_entry [OF b2] size3
      by (subst kinit_loop.simps)
         (simp add: entry_ts(1) quiet_puts consider_entry_def del: append.simps append_assoc)
  qed
  have seek: "multiboot2_seek_tag ?m0 MBI_MEMORY_MAP 1000 = Some 1008" by (rule map_block(1))
  have "same_block 1000 48 ?m0 ?m0" by (simp add: same_block_def)
  note entry0 = map_block_entry [OF this]
  have "kinit dev kernel_frame 5000 \<lparr>memory_map = 0, kmem_base = 0, kmem_len = 0\<rparr> 1000 (quiet ?m0)
     = Some (0, \<lparr>memory_map = 1008, kmem_base = 0x200000, kmem_len = 0x100000\<rparr>, quiet (zero_bytes 0x200000 0x100000 m4))"
    unfolding kinit_def iterating_ts(1) hole_ts(1)
    using m1 m4 loop by (simp add: seek entry0 quiet_puts Let_def)
  then show ?thesis by blast
qed

theorem kinit_pool_witness:
  "\<exists>ctx' s'. kinit slow_device kernel_frame 5000 \<lparr>memory_map = 0, kmem_base = 0, kmem_len = 0\<rparr> 1000 (quiet (block_mem 1000 map_block))
      = Some (0, ctx', s')
    \<and> kmem_base ctx' = 0x200000 \<and> kmem_len ctx' = 0x100000 \<and> (\<forall>i < 0x100000. mem s' (0x200000 + i) = 0)"
proof -
  obtain ctx' m' where k: "kinit slow_device kernel_frame 5000 \<lparr>memory_map = 0, kmem_base = 0, kmem_len = 0\<rparr> 1000 (quiet (block_mem 1000 map_block))
      = Some (0, ctx', quiet m')"
    using kinit_example by blast
  have "pool_choice (block_mem 1000 map_block) 1008 24 1 0 ctx' \<and> (\<forall>i < unat (kmem_len ctx'). m' (unat (kmem_base ctx') + i) = 0)"
    using kinit_pool [OF k] map_block by simp
  moreover have "same_block 1000 48 (block_mem 1000 map_block) (block_mem 1000 map_block)" by (simp add: same_block_def)
  note map_block_entry [OF this]
  ultimately show ?thesis using k by (auto simp: pool_choice_def entry_at_def)
qed

text \<open>The loop that is to clear a line before it is reused clears its first byte only, and \<open>snprintf\<close> does not terminate what
  it writes: when a line is followed by a shorter one in the same buffer, the serial port sends the shorter line and then the
  rest of the old one.\<close>

theorem reused_line_keeps_tail:
  assumes "sending_device dev" and "uart_enabled s" and "line \<noteq> 0" and "cstring (mem s) line old"
    and "supported ts args" and "string_args ts args = {}" and "frame_ok fr line limit" and "mem s (hex_as_str fr + 16) = 0"
    and "new = render (\<lambda>_. []) ts args" and "0 \<notin> set new" and "new \<noteq> []" and "length new < length old" and "length old < nat limit"
  shows "\<exists>m r m' t. clear_loop line 0 (mem s) = Some m \<and> snprintf fr line limit (concat (map encode ts) @ [0]) args m = Some (r, m')
    \<and> uart_puts dev line (s\<lparr>mem := m'\<rparr>) = Some (s\<lparr>mem := m', ports := ports s @ t\<rparr>) \<and> sent t = new @ drop (length new) old"
proof -
  let ?m = "(mem s)(line := 0)"
  have z: "?m (hex_as_str fr + 16) = 0" using assms(8) by simp
  have lim: "0 \<le> limit" using assms(13) by linarith
  obtain r m' where m': "snprintf fr line limit (concat (map encode ts) @ [0]) args ?m = Some (r, m')"
    and w: "\<And>p. \<not> in_locals fr p \<Longrightarrow> m' p = write_bytes line (take (nat limit) (render (\<lambda>_. []) ts args)) ?m p"
    using line_print [of ts args fr line limit ?m, OF assms(5-7) z _ refl] lim by blast
  have apart: "\<not> in_locals fr (line + i)" if "i < nat limit" for i
    using assms(7) that by (auto simp: frame_ok_def in_locals_def)
  have txt_at: "m' (line + i) = (new @ drop (length new) old @ [0]) ! i" if "i \<le> length old" for i
    using w [OF apart, of i] that assms(4,9,11-13)
    by (auto simp: write_bytes_def cstring_def nth_append nth_Cons' not_less le_less)
  have "cstring m' line (new @ drop (length new) old)"
    unfolding cstring_def
  proof (intro conjI allI impI)
    fix i assume i: "i < length (new @ drop (length new) old)"
    then show "m' (line + i) = (new @ drop (length new) old) ! i" using txt_at [of i] assms(12) by (auto simp: nth_append)
  next
    show "0 \<notin> set (new @ drop (length new) old)"
      using assms(4,10) by (auto simp: cstring_def dest: in_set_dropD)
  next
    show "m' (line + length (new @ drop (length new) old)) = 0" using txt_at [of "length old"] assms(12) by (simp add: nth_append)
  qed
  then have "\<exists>t. uart_puts dev line (s\<lparr>mem := m'\<rparr>) = Some (s\<lparr>mem := m', ports := ports s @ t\<rparr>) \<and> sent t = new @ drop (length new) old"
    using uart_puts_text [OF assms(1), of "s\<lparr>mem := m'\<rparr>" line] assms(2,3) by fastforce
  then show ?thesis using clear_loop_first [OF assms(3,4)] m' by auto
qed

theorem reused_line_keeps_tail_witness:
  "\<exists>m r m' t. clear_loop 5000 0 (block_mem 5000 [0x61, 0x62, 0x63, 0]) = Some m
    \<and> snprintf kernel_frame 5000 256 [0x7a, 0] [] m = Some (r, m')
    \<and> uart_puts slow_device 5000 \<lparr>mem = m', ports = [], uart_enabled = True\<rparr> = Some \<lparr>mem = m', ports = t, uart_enabled = True\<rparr>
    \<and> sent t = [0x7a, 0x62, 0x63]"
  using reused_line_keeps_tail [OF slow_device, of "\<lparr>mem = block_mem 5000 [0x61, 0x62, 0x63, 0], ports = [], uart_enabled = True\<rparr>"
      5000 "[0x61, 0x62, 0x63]" "[Text 0x7a]" "[]" kernel_frame 256 "[0x7a]"]
  by (simp add: cstring_def block_mem_def write_bytes_def less_Suc_eq kernel_frame_ok) (simp add: kernel_frame_def)

text \<open>Without the Multiboot2 magic number in \<open>eax\<close>, or with a null pointer in \<open>ebx\<close>, the kernel prints its banner and the panic
  message on a working serial port and returns, without reading or writing memory.\<close>

theorem kmain_rejects:
  assumes "sending_device dev" and "rax AND 0xffffffff \<noteq> MULTIBOOT_INFO_MAGIC \<or> rbx AND 0xffffffff = 0"
  shows "\<exists>t. kmain dev fr message line ctx rax rbx s = Some (s\<lparr>ports := ports s @ t, uart_enabled := True\<rparr>)
    \<and> sent t = 0x01 # welcome_msg @ uart_msg @ no_info_msg"
proof -
  let ?s0 = "snd (uart_init s)"
  have mask: "push_bit 32 1 - 1 = (0xffffffff :: u64)" by simp
  have init: "?s0 = s\<lparr>ports := ports s @ [Out (SERIAL_COM1 + 1) 0, Out (SERIAL_COM1 + 3) 0x80, Out (SERIAL_COM1 + 0) 1,
      Out (SERIAL_COM1 + 1) 0, Out (SERIAL_COM1 + 3) 3, Out (SERIAL_COM1 + 2) 0xc7, Out (SERIAL_COM1 + 4) 0x0b], uart_enabled := True\<rparr>"
    by (simp add: uart_init_def outb_def Let_def)
  have puts: "\<exists>t. uart_puts_lit dev cs u = Some (u\<lparr>ports := ports u @ t\<rparr>) \<and> sent t = cs" if "uart_enabled u" for u cs
    using putc_all_sends [OF assms(1) that, of cs] that by (auto simp: uart_puts_lit_def)
  obtain t1 where t1: "uart_puts_lit dev welcome_msg ?s0 = Some (?s0\<lparr>ports := ports ?s0 @ t1\<rparr>)" "sent t1 = welcome_msg"
    using puts [of ?s0] by (auto simp: init)
  obtain t2 where t2: "uart_puts_lit dev uart_msg (?s0\<lparr>ports := ports ?s0 @ t1\<rparr>) = Some (?s0\<lparr>ports := ports ?s0 @ t1 @ t2\<rparr>)" "sent t2 = uart_msg"
    using puts [of "?s0\<lparr>ports := ports ?s0 @ t1\<rparr>" uart_msg] by (auto simp: init)
  obtain t3 where t3: "uart_puts_lit dev no_info_msg (?s0\<lparr>ports := ports ?s0 @ t1 @ t2\<rparr>) = Some (?s0\<lparr>ports := ports ?s0 @ t1 @ t2 @ t3\<rparr>)" "sent t3 = no_info_msg"
    using puts [of "?s0\<lparr>ports := ports ?s0 @ t1 @ t2\<rparr>" no_info_msg] by (auto simp: init)
  have "kmain dev fr message line ctx rax rbx s = Some (?s0\<lparr>ports := ports ?s0 @ t1 @ t2 @ t3\<rparr>)"
    using assms(2) t1(1) t2(1) t3(1) unfolding kmain_def mask by (auto simp: split_beta Let_def)
  then show ?thesis
    using t1(2) t2(2) t3(2) unfolding init
    by (intro exI [of _ "[Out (SERIAL_COM1 + 1) 0, Out (SERIAL_COM1 + 3) 0x80, Out (SERIAL_COM1 + 0) 1, Out (SERIAL_COM1 + 1) 0,
          Out (SERIAL_COM1 + 3) 3, Out (SERIAL_COM1 + 2) 0xc7, Out (SERIAL_COM1 + 4) 0x0b] @ t1 @ t2 @ t3"])
       (simp add: sent_def SERIAL_COM1_def)
qed

theorem kmain_rejects_witness:
  "\<exists>t. kmain slow_device kernel_frame 4000 5000 \<lparr>memory_map = 0, kmem_base = 0, kmem_len = 0\<rparr> 0 1000 (quiet (\<lambda>_. 0))
     = Some \<lparr>mem = (\<lambda>_. 0), ports = t, uart_enabled = True\<rparr> \<and> sent t = 0x01 # welcome_msg @ uart_msg @ no_info_msg"
  using kmain_rejects [OF slow_device, of 0 1000 kernel_frame 4000 5000 "\<lparr>memory_map = 0, kmem_base = 0, kmem_len = 0\<rparr>" "quiet (\<lambda>_. 0)"]
  by (simp add: MULTIBOOT_INFO_MAGIC_def quiet_def)

end
