(* ===== verification/Input.thy ===== *)
theory Input
  imports Efi
begin

text \<open>
  \<open>src/src/boot/mftah_uefi/input.c\<close>: the line editor of the boot loader and the yes/no question built on it. A line
  is a buffer of 16-bit characters in memory. What is printed is not modelled; \<open>None\<close> is \<open>PANIC\<close>, which
  loops for ever, or a keyboard that never delivers a newline.
\<close>

section \<open>The line editor\<close>

text \<open>\<open>InputBuffer[p] = c\<close> and reading it back, for a buffer at the address \<open>InputBuffer\<close>.\<close>

definition put16 :: "u64 \<Rightarrow> nat \<Rightarrow> u16 \<Rightarrow> memory \<Rightarrow> memory" where
  "put16 InputBuffer p c m =
     m(InputBuffer + of_nat (2 * p) := ucast c, InputBuffer + of_nat (2 * p + 1) := ucast (drop_bit 8 c))"

definition get16 :: "u64 \<Rightarrow> nat \<Rightarrow> memory \<Rightarrow> u16" where
  "get16 InputBuffer p m =
     ucast (m (InputBuffer + of_nat (2 * p))) OR push_bit 8 (ucast (m (InputBuffer + of_nat (2 * p + 1))))"

definition SetMem :: "u64 \<Rightarrow> u64 \<Rightarrow> u8 \<Rightarrow> memory \<Rightarrow> memory" where
  "SetMem at n v m = (\<lambda>a. if in_range at n a then v else m a)"

text \<open>The branches on the character of the key that was read, from the newline test on: \<open>None\<close> ends the line.\<close>

definition handle_key :: "u64 \<Rightarrow> u8 \<Rightarrow> u16 \<Rightarrow> u8 \<Rightarrow> memory \<Rightarrow> (u8 \<times> memory) option" where
  "handle_key InputBuffer MaxLength UnicodeChar InputLength m =
     (if UnicodeChar = 0x0a \<or> UnicodeChar = 0x0d then None
      else if UnicodeChar = 0x08 then
        let m = put16 InputBuffer (unat InputLength) 0 m
        in Some (if InputLength > 0 then InputLength - 1 else InputLength, m)
      else if 0x20 \<le> UnicodeChar \<and> UnicodeChar \<le> 0x7e \<and> InputLength < MaxLength then
        Some (InputLength + 1, put16 InputBuffer (unat InputLength) UnicodeChar m)
      else Some (InputLength, m))"

text \<open>The loop. A keystroke delivers its character in the out word; the final status is that of the last \<open>Reset\<close>.\<close>

partial_function (option) key_loop ::
    "firmware \<Rightarrow> u64 \<Rightarrow> u8 \<Rightarrow> u8 \<Rightarrow> 'a uefi_scheme \<Rightarrow> ((efi_status + efi_status \<times> u8) \<times> 'a uefi_scheme) option" where
  "key_loop fw InputBuffer MaxLength InputLength s =
     (let s = service (Input WaitForKey) s; Status = ret fw (calls s)
      in if EFI_ERROR Status then Some (Inl Status, s)
      else let s = service (Input ReadKeyStroke) s; Status = ret fw (calls s); UnicodeChar = ucast (out fw (calls s)) :: u16
      in if Status = EFI_NOT_READY then key_loop fw InputBuffer MaxLength InputLength s
      else if Status = EFI_DEVICE_ERROR then None
      else if Status = EFI_UNSUPPORTED then None
      else if EFI_ERROR Status then Some (Inl Status, s)
      else let s = service (Input ResetConIn) s; Status = ret fw (calls s)
      in if EFI_ERROR Status then Some (Inl Status, s)
      else case handle_key InputBuffer MaxLength UnicodeChar InputLength (ram s) of
        None \<Rightarrow> Some (Inr (Status, InputLength), s)
      | Some (InputLength, m) \<Rightarrow> key_loop fw InputBuffer MaxLength InputLength (s\<lparr>ram := m\<rparr>))"

text \<open>The outcome is the status and the value stored in \<open>*ResultingBufferLength\<close>, if any.\<close>

definition ReadChar16KeyboardInput ::
    "firmware \<Rightarrow> u64 \<Rightarrow> u8 \<Rightarrow> 'a uefi_scheme \<Rightarrow> (efi_status \<times> u8 option \<times> 'a uefi_scheme) option" where
  "ReadChar16KeyboardInput fw InputBuffer MaxLength s =
     (let s = service (Input ResetConIn) s; Status = ret fw (calls s)
      in if EFI_ERROR Status then Some (Status, None, s)
      else let s = s\<lparr>ram := SetMem InputBuffer (2 * (ucast MaxLength + 1)) 0 (ram s)\<rparr>
      in case key_loop fw InputBuffer MaxLength 0 s of None \<Rightarrow> None
       | Some (Inl Status, s) \<Rightarrow> Some (Status, None, s)
       | Some (Inr (Status, InputLength), s) \<Rightarrow>
           Some (Status, Some (InputLength * 2), s\<lparr>ram := put16 InputBuffer (unat MaxLength) 0 (ram s)\<rparr>))"

text \<open>
  \<open>Confirm\<close>, with the address of its two-character buffer. The copy of the prompt is only printed from; the
  indicators are appended to it although \<open>StrDuplicate\<close> made it just big enough for the prompt.
\<close>

definition Confirm :: "firmware \<Rightarrow> u64 \<Rightarrow> u16 list \<Rightarrow> bool \<Rightarrow> 'a uefi_scheme \<Rightarrow> (efi_status \<times> 'a uefi_scheme) option" where
  "Confirm fw UserInput Prompt IsDefaultConfirm s =
     (let s = s\<lparr>ram := SetMem UserInput 4 0 (ram s)\<rparr>;
          ConfirmationIndicators = wstr (if IsDefaultConfirm then '' [Y/n]  '' else '' [y/N]  '');
          s = service (StrDuplicate Prompt) s; FullPrompt = ret fw (calls s);
          s = service (StrCat FullPrompt ConfirmationIndicators) s
      in case ReadChar16KeyboardInput fw UserInput 1 s of None \<Rightarrow> None
       | Some (_, _, s) \<Rightarrow>
          let s = service (FreePool FullPrompt) s; c = get16 UserInput 0 (ram s)
          in Some (if c = 0x59 \<or> c = 0x79 then EFI_SUCCESS
                   else if c = 0x4e \<or> c = 0x6e then EFI_ABORTED
                   else if c = 0 then (if IsDefaultConfirm then EFI_SUCCESS else EFI_ABORTED)
                   else EFI_ABORTED, s))"

section \<open>Characters in the buffer\<close>

text \<open>The buffer does not wrap around the end of memory.\<close>

definition fits :: "u64 \<Rightarrow> nat \<Rightarrow> bool" where
  "fits a n \<longleftrightarrow> unat a + 2 * n \<le> 2 ^ 64"

lemma address_inj:
  assumes "i < 2 ^ 64" and "j < 2 ^ 64"
  shows "a + of_nat i = a + (of_nat j :: u64) \<longleftrightarrow> i = j"
proof
  assume "a + of_nat i = a + (of_nat j :: u64)"
  then have "unat (of_nat i :: u64) = unat (of_nat j :: u64)" by simp
  then show "i = j" using assms by (simp only: unat_of_nat_u64)
qed simp

lemma get16_put16:
  assumes "p < 2 ^ 32" and "q < 2 ^ 32"
  shows "get16 a q (put16 a p c m) = (if p = q then c else get16 a q m)"
proof -
  have bytes: "ucast (ucast c :: u8) OR push_bit 8 (ucast (ucast (drop_bit 8 c) :: u8)) = (c :: u16)"
    by (rule bit_eqI) (auto simp: bit_simps)
  have "a + of_nat i = a + (of_nat j :: u64) \<longleftrightarrow> i = j" if "i < 2 * 2 ^ 32" "j < 2 * 2 ^ 32" for i j
    using that by (intro address_inj) simp_all
  note inj = this
  have "2 * p + 1 \<noteq> 2 * q" "2 * p \<noteq> 2 * q + 1" by presburger+
  then have apart: "a + of_nat (2 * p) = a + (of_nat (2 * q) :: u64) \<longleftrightarrow> p = q"
      "a + of_nat (2 * p + 1) = a + (of_nat (2 * q + 1) :: u64) \<longleftrightarrow> p = q"
      "a + of_nat (2 * p) \<noteq> a + (of_nat (2 * q + 1) :: u64)" "a + of_nat (2 * p + 1) \<noteq> a + (of_nat (2 * q) :: u64)"
      "a + of_nat (2 * p) \<noteq> a + (of_nat (2 * p + 1) :: u64)"
    using assms inj [of "2 * p" "2 * q"] inj [of "2 * p + 1" "2 * q"] inj [of "2 * p" "2 * q + 1"]
      inj [of "2 * p + 1" "2 * q + 1"] inj [of "2 * p" "2 * p + 1"] by simp_all
  show ?thesis
    unfolding get16_def put16_def fun_upd_apply using apart apart [symmetric] bytes by auto
qed

lemma get16_SetMem:
  assumes "2 * p + 1 < n" and "n < 2 ^ 64"
  shows "get16 a p (SetMem a (of_nat n) 0 m) = 0"
proof -
  have "in_range a (of_nat n) (a + of_nat i)" if "i < n" for i
    using that assms(2) by (simp add: in_range_def word_less_nat_alt unat_of_nat_u64)
  from this [of "2 * p"] this [of "2 * p + 1"] assms(1) show ?thesis by (simp add: get16_def SetMem_def)
qed


section \<open>The abstract editor\<close>

text \<open>
  A line is the text typed so far and the character the buffer holds right behind it: 0, or the one erased by the last
  backspace, which the code leaves there.
\<close>

definition printable :: "u16 \<Rightarrow> bool" where
  "printable c \<longleftrightarrow> 0x20 \<le> c \<and> c \<le> 0x7e"

fun edit_key :: "nat \<Rightarrow> u16 list \<times> u16 \<Rightarrow> u16 \<Rightarrow> u16 list \<times> u16" where
  "edit_key cap (xs, j) c =
     (if c = 0x08 then (butlast xs, if xs = [] then 0 else last xs)
      else if printable c \<and> length xs < cap then (xs @ [c], 0)
      else (xs, j))"

definition edit_line :: "nat \<Rightarrow> u16 list \<Rightarrow> u16 list \<times> u16" where
  "edit_line cap ks = foldl (edit_key cap) ([], 0) ks"

definition holds_line :: "u64 \<Rightarrow> nat \<Rightarrow> u16 list \<times> u16 \<Rightarrow> memory \<Rightarrow> bool" where
  "holds_line a cap l m \<longleftrightarrow> length (fst l) \<le> cap \<and> (\<forall>i < length (fst l). get16 a i m = fst l ! i)
     \<and> get16 a (length (fst l)) m = snd l \<and> (\<forall>i. length (fst l) < i \<and> i \<le> cap \<longrightarrow> get16 a i m = 0)"

definition newline :: "u16 \<Rightarrow> bool" where
  "newline c \<longleftrightarrow> c = 0x0a \<or> c = 0x0d"

lemma put16_outside:
  assumes "p \<le> cap" and "cap < 2 ^ 32" and "\<not> in_range a (of_nat (2 * (cap + 1))) x"
  shows "put16 a p c m x = m x"
proof -
  have "in_range a (of_nat (2 * (cap + 1))) (a + of_nat i)" if "i < 2 * (cap + 1)" for i
    using that assms(2) by (simp add: in_range_def word_less_nat_alt unat_of_nat_u64 del: of_nat_add of_nat_mult of_nat_Suc)
  from this [of "2 * p"] this [of "2 * p + 1"] show ?thesis
    using assms by (auto simp: put16_def)
qed

lemma handle_key_edit:
  assumes "holds_line a (unat M) (xs, j) m" and "unat len = length xs" and "\<not> newline c"
  shows "\<exists>len' m'. handle_key a M c len m = Some (len', m') \<and> holds_line a (unat M) (edit_key (unat M) (xs, j) c) m'
    \<and> unat len' = length (fst (edit_key (unat M) (xs, j) c))
    \<and> (\<forall>x. \<not> in_range a (of_nat (2 * (unat M + 1))) x \<longrightarrow> m' x = m x)"
proof -
  have M: "unat M < 2 ^ 8" using unsigned_less [of M, where ?'a = nat] by simp
  have le: "length xs \<le> unat M" using assms(1) by (simp add: holds_line_def)
  have lt: "len < M \<longleftrightarrow> length xs < unat M" by (simp add: word_less_nat_alt assms(2))
  have dec: "unat (len - 1) = length xs - 1" if "0 < len" using that assms(2) by (simp add: unat_minus_one word_gt_0)
  have inc: "unat (len + 1) = length xs + 1" if "length xs < unat M" using that assms(2) M by (simp add: unat_word_ariths)
  have zero: "0 < len \<longleftrightarrow> xs \<noteq> []" by (simp add: word_less_nat_alt assms(2))
  have out: "put16 a (length xs) v m x = m x" if "\<not> in_range a (of_nat (2 * (unat M + 1))) x" for v x
    using put16_outside [OF le _ that] M by simp
  have get: "get16 a i (put16 a (length xs) v m) = (if i = length xs then v else get16 a i m)" if "i \<le> unat M" for i v
    using that le M by (subst get16_put16) auto
  consider (bs) "c = 8" | (char) "c \<noteq> 8" "printable c" "length xs < unat M" | (skip) "c \<noteq> 8" "\<not> (printable c \<and> length xs < unat M)" by blast
  then show ?thesis
  proof cases
    case bs
    let ?m = "put16 a (length xs) 0 m" and ?len = "if len > 0 then len - 1 else len"
    have h: "handle_key a M c len m = Some (?len, ?m)" using bs assms(2) by (simp add: handle_key_def)
    show ?thesis
    proof (cases "xs = []")
      case True
      then show ?thesis using h bs assms get out zero by (simp add: holds_line_def)
    next
      case False
      then obtain ys y where "xs = ys @ [y]" by (cases xs rule: rev_cases) auto
      then have "holds_line a (unat M) (butlast xs, last xs) ?m"
        using assms(1) le get by (auto simp: holds_line_def nth_append)
      then show ?thesis using h bs False zero dec out by simp
    qed
  next
    case char
    have "holds_line a (unat M) (xs @ [c], 0) (put16 a (length xs) c m)"
      using assms(1) char get by (auto simp: holds_line_def nth_append less_Suc_eq)
    then show ?thesis
      using char assms inc out lt by (simp add: handle_key_def newline_def printable_def)
  next
    case skip
    then show ?thesis using assms lt by (auto simp: handle_key_def newline_def printable_def)
  qed
qed


section \<open>A typist\<close>

definition keystrokes :: "efi_call list \<Rightarrow> nat" where
  "keystrokes u = length (filter (\<lambda>c. c = Input ReadKeyStroke) u)"

text \<open>From the call history \<open>cs\<close> on the console works and its keystrokes are \<open>ks\<close>, in order.\<close>

definition typed :: "firmware \<Rightarrow> efi_call list \<Rightarrow> u16 list \<Rightarrow> bool" where
  "typed fw cs ks \<longleftrightarrow> (\<forall>u. ret fw (cs @ u @ [Input ResetConIn]) = EFI_SUCCESS \<and> ret fw (cs @ u @ [Input WaitForKey]) = EFI_SUCCESS
     \<and> ret fw (cs @ u @ [Input ReadKeyStroke]) = EFI_SUCCESS
     \<and> (keystrokes u < length ks \<longrightarrow> ucast (out fw (cs @ u @ [Input ReadKeyStroke])) = ks ! keystrokes u))"

lemma typed_first:
  assumes "typed fw cs ks"
  shows "ret fw (cs @ [Input ResetConIn]) = 0" and "ret fw (cs @ [Input WaitForKey]) = 0"
    and "ret fw (cs @ [Input WaitForKey, Input ReadKeyStroke]) = 0"
    and "ks \<noteq> [] \<Longrightarrow> ucast (out fw (cs @ [Input WaitForKey, Input ReadKeyStroke])) = hd ks"
    and "ret fw (cs @ [Input WaitForKey, Input ReadKeyStroke, Input ResetConIn]) = 0"
proof -
  note all = assms [unfolded typed_def, rule_format]
  show "ret fw (cs @ [Input ResetConIn]) = 0" "ret fw (cs @ [Input WaitForKey]) = 0" using all [of "[]"] by simp_all
  show "ret fw (cs @ [Input WaitForKey, Input ReadKeyStroke]) = 0"
    and "ks \<noteq> [] \<Longrightarrow> ucast (out fw (cs @ [Input WaitForKey, Input ReadKeyStroke])) = hd ks"
    using all [of "[Input WaitForKey]"] by (simp_all add: keystrokes_def hd_conv_nth)
  show "ret fw (cs @ [Input WaitForKey, Input ReadKeyStroke, Input ResetConIn]) = 0"
    using all [of "[Input WaitForKey, Input ReadKeyStroke]"] by simp
qed

lemma typed_next:
  assumes "typed fw cs (k # ks)"
  shows "typed fw (cs @ [Input WaitForKey, Input ReadKeyStroke, Input ResetConIn]) ks"
  unfolding typed_def
proof
  fix u
  show "ret fw ((cs @ [Input WaitForKey, Input ReadKeyStroke, Input ResetConIn]) @ u @ [Input ResetConIn]) = EFI_SUCCESS \<and>
        ret fw ((cs @ [Input WaitForKey, Input ReadKeyStroke, Input ResetConIn]) @ u @ [Input WaitForKey]) = EFI_SUCCESS \<and>
        ret fw ((cs @ [Input WaitForKey, Input ReadKeyStroke, Input ResetConIn]) @ u @ [Input ReadKeyStroke]) = EFI_SUCCESS \<and>
        (keystrokes u < length ks \<longrightarrow>
         ucast (out fw ((cs @ [Input WaitForKey, Input ReadKeyStroke, Input ResetConIn]) @ u @ [Input ReadKeyStroke])) = ks ! keystrokes u)"
    using assms [unfolded typed_def, rule_format, of "[Input WaitForKey, Input ReadKeyStroke, Input ResetConIn] @ u"]
    by (simp add: keystrokes_def)
qed

lemma typed_other:
  assumes "typed fw cs ks" and "c \<noteq> Input ReadKeyStroke"
  shows "typed fw (cs @ [c]) ks"
  unfolding typed_def
proof
  fix u
  show "ret fw ((cs @ [c]) @ u @ [Input ResetConIn]) = EFI_SUCCESS \<and>
      ret fw ((cs @ [c]) @ u @ [Input WaitForKey]) = EFI_SUCCESS \<and>
      ret fw ((cs @ [c]) @ u @ [Input ReadKeyStroke]) = EFI_SUCCESS \<and>
      (keystrokes u < length ks \<longrightarrow> ucast (out fw ((cs @ [c]) @ u @ [Input ReadKeyStroke])) = ks ! keystrokes u)"
    using assms(1) [unfolded typed_def, rule_format, of "c # u"] assms(2) by (simp add: keystrokes_def)
qed

text \<open>The buffer of \<open>cap + 1\<close> characters at \<open>a\<close>; the memory outside of it is the same.\<close>

definition same_outside :: "u64 \<Rightarrow> nat \<Rightarrow> memory \<Rightarrow> memory \<Rightarrow> bool" where
  "same_outside a cap m m' \<longleftrightarrow> (\<forall>x. \<not> in_range a (of_nat (2 * (cap + 1))) x \<longrightarrow> m' x = m x)"

lemma key_loop_typed:
  assumes "typed fw (calls s) (ks @ [nl])" and "newline nl" and "\<forall>c \<in> set ks. \<not> newline c"
    and "holds_line a (unat M) l (ram s)" and "unat len = length (fst l)"
  shows "\<exists>len' s'. key_loop fw a M len s = Some (Inr (0, len'), s') \<and> holds_line a (unat M) (foldl (edit_key (unat M)) l ks) (ram s')
    \<and> unat len' = length (fst (foldl (edit_key (unat M)) l ks)) \<and> same_outside a (unat M) (ram s) (ram s')"
  using assms
proof (induction ks arbitrary: s l len)
  case Nil
  have k: "ucast (out fw (calls s @ [Input WaitForKey, Input ReadKeyStroke])) = nl" using typed_first(4) [OF Nil(1)] by simp
  have "key_loop fw a M len s = Some (Inr (0, len), service (Input ResetConIn) (service (Input ReadKeyStroke) (service (Input WaitForKey) s)))"
    using typed_first [OF Nil(1)] k Nil(2) by (subst key_loop.simps) (simp add: handle_key_def newline_def Let_def)
  then show ?case using Nil(4,5) by (simp add: same_outside_def)
next
  case (Cons c ks)
  let ?s = "service (Input ResetConIn) (service (Input ReadKeyStroke) (service (Input WaitForKey) s))"
  have k: "ucast (out fw (calls s @ [Input WaitForKey, Input ReadKeyStroke])) = c" using typed_first(4) [OF Cons(2)] by simp
  obtain xs j where l: "l = (xs, j)" by (cases l)
  obtain len1 m1 where h: "handle_key a M c len (ram s) = Some (len1, m1)"
    and line: "holds_line a (unat M) (edit_key (unat M) l c) m1" "unat len1 = length (fst (edit_key (unat M) l c))"
    and outside: "same_outside a (unat M) (ram s) m1"
    using handle_key_edit [of a M xs j "ram s" len c] Cons(4,5,6) unfolding l same_outside_def by auto
  have "key_loop fw a M len s = key_loop fw a M len1 (?s\<lparr>ram := m1\<rparr>)"
    using typed_first [OF Cons(2)] k h by (subst key_loop.simps) (simp add: Let_def)
  moreover have "typed fw (calls (?s\<lparr>ram := m1\<rparr>)) (ks @ [nl])" using typed_next [of fw "calls s" c "ks @ [nl]"] Cons(2) by simp
  note Cons.IH [OF this Cons(3), of "edit_key (unat M) l c" len1]
  ultimately show ?case using Cons(4) line outside by (auto simp: same_outside_def)
qed

lemma edit_line_length: "length (fst (edit_line cap ks)) \<le> cap"
proof -
  have "length (fst l) \<le> cap \<Longrightarrow> length (fst (foldl (edit_key cap) l ks)) \<le> cap" for l
  proof (induction ks arbitrary: l)
    case (Cons c ks)
    obtain xs j where "l = (xs, j)" by (cases l)
    then show ?case using Cons by auto
  qed simp
  then show ?thesis by (simp add: edit_line_def)
qed

lemma holds_line_terminated:
  assumes "holds_line a cap l m" and "cap < 2 ^ 32"
  shows "holds_line a cap (if length (fst l) = cap then (fst l, 0) else l) (put16 a cap 0 m)"
  using assms by (auto simp: holds_line_def get16_put16 less_imp_le)

lemma ReadChar16KeyboardInput_line:
  assumes "typed fw (calls s) (ks @ [nl])" and "newline nl" and "\<forall>c \<in> set ks. \<not> newline c"
  shows "\<exists>s'. ReadChar16KeyboardInput fw a M s = Some (0, Some (of_nat (2 * length (fst (edit_line (unat M) ks)))), s')
    \<and> holds_line a (unat M) (if length (fst (edit_line (unat M) ks)) = unat M then (fst (edit_line (unat M) ks), 0)
         else edit_line (unat M) ks) (ram s')
    \<and> same_outside a (unat M) (ram s) (ram s')"
proof -
  let ?n = "2 * (ucast M + 1) :: u64" and ?r = "service (Input ResetConIn) s"
  have M: "unat M < 2 ^ 8" using unsigned_less [of M, where ?'a = nat] by simp
  have n: "?n = of_nat (2 * (unat M + 1))" by simp
  let ?s = "?r\<lparr>ram := SetMem a ?n 0 (ram s)\<rparr>"
  have "holds_line a (unat M) ([], 0) (ram ?s)"
    unfolding n holds_line_def using M by (auto intro!: get16_SetMem simp del: of_nat_mult of_nat_add of_nat_Suc)
  moreover have "typed fw (calls ?s) (ks @ [nl])" using typed_other [OF assms(1)] by simp
  ultimately obtain len' s' where loop: "key_loop fw a M 0 ?s = Some (Inr (0, len'), s')"
    and line: "holds_line a (unat M) (edit_line (unat M) ks) (ram s')" "unat len' = length (fst (edit_line (unat M) ks))"
      "same_outside a (unat M) (ram ?s) (ram s')"
    using key_loop_typed [OF _ assms(2,3), of fw ?s a M "([], 0)" 0] by (auto simp: edit_line_def)
  have len: "len' * 2 = of_nat (2 * length (fst (edit_line (unat M) ks)))"
    using arg_cong [OF line(2), of "of_nat :: nat \<Rightarrow> u8"] by simp
  have "same_outside a (unat M) (ram s) (put16 a (unat M) 0 (ram s'))"
    unfolding same_outside_def
  proof (intro allI impI)
    fix x assume nr: "\<not> in_range a (of_nat (2 * (unat M + 1))) x"
    have "ram ?s x = ram s x" using nr [folded n] by (simp add: SetMem_def)
    then show "put16 a (unat M) 0 (ram s') x = ram s x"
      using line(3) [unfolded same_outside_def, rule_format, OF nr] put16_outside [OF order_refl _ nr] M by simp
  qed
  then show ?thesis
    using holds_line_terminated [OF line(1)] M loop len typed_first(1) [OF assms(1)]
    by (simp add: ReadChar16KeyboardInput_def Let_def)
qed


section \<open>Properties\<close>

text \<open>C26: For keys that end with a newline, the line editor returns the text an ideal editor would hold: printable keys appended up
  to the maximum, a backspace taking the last one away. The length stored is in bytes, modulo 256, and of the memory only the
  buffer of \<open>MaxLength + 1\<close> characters changes, whose characters behind the text are 0 except for one that a last backspace
  erased.\<close>

theorem ReadChar16KeyboardInput_edits:
  assumes "typed fw (calls s) (ks @ [nl])" and "newline nl" and "\<forall>c \<in> set ks. \<not> newline c"
    and "edit_line (unat MaxLength) ks = (chars, erased)"
  shows "\<exists>s'. ReadChar16KeyboardInput fw a MaxLength s = Some (EFI_SUCCESS, Some (of_nat (2 * length chars)), s')
    \<and> length chars \<le> unat MaxLength
    \<and> map (\<lambda>i. get16 a i (ram s')) [0..<unat MaxLength + 1]
      = (if length chars = unat MaxLength then chars @ [0] else chars @ [erased] @ replicate (unat MaxLength - length chars) 0)
    \<and> (\<forall>x. \<not> in_range a (of_nat (2 * (unat MaxLength + 1))) x \<longrightarrow> ram s' x = ram s x)"
proof -
  have le: "length chars \<le> unat MaxLength" using edit_line_length [of "unat MaxLength" ks] assms(4) by simp
  from ReadChar16KeyboardInput_line [OF assms(1-3), of a MaxLength, unfolded assms(4) fst_conv]
  obtain s' where r: "ReadChar16KeyboardInput fw a MaxLength s = Some (0, Some (of_nat (2 * length chars)), s')"
    and line: "holds_line a (unat MaxLength) (if length chars = unat MaxLength then (chars, 0) else (chars, erased)) (ram s')"
    and outside: "same_outside a (unat MaxLength) (ram s) (ram s')"
    by blast
  have "map (\<lambda>i. get16 a i (ram s')) [0..<unat MaxLength + 1]
      = (if length chars = unat MaxLength then chars @ [0] else chars @ [erased] @ replicate (unat MaxLength - length chars) 0)"
    using line le by (intro nth_equalityI) (auto simp: holds_line_def nth_append nth_Cons' not_less simp del: upt_Suc split: if_splits)
  then show ?thesis using r le outside by (auto simp: same_outside_def)
qed

text \<open>A console on which \<open>ks\<close> is typed, and then nothing but newlines.\<close>

definition typing_fw :: "u16 list \<Rightarrow> firmware" where
  "typing_fw ks = \<lparr>ret = \<lambda>t. EFI_SUCCESS, out = \<lambda>t. if keystrokes t \<le> length ks then ucast (ks ! (keystrokes t - 1)) else 0x0d,
     data = \<lambda>t. [], wide = \<lambda>t. [], handles = \<lambda>_ _. 0, map_size = \<lambda>t. 0, desc_size = \<lambda>t. 0, desc_at = \<lambda>t i. \<lparr>PhysicalStart = 0, NumberOfPages = 0\<rparr>,
     private_data_size = 0\<rparr>"

lemma typing_fw: "typed (typing_fw ks) [] ks"
proof -
  have "ucast (ucast k :: u64) = (k :: u16)" for k by (rule bit_eqI) (auto simp: bit_simps)
  then show ?thesis by (auto simp: typed_def typing_fw_def keystrokes_def)
qed

definition blank :: uefi where
  "blank = \<lparr>calls = [], ram = \<lambda>_. 0xff\<rparr>"

theorem ReadChar16KeyboardInput_edits_witness:
  "\<exists>s'. ReadChar16KeyboardInput (typing_fw [0x61, 0x62, 0x63, 0x08, 0x0d]) 1000 4 blank = Some (EFI_SUCCESS, Some 4, s')
    \<and> map (\<lambda>i. get16 1000 i (ram s')) [0..<5] = [0x61, 0x62, 0x63, 0, 0] \<and> ram s' 1010 = 0xff"
proof -
  have u: "unat (4 :: u8) = 4" by simp
  have e: "edit_line 4 [0x61, 0x62, 0x63, 0x08] = ([0x61, 0x62], 0x63)" by (simp add: edit_line_def printable_def)
  have t: "typed (typing_fw [0x61, 0x62, 0x63, 0x08, 0x0d]) (calls blank) ([0x61, 0x62, 0x63, 0x08] @ [0x0d])"
    using typing_fw [of "[0x61, 0x62, 0x63, 0x08, 0x0d]"] by (simp add: blank_def)
  have n: "newline 0x0d" "\<forall>c \<in> set [0x61, 0x62, 0x63, 0x08]. \<not> newline c" by (simp_all add: newline_def)
  from ReadChar16KeyboardInput_edits [OF t n, where MaxLength = 4, unfolded u, OF e, of 1000]
  obtain s' where r: "ReadChar16KeyboardInput (typing_fw [0x61, 0x62, 0x63, 0x08, 0x0d]) 1000 4 blank = Some (EFI_SUCCESS, Some 4, s')"
    and m: "map (\<lambda>i. get16 1000 i (ram s')) [0..<4 + 1] = [0x61, 0x62, 0x63, 0, 0]"
    and o: "\<forall>x. \<not> in_range 1000 (of_nat (2 * (4 + 1))) x \<longrightarrow> ram s' x = ram blank x"
    by (auto simp: numeral_2_eq_2)
  show ?thesis using r m o [rule_format, of 1010] by (auto simp: in_range_def blank_def)
qed

text \<open>An answer that was erased still counts: when a \<open>Y\<close> is typed and taken back before the newline, \<open>Confirm\<close> reports
  consent, also where the default is to refuse.\<close>

theorem Confirm_erased:
  assumes "typed fw (calls s) [c, 0x08, nl]" and "newline nl" and "c = 0x59 \<or> c = 0x79"
  shows "\<exists>s'. Confirm fw UserInput Prompt IsDefaultConfirm s = Some (EFI_SUCCESS, s')"
proof -
  have e: "edit_line (unat (1 :: u8)) [c, 0x08] = ([], c)" using assms(3) by (auto simp: edit_line_def printable_def)
  let ?i = "wstr (if IsDefaultConfirm then '' [Y/n]  '' else '' [y/N]  '')"
  let ?s = "service (StrCat (ret fw (calls s @ [StrDuplicate Prompt])) ?i) (service (StrDuplicate Prompt) (s\<lparr>ram := SetMem UserInput 4 0 (ram s)\<rparr>))"
  have "typed fw (calls ?s) ([c, 0x08] @ [nl])" "\<forall>k \<in> set [c, 0x08]. \<not> newline k"
    using assms typed_other [OF typed_other [OF assms(1)]] by (auto simp: newline_def)
  from ReadChar16KeyboardInput_line [OF this(1) assms(2) this(2), of UserInput 1]
  obtain s' where "ReadChar16KeyboardInput fw UserInput 1 ?s = Some (0, Some 0, s')" "holds_line UserInput 1 ([], c) (ram s')"
    unfolding e by auto
  then show ?thesis using assms(3) by (auto simp: Confirm_def holds_line_def Let_def)
qed

theorem Confirm_erased_witness:
  "\<exists>s'. Confirm (typing_fw [0x79, 0x08, 0x0d]) 1000 (wstr ''Boot?'') False blank = Some (EFI_SUCCESS, s')"
  by (rule Confirm_erased [where c = "0x79" and nl = "0x0d"]) (use typing_fw in \<open>simp_all add: blank_def newline_def\<close>)

end
