(* ===== verification/Step_Interface.thy ===== *)
theory Step_Interface
  imports Main
begin

text \<open>
  The contract of a component that goes from state to state: what it begins with satisfies an invariant, and every step keeps it. The thread pool,
  the race between its operations and the hooks of the library are interpretations.
\<close>

locale step_system =
  fixes begins :: "'s \<Rightarrow> bool" and goes :: "'s \<Rightarrow> 's \<Rightarrow> bool" and inv :: "'s \<Rightarrow> bool"
  assumes begins_inv: "begins s \<Longrightarrow> inv s"
    and goes_inv: "goes s t \<Longrightarrow> inv s \<Longrightarrow> inv t"
begin

lemma keeps: "goes\<^sup>*\<^sup>* s t \<Longrightarrow> inv s \<Longrightarrow> inv t"
  by (induction rule: rtranclp_induct) (auto intro: goes_inv)

lemma reached: "begins s \<Longrightarrow> goes\<^sup>*\<^sup>* s t \<Longrightarrow> inv t"
  by (rule keeps) (auto intro: begins_inv)

end

end
