(* ===== verification/Threading.thy ===== *)
theory Threading
  imports Ramdisk Step_Interface
begin

text \<open>
  \<open>src/src/boot/mftah_uefi/threading.c\<close> and \<open>drivers/threading.h\<close>: the pool of application processors and
  the threads that are given to them. Here every operation runs alone, on the processor that calls it; \<open>ThreadRace\<close>
  interleaves two of them. \<open>None\<close> is a run that does not return: a busy wait that only another processor can end, or \<open>PANIC\<close>.
\<close>

section \<open>Data\<close>

record MFTAH_SYSTEM_MP =
  ProcessorNumber :: u64
  IsBSP :: bool
  IsEnabled :: bool
  IsHealthy :: bool
  IsWorking :: bool

record MFTAH_THREAD =
  AssignedProcessorNumber :: u64
  CompletionEvent :: u64
  Started :: bool
  Finished :: bool
  ExitStatus :: efi_status
  Method :: u64
  Context :: u64

text \<open>
  The static variables, with the list \<open>MpList\<close> points to, and the thread objects by address.
\<close>

record mp_state = rd_state +
  ThreadMutex :: bool
  mEfiMpServicesProtocol :: u64
  BspProcessorNumber :: u64
  MpCount :: u64
  MpListAt :: u64
  MpList :: "MFTAH_SYSTEM_MP list"
  thread_at :: "u64 \<Rightarrow> MFTAH_THREAD option"

text \<open>The bits of \<open>StatusFlag\<close>, of the multiprocessor services specification.\<close>

abbreviation (input) "PROCESSOR_AS_BSP_BIT \<equiv> 0 :: nat"
abbreviation (input) "PROCESSOR_ENABLED_BIT \<equiv> 1 :: nat"
abbreviation (input) "PROCESSOR_HEALTH_STATUS_BIT \<equiv> 2 :: nat"

definition zero_mp :: MFTAH_SYSTEM_MP where
  "zero_mp = \<lparr>ProcessorNumber = 0, IsBSP = False, IsEnabled = False, IsHealthy = False, IsWorking = False\<rparr>"

definition mp_entry :: "u64 \<Rightarrow> nat \<Rightarrow> bool \<Rightarrow> MFTAH_SYSTEM_MP" where
  "mp_entry StatusFlag i working =
     \<lparr>ProcessorNumber = of_nat i, IsBSP = bit StatusFlag PROCESSOR_AS_BSP_BIT, IsEnabled = bit StatusFlag PROCESSOR_ENABLED_BIT,
      IsHealthy = bit StatusFlag PROCESSOR_HEALTH_STATUS_BIT, IsWorking = working\<rparr>"

section \<open>The processors\<close>

text \<open>The loop of \<open>RefreshMPs\<close> over the processors still to ask, filling the new list.\<close>

primrec refresh_entries ::
    "firmware \<Rightarrow> MFTAH_SYSTEM_MP list \<Rightarrow> nat list \<Rightarrow> MFTAH_SYSTEM_MP list \<Rightarrow> 'a uefi_scheme
      \<Rightarrow> (efi_status + MFTAH_SYSTEM_MP list) \<times> 'a uefi_scheme" where
  "refresh_entries fw old [] new s = (Inr new, s)"
| "refresh_entries fw old (i # js) new s =
     (let s = service (Mp (GetProcessorInfo (of_nat i))) s
      in if EFI_ERROR (ret fw (calls s)) then (Inl EFI_ABORTED, s)
         else refresh_entries fw old js (new[i := mp_entry (out fw (calls s)) i (IsWorking (old ! i))]) s)"

definition RefreshMPs :: "firmware \<Rightarrow> 'a mp_state_scheme \<Rightarrow> (efi_status \<times> 'a mp_state_scheme) option" where
  "RefreshMPs fw s =
     (if ThreadMutex s then None
      else
      let s = s\<lparr>ThreadMutex := True\<rparr>;
          s = service (AllocatePool (16 * MpCount s)) s; ListOfSystemMPs = ret fw (calls s)
      in if ListOfSystemMPs = 0 then Some (EFI_OUT_OF_RESOURCES, s\<lparr>ThreadMutex := False\<rparr>)
      else case refresh_entries fw (MpList s) [0..<unat (MpCount s)] (replicate (unat (MpCount s)) zero_mp) s of
        (Inl Status, s) \<Rightarrow> Some (Status, s\<lparr>ThreadMutex := False\<rparr>)
      | (Inr new, s) \<Rightarrow>
          let OldMPsList = MpListAt s;
              s = s\<lparr>MpListAt := ListOfSystemMPs, MpList := new\<rparr>;
              s = service (FreePool OldMPsList) s
          in Some (EFI_SUCCESS, s\<lparr>ThreadMutex := False\<rparr>))"

text \<open>The loop of \<open>InitializeThreading\<close>: a processor that does not exist makes it one shorter.\<close>

function init_loop ::
    "firmware \<Rightarrow> nat \<Rightarrow> nat \<Rightarrow> MFTAH_SYSTEM_MP list \<Rightarrow> 'a uefi_scheme
      \<Rightarrow> (efi_status + nat \<times> MFTAH_SYSTEM_MP list) \<times> 'a uefi_scheme" where
  "init_loop fw i NumberOfProcessors mps s =
     (if i < NumberOfProcessors then
        let s = service (Mp (GetProcessorInfo (of_nat i))) s; Status = ret fw (calls s); StatusFlag = out fw (calls s)
        in if Status = EFI_NOT_FOUND then init_loop fw (i + 1) (NumberOfProcessors - 1) mps s
           else if EFI_ERROR Status then (Inl Status, s)
           else let s = (if bit StatusFlag PROCESSOR_AS_BSP_BIT then s else service (Mp (EnableDisableAP (of_nat i))) s)
             in init_loop fw (i + 1) NumberOfProcessors (mps[i := mp_entry StatusFlag i False]) s
      else (Inr (NumberOfProcessors, mps), s))"
  by pat_completeness auto
termination
  by (relation "measure (\<lambda>(fw, i, n, mps, s). n - i)") auto

declare init_loop.simps [simp del]

definition InitializeThreading :: "firmware \<Rightarrow> 'a mp_state_scheme \<Rightarrow> efi_status \<times> 'a mp_state_scheme" where
  "InitializeThreading fw s =
     (let s = service (LocateProtocol ''mEfiMpServicesProtocolGuid'') s; Status = ret fw (calls s);
          s = s\<lparr>mEfiMpServicesProtocol := out fw (calls s)\<rparr>
      in if EFI_ERROR Status then (Status, s\<lparr>mEfiMpServicesProtocol := 0\<rparr>)
      else
      let s = service (Mp GetNumberOfProcessors) s; Status = ret fw (calls s); NumberOfProcessors = out fw (calls s)
      in if EFI_ERROR Status then (Status, s)
      else
      let s = service (Mp WhoAmI) s; Status = ret fw (calls s); Bsp = out fw (calls s)
      in if EFI_ERROR Status then (Status, s)
      else
      let s = service (AllocatePool (16 * NumberOfProcessors)) s; ListOfSystemMPs = ret fw (calls s)
      in if ListOfSystemMPs = 0 then (EFI_OUT_OF_RESOURCES, s)
      else case init_loop fw 0 (unat NumberOfProcessors) (replicate (unat NumberOfProcessors) zero_mp) s of
        (Inl Status, s) \<Rightarrow> (Status, service (FreePool ListOfSystemMPs) s)
      | (Inr (n, mps), s) \<Rightarrow>
          (EFI_SUCCESS, s\<lparr>MpCount := of_nat n, BspProcessorNumber := Bsp, MpListAt := ListOfSystemMPs, MpList := mps\<rparr>))"

definition IsThreadingEnabled :: "'a mp_state_scheme \<Rightarrow> bool" where
  "IsThreadingEnabled s \<longleftrightarrow> mEfiMpServicesProtocol s \<noteq> 0 \<or> MpCount s \<ge> 1"

definition GetThreadLimit :: "'a mp_state_scheme \<Rightarrow> u64" where
  "GetThreadLimit s = (if IsThreadingEnabled s then MpCount s - 1 else 0)"

section \<open>Threads\<close>

definition put_thread :: "u64 \<Rightarrow> MFTAH_THREAD \<Rightarrow> 'a mp_state_scheme \<Rightarrow> 'a mp_state_scheme" where
  "put_thread p t s = s\<lparr>thread_at := (thread_at s)(p \<mapsto> t)\<rparr>"

text \<open>An operation on a thread object that does not exist is outside of the model: \<open>None\<close>.\<close>

definition CreateThread :: "firmware \<Rightarrow> u64 \<Rightarrow> u64 \<Rightarrow> u64 \<Rightarrow> 'a mp_state_scheme \<Rightarrow> (efi_status \<times> 'a mp_state_scheme) option" where
  "CreateThread fw proc ctx NewThread s =
     (if proc = 0 \<or> ctx = 0 \<or> NewThread = 0 then Some (EFI_INVALID_PARAMETER, s)
      else case thread_at s NewThread of None \<Rightarrow> None
      | Some t \<Rightarrow>
          let t = t\<lparr>Method := proc, Context := ctx, Finished := False, Started := False\<rparr>;
              s = service (Mp (CreateEvent NewThread)) s;
              s = put_thread NewThread (t\<lparr>CompletionEvent := out fw (calls s)\<rparr>) s
          in if EFI_ERROR (ret fw (calls s)) then None else Some (EFI_SUCCESS, s))"

text \<open>One pass over the processors. The value says whether one was given the thread, or the status to return.\<close>

primrec assign_loop ::
    "firmware \<Rightarrow> u64 \<Rightarrow> nat list \<Rightarrow> 'a mp_state_scheme \<Rightarrow> ((efi_status + bool) \<times> 'a mp_state_scheme) option" where
  "assign_loop fw Thread [] s = Some (Inr False, s)"
| "assign_loop fw Thread (i # js) s =
     (if IsBSP (MpList s ! i) \<or> IsWorking (MpList s ! i) then assign_loop fw Thread js (service (Stall 5000) s)
      else
      let s = service (Mp (StartupThisAP Thread (of_nat i))) s; Status = ret fw (calls s)
      in if EFI_ERROR Status then Some (Inl Status, s)
      else if ThreadMutex s then None
      else
      let s = s\<lparr>ThreadMutex := True\<rparr>;
          s = s\<lparr>MpList := (MpList s)[i := (MpList s ! i)\<lparr>IsWorking := True\<rparr>]\<rparr>;
          s = s\<lparr>ThreadMutex := False\<rparr>
      in case thread_at s Thread of None \<Rightarrow> None
         | Some t \<Rightarrow> Some (Inr True, put_thread Thread (t\<lparr>Started := True, AssignedProcessorNumber := of_nat i\<rparr>) s))"

partial_function (option) start_loop ::
    "firmware \<Rightarrow> u64 \<Rightarrow> bool \<Rightarrow> 'a mp_state_scheme \<Rightarrow> (efi_status \<times> 'a mp_state_scheme) option" where
  "start_loop fw Thread Wait s =
     (case RefreshMPs fw s of None \<Rightarrow> None
      | Some (_, s) \<Rightarrow>
         (case assign_loop fw Thread [0..<unat (MpCount s)] s of None \<Rightarrow> None
          | Some (Inl Status, s) \<Rightarrow> Some (Status, s)
          | Some (Inr started, s) \<Rightarrow>
              if started then Some (EFI_SUCCESS, s)
              else if Wait then start_loop fw Thread Wait s else Some (EFI_OUT_OF_RESOURCES, s)))"

definition StartThread :: "firmware \<Rightarrow> u64 \<Rightarrow> bool \<Rightarrow> 'a mp_state_scheme \<Rightarrow> (efi_status \<times> 'a mp_state_scheme) option" where
  "StartThread fw Thread Wait s =
     (case thread_at s Thread of None \<Rightarrow> None
      | Some t \<Rightarrow>
          if Started t then Some (EFI_ALREADY_STARTED, s)
          else if Finished t then Some (EFI_INVALID_PARAMETER, s)
          else start_loop fw Thread Wait s)"

definition FinishThread :: "firmware \<Rightarrow> u64 \<Rightarrow> 'a mp_state_scheme \<Rightarrow> 'a mp_state_scheme option" where
  "FinishThread fw Thread s =
     (if Thread = 0 then Some s
      else case thread_at s Thread of None \<Rightarrow> None
      | Some t \<Rightarrow>
          if Finished t then Some s
          else let ProcNumber = unat (AssignedProcessorNumber t)
            in if ThreadMutex s then None
            else
            let s = s\<lparr>ThreadMutex := True\<rparr>;
                s = s\<lparr>MpList := (MpList s)[ProcNumber := (MpList s ! ProcNumber)\<lparr>IsWorking := False\<rparr>]\<rparr>;
                s = s\<lparr>ThreadMutex := False\<rparr>;
                s = put_thread Thread (t\<lparr>Finished := True\<rparr>) s
            in map_option snd (RefreshMPs fw s))"

definition JoinThread :: "firmware \<Rightarrow> u64 \<Rightarrow> 'a mp_state_scheme \<Rightarrow> 'a mp_state_scheme option" where
  "JoinThread fw Thread s =
     (case thread_at s Thread of None \<Rightarrow> None
      | Some t \<Rightarrow> if Started t \<and> \<not> Finished t then None else map_option snd (RefreshMPs fw s))"

definition DestroyThread :: "firmware \<Rightarrow> u64 \<Rightarrow> 'a mp_state_scheme \<Rightarrow> 'a mp_state_scheme option" where
  "DestroyThread fw Thread s =
     (case thread_at s Thread of None \<Rightarrow> None
      | Some t \<Rightarrow>
          if Started t \<and> \<not> Finished t then None
          else let s = service (FreePool Thread) (s\<lparr>thread_at := (thread_at s)(Thread := None)\<rparr>)
            in map_option snd (RefreshMPs fw s))"


section \<open>The state of the pool\<close>

definition only_calls :: "'a uefi_scheme \<Rightarrow> 'a uefi_scheme \<Rightarrow> bool" where
  "only_calls s s' \<longleftrightarrow> (\<exists>u. s' = s\<lparr>calls := calls s @ u\<rparr>)"

lemma only_calls_refl [simp]: "only_calls s s"
  by (auto simp: only_calls_def intro: exI [of _ "[]"])

lemma only_calls_service [simp]: "only_calls s (service c s)"
  by (auto simp: only_calls_def service_def)

lemma only_calls_trans [trans]: "only_calls s t \<Longrightarrow> only_calls t u \<Longrightarrow> only_calls s u"
  by (auto simp: only_calls_def)

lemma service_mp [simp]:
  "ThreadMutex (service c s) = ThreadMutex s" "MpCount (service c s) = MpCount s" "MpList (service c s) = MpList s"
  "thread_at (service c s) = thread_at s" "MpListAt (service c s) = MpListAt s"
  "mEfiMpServicesProtocol (service c s) = mEfiMpServicesProtocol s"
  by (simp_all add: service_def)

lemma put_thread_simps [simp]:
  "calls (put_thread p t s) = calls s" "ThreadMutex (put_thread p t s) = ThreadMutex s" "MpCount (put_thread p t s) = MpCount s"
  "MpList (put_thread p t s) = MpList s" "thread_at (put_thread p t s) = (thread_at s)(p \<mapsto> t)"
  by (simp_all add: put_thread_def)

text \<open>The processor thread \<open>p\<close> runs on.\<close>

definition runs_on :: "'a mp_state_scheme \<Rightarrow> u64 \<Rightarrow> nat \<Rightarrow> bool" where
  "runs_on s p i \<longleftrightarrow> (\<exists>t. thread_at s p = Some t \<and> Started t \<and> \<not> Finished t \<and> unat (AssignedProcessorNumber t) = i)"

text \<open>The list covers the processors, the mutex is free, and the running threads sit on different working processors.\<close>

definition mp_inv :: "'a mp_state_scheme \<Rightarrow> bool" where
  "mp_inv s \<longleftrightarrow> \<not> ThreadMutex s \<and> unat (MpCount s) \<le> length (MpList s)
     \<and> (\<forall>p i. runs_on s p i \<longrightarrow> i < unat (MpCount s) \<and> IsWorking (MpList s ! i))
     \<and> (\<forall>p q i. runs_on s p i \<and> runs_on s q i \<longrightarrow> p = q)"

lemma mp_invD:
  assumes "mp_inv s"
  shows "\<not> ThreadMutex s" and "unat (MpCount s) \<le> length (MpList s)"
    and "runs_on s p i \<Longrightarrow> i < unat (MpCount s)" and "runs_on s p i \<Longrightarrow> IsWorking (MpList s ! i)"
    and "runs_on s p i \<Longrightarrow> runs_on s q i \<Longrightarrow> p = q"
  using assms unfolding mp_inv_def by blast+

lemma mp_invI:
  assumes "\<not> ThreadMutex s" and "unat (MpCount s) \<le> length (MpList s)"
    and "\<And>p i. runs_on s p i \<Longrightarrow> i < unat (MpCount s) \<and> IsWorking (MpList s ! i)"
    and "\<And>p q i. runs_on s p i \<Longrightarrow> runs_on s q i \<Longrightarrow> p = q"
  shows "mp_inv s"
  using assms unfolding mp_inv_def by blast

text \<open>The two states agree on the threads and on which processors work.\<close>

definition same_pool :: "'a mp_state_scheme \<Rightarrow> 'a mp_state_scheme \<Rightarrow> bool" where
  "same_pool s s' \<longleftrightarrow> thread_at s' = thread_at s \<and> MpCount s' = MpCount s \<and> ThreadMutex s' = ThreadMutex s
     \<and> (unat (MpCount s) \<le> length (MpList s) \<longrightarrow> unat (MpCount s) \<le> length (MpList s')
         \<and> (\<forall>i < unat (MpCount s). IsWorking (MpList s' ! i) = IsWorking (MpList s ! i)))"

lemma same_pool_refl [simp]: "same_pool s s"
  by (simp add: same_pool_def)

lemma same_pool_trans [trans]: "same_pool s t \<Longrightarrow> same_pool t u \<Longrightarrow> same_pool s u"
  by (auto simp: same_pool_def)

lemma same_pool_calls: "only_calls s s' \<Longrightarrow> same_pool s s'"
  by (auto simp: only_calls_def same_pool_def)

lemma same_pool_inv: "same_pool s s' \<Longrightarrow> mp_inv s \<Longrightarrow> mp_inv s'"
  by (auto simp: same_pool_def mp_inv_def runs_on_def)

section \<open>Refreshing\<close>

lemma refresh_entries_result:
  assumes "distinct js" and "\<forall>j \<in> set js. j < length new"
  shows "only_calls s (snd (refresh_entries fw old js new s))
    \<and> (\<forall>new'. fst (refresh_entries fw old js new s) = Inr new' \<longrightarrow> length new' = length new
        \<and> (\<forall>i < length new. if i \<in> set js then IsWorking (new' ! i) = IsWorking (old ! i) \<and> ProcessorNumber (new' ! i) = of_nat i
             else new' ! i = new ! i))"
  using assms
proof (induction js arbitrary: new s)
  case (Cons j js)
  let ?s = "service (Mp (GetProcessorInfo (of_nat j))) s" and ?new = "new[j := mp_entry (out fw (calls s @ [Mp (GetProcessorInfo (of_nat j))])) j (IsWorking (old ! j))]"
  have len: "length ?new = length new" by simp
  show ?case
  proof (cases "EFI_ERROR (ret fw (calls s @ [Mp (GetProcessorInfo (of_nat j))]))")
    case True
    then show ?thesis by (simp add: Let_def)
  next
    case False
    then have step: "refresh_entries fw old (j # js) new s = refresh_entries fw old js ?new ?s" by (simp add: Let_def)
    have prem: "distinct js" "\<forall>j \<in> set js. j < length ?new" using Cons.prems by simp_all
    note IH0 = Cons.IH [OF prem, of ?s]
    note IH2 = conjunct2 [OF IH0, rule_format]
    have "only_calls s (snd (refresh_entries fw old js ?new ?s))"
      by (rule only_calls_trans [OF only_calls_service conjunct1 [OF IH0]])
    moreover have "length new' = length new" if "fst (refresh_entries fw old js ?new ?s) = Inr new'" for new'
      using conjunct1 [OF IH2 [OF that]] len by (rule trans)
    moreover have "if i \<in> set (j # js) then IsWorking (new' ! i) = IsWorking (old ! i) \<and> ProcessorNumber (new' ! i) = of_nat i
        else new' ! i = new ! i"
      if r: "fst (refresh_entries fw old js ?new ?s) = Inr new'" and i: "i < length new" for new' i
    proof -
      have "if i \<in> set js then IsWorking (new' ! i) = IsWorking (old ! i) \<and> ProcessorNumber (new' ! i) = of_nat i
          else new' ! i = ?new ! i"
        using conjunct2 [OF IH2 [OF r]] i len by metis
      then show ?thesis using Cons.prems(1) i by (cases "i = j") (simp_all add: mp_entry_def split: if_splits)
    qed
    ultimately show ?thesis unfolding step by blast
  qed
qed simp

lemma RefreshMPs_pool:
  assumes "\<not> ThreadMutex s"
  shows "\<exists>st s'. RefreshMPs fw s = Some (st, s') \<and> same_pool s s' \<and> (st = EFI_SUCCESS \<or> EFI_ERROR st)
    \<and> (st = EFI_SUCCESS \<longrightarrow> length (MpList s') = unat (MpCount s) \<and> (\<forall>i < unat (MpCount s). ProcessorNumber (MpList s' ! i) = of_nat i))"
proof -
  let ?n = "unat (MpCount s)"
  let ?s = "service (AllocatePool (16 * MpCount s)) (s\<lparr>ThreadMutex := True\<rparr>)"
  let ?r = "refresh_entries fw (MpList s) [0..<?n] (replicate ?n zero_mp) ?s"
  have r: "only_calls ?s (snd ?r)"
      "\<And>new. fst ?r = Inr new \<Longrightarrow> length new = ?n \<and> (\<forall>i < ?n. IsWorking (new ! i) = IsWorking (MpList s ! i) \<and> ProcessorNumber (new ! i) = of_nat i)"
    using refresh_entries_result [of "[0..<?n]" "replicate ?n zero_mp" ?s fw "MpList s"] by auto
  obtain x t where rr: "?r = (x, t)" by (cases ?r)
  have t: "thread_at t = thread_at s" "MpCount t = MpCount s" "MpList t = MpList s"
    using r(1) rr by (auto simp: only_calls_def)
  have err: "EFI_ERROR st" if "refresh_entries fw old js new s0 = (Inl st, s1)" for st old js new and s0 s1 :: "'a mp_state_scheme"
    using that by (induction js arbitrary: new s0) (auto simp: Let_def split: if_splits)
  show ?thesis
  proof (cases "ret fw (calls s @ [AllocatePool (16 * MpCount s)]) = 0")
    case True
    then show ?thesis using assms by (simp add: RefreshMPs_def Let_def same_pool_def)
  next
    case False
    then show ?thesis
      using assms rr r(2) t err [of "MpList s" "[0..<?n]" "replicate ?n zero_mp" ?s]
      by (cases x) (auto simp: RefreshMPs_def Let_def same_pool_def)
  qed
qed


section \<open>Starting\<close>

text \<open>What a pass over the processors may end with.\<close>

definition assigned :: "u64 \<Rightarrow> MFTAH_THREAD \<Rightarrow> nat \<Rightarrow> 'a mp_state_scheme \<Rightarrow> 'a mp_state_scheme \<Rightarrow> bool" where
  "assigned Thread t i s s' \<longleftrightarrow> \<not> IsBSP (MpList s ! i) \<and> \<not> IsWorking (MpList s ! i) \<and> MpCount s' = MpCount s \<and> \<not> ThreadMutex s'
     \<and> MpList s' = (MpList s)[i := (MpList s ! i)\<lparr>IsWorking := True\<rparr>]
     \<and> thread_at s' = (thread_at s)(Thread \<mapsto> t\<lparr>Started := True, AssignedProcessorNumber := of_nat i\<rparr>)"

text \<open>A processor the thread can be put on, and the last call: the firmware was asked to start the thread there, and answered \<open>st\<close>.\<close>

definition available :: "'a mp_state_scheme \<Rightarrow> nat \<Rightarrow> bool" where
  "available s i \<longleftrightarrow> \<not> IsBSP (MpList s ! i) \<and> \<not> IsWorking (MpList s ! i)"

definition asked :: "firmware \<Rightarrow> u64 \<Rightarrow> nat \<Rightarrow> efi_status \<Rightarrow> 'a uefi_scheme \<Rightarrow> bool" where
  "asked fw Thread i st s \<longleftrightarrow> (\<exists>cs. calls s = cs @ [Mp (StartupThisAP Thread (of_nat i))]) \<and> st = ret fw (calls s)"

lemma available_calls: "only_calls s s' \<Longrightarrow> available s' i = available s i"
  by (auto simp: only_calls_def available_def)

lemma assign_loop_result:
  assumes "\<not> ThreadMutex s" and "thread_at s Thread = Some t"
  shows "\<exists>r s'. assign_loop fw Thread js s = Some (r, s') \<and>
    (case r of Inl st \<Rightarrow> EFI_ERROR st \<and> only_calls s s' \<and> (\<exists>i \<in> set js. available s i \<and> asked fw Thread i st s')
     | Inr False \<Rightarrow> only_calls s s' \<and> (\<forall>j \<in> set js. \<not> available s j)
     | Inr True \<Rightarrow> \<exists>i \<in> set js. assigned Thread t i s s' \<and> (\<exists>st. asked fw Thread i st s' \<and> \<not> EFI_ERROR st))"
  using assms
proof (induction js arbitrary: s)
  case (Cons j js)
  show ?case
  proof (cases "IsBSP (MpList s ! j) \<or> IsWorking (MpList s ! j)")
    case True
    let ?s = "service (Stall 5000) s"
    obtain r s' where r: "assign_loop fw Thread js ?s = Some (r, s')"
      and out: "case r of Inl st \<Rightarrow> EFI_ERROR st \<and> only_calls ?s s' \<and> (\<exists>i \<in> set js. available ?s i \<and> asked fw Thread i st s')
       | Inr False \<Rightarrow> only_calls ?s s' \<and> (\<forall>j \<in> set js. \<not> available ?s j)
       | Inr True \<Rightarrow> \<exists>i \<in> set js. assigned Thread t i ?s s' \<and> (\<exists>st. asked fw Thread i st s' \<and> \<not> EFI_ERROR st)"
      using Cons.IH [of ?s] Cons.prems by auto
    have "only_calls ?s s' \<Longrightarrow> only_calls s s'" using only_calls_trans [OF only_calls_service] .
    then have "case r of Inl st \<Rightarrow> EFI_ERROR st \<and> only_calls s s' \<and> (\<exists>i \<in> set (j # js). available s i \<and> asked fw Thread i st s')
     | Inr False \<Rightarrow> only_calls s s' \<and> (\<forall>j \<in> set (j # js). \<not> available s j)
     | Inr True \<Rightarrow> \<exists>i \<in> set (j # js). assigned Thread t i s s' \<and> (\<exists>st. asked fw Thread i st s' \<and> \<not> EFI_ERROR st)"
      using out True by (auto simp: assigned_def available_def split: sum.splits bool.splits)
    then show ?thesis using r True by auto
  next
    case False
    then show ?thesis using Cons.prems by (auto simp: Let_def assigned_def asked_def available_def)
  qed
qed simp

lemma assigned_inv:
  assumes "mp_inv s" and "assigned Thread t i s s'" and "i < unat (MpCount s)" and "thread_at s Thread = Some t" and "\<not> Started t"
  shows "mp_inv s'"
proof -
  have i: "unat (of_nat i :: u64) = i"
    using assms(3) unsigned_less [of "MpCount s", where ?'a = nat] by (intro unat_of_nat_u64) simp
  have runs: "runs_on s' p j \<longleftrightarrow> (if p = Thread then j = i \<and> \<not> Finished t else runs_on s p j)" for p j
    using assms(2) i by (auto simp: assigned_def runs_on_def)
  have "\<not> runs_on s p i" for p using assms(1,2) by (auto simp: mp_inv_def assigned_def)
  moreover have "IsWorking (MpList s' ! j) \<longleftrightarrow> j = i \<or> IsWorking (MpList s ! j)" if "j < unat (MpCount s)" for j
    using assms(1-3) that by (cases "j = i") (auto simp: mp_inv_def assigned_def)
  moreover have "runs_on s p j \<Longrightarrow> j < unat (MpCount s) \<and> IsWorking (MpList s ! j)"
      and "runs_on s p j \<Longrightarrow> runs_on s q j \<Longrightarrow> p = q" for p q j
    using assms(1) unfolding mp_inv_def by blast+
  moreover have "unat (MpCount s') \<le> length (MpList s')" "\<not> ThreadMutex s'" "MpCount s' = MpCount s"
    using assms(1,2) by (simp_all add: mp_inv_def assigned_def)
  ultimately show ?thesis using assms(3) unfolding mp_inv_def runs by (auto split: if_splits)
qed

text \<open>Starting a thread ends with it on a processor that was available, where the firmware started it, or with nothing changed and an error: without
  \<open>Wait\<close> that no processor was available, or what the firmware answered for one that was.\<close>

definition start_outcome :: "firmware \<Rightarrow> u64 \<Rightarrow> bool \<Rightarrow> MFTAH_THREAD \<Rightarrow> efi_status \<Rightarrow> 'a mp_state_scheme \<Rightarrow> 'a mp_state_scheme \<Rightarrow> bool" where
  "start_outcome fw Thread Wait t st s s' \<longleftrightarrow>
     (if st = EFI_SUCCESS
      then \<exists>u i. same_pool s u \<and> i < unat (MpCount s) \<and> assigned Thread t i u s' \<and> (\<exists>r. asked fw Thread i r s' \<and> \<not> EFI_ERROR r)
      else EFI_ERROR st \<and> same_pool s s'
        \<and> (\<not> Wait \<and> st = EFI_OUT_OF_RESOURCES \<and> (\<forall>j < unat (MpCount s). \<not> available s' j)
           \<or> (\<exists>i < unat (MpCount s). available s' i \<and> asked fw Thread i st s')))"

lemma start_outcome_after: "start_outcome fw Thread Wait t st u s' \<Longrightarrow> same_pool s u \<Longrightarrow> start_outcome fw Thread Wait t st s s'"
  unfolding start_outcome_def using same_pool_trans [of s u] by (metis same_pool_def)

lemma start_loop_result:
  assumes "start_loop fw Thread Wait s = Some (st, s')" and "mp_inv s" and "thread_at s Thread = Some t"
  shows "start_outcome fw Thread Wait t st s s'"
proof -
  have "mp_inv s \<and> thread_at s Thread = Some t \<longrightarrow> start_outcome fw Thread Wait t (fst r) s (snd r)"
    if "start_loop fw Thread Wait s = Some r" for r
  proof (rule start_loop.raw_induct [where P = "\<lambda>fw Thread Wait s r. mp_inv s \<and> thread_at s Thread = Some t
        \<longrightarrow> start_outcome fw Thread Wait t (fst r) s (snd r)", OF _ that])
    fix f fw Thread Wait and s :: "'a mp_state_scheme" and r
    assume IH: "\<And>fw Thread Wait s r. f fw Thread Wait s = Some r \<Longrightarrow> mp_inv s \<and> thread_at s Thread = Some t
        \<longrightarrow> start_outcome fw Thread Wait t (fst r) s (snd r)"
      and body: "(case RefreshMPs fw s of None \<Rightarrow> None
      | Some (_, s) \<Rightarrow>
         (case assign_loop fw Thread [0..<unat (MpCount s)] s of None \<Rightarrow> None
          | Some (Inl Status, s) \<Rightarrow> Some (Status, s)
          | Some (Inr started, s) \<Rightarrow>
              if started then Some (EFI_SUCCESS, s)
              else if Wait then f fw Thread Wait s else Some (EFI_OUT_OF_RESOURCES, s))) = Some r"
    show "mp_inv s \<and> thread_at s Thread = Some t \<longrightarrow> start_outcome fw Thread Wait t (fst r) s (snd r)"
    proof
      assume s: "mp_inv s \<and> thread_at s Thread = Some t"
      then obtain st0 u where u: "RefreshMPs fw s = Some (st0, u)" "same_pool s u"
        using RefreshMPs_pool [of s fw] by (auto simp: mp_inv_def)
      have uinv: "mp_inv u" "thread_at u Thread = Some t" "MpCount u = MpCount s"
        using s same_pool_inv [OF u(2)] u(2) by (simp_all add: same_pool_def)
      then have "\<not> ThreadMutex u" by (simp add: mp_inv_def)
      note uinv = uinv this
      obtain x v where x: "assign_loop fw Thread [0..<unat (MpCount u)] u = Some (x, v)"
        and out: "case x of Inl st \<Rightarrow> EFI_ERROR st \<and> only_calls u v \<and> (\<exists>i \<in> set [0..<unat (MpCount u)]. available u i \<and> asked fw Thread i st v)
          | Inr False \<Rightarrow> only_calls u v \<and> (\<forall>j \<in> set [0..<unat (MpCount u)]. \<not> available u j)
          | Inr True \<Rightarrow> \<exists>i \<in> set [0..<unat (MpCount u)]. assigned Thread t i u v \<and> (\<exists>st. asked fw Thread i st v \<and> \<not> EFI_ERROR st)"
        using assign_loop_result [OF uinv(4) uinv(2), of fw "[0..<unat (MpCount u)]"] by blast
      have sv: "same_pool s v" if "only_calls u v" using same_pool_trans [OF u(2) same_pool_calls [OF that]] .
      show "start_outcome fw Thread Wait t (fst r) s (snd r)"
      proof (cases x)
        case (Inl e)
        then have "start_outcome fw Thread Wait t e s v" using out sv uinv(3) available_calls [of u v] by (auto simp: start_outcome_def)
        then show ?thesis using body u x Inl by auto
      next
        case (Inr b)
        show ?thesis
        proof (cases b)
          case True
          then obtain i where "i < unat (MpCount s)" "assigned Thread t i u v" "\<exists>r. asked fw Thread i r v \<and> \<not> EFI_ERROR r"
            using out Inr uinv(3) by (auto, blast)
          then have "start_outcome fw Thread Wait t EFI_SUCCESS s v" using u(2) unfolding start_outcome_def by (simp, blast)
          then show ?thesis using body u x Inr True by auto
        next
          case False
          then have same: "same_pool s v" using out Inr sv by simp
          show ?thesis
          proof (cases Wait)
            case True
            have v: "mp_inv v \<and> thread_at v Thread = Some t" using same s same_pool_inv [OF same] by (simp add: same_pool_def)
            have "start_outcome fw Thread Wait t (fst r) v (snd r)"
              using IH [of fw Thread Wait v r] body u x Inr \<open>\<not> b\<close> True v by simp
            then show ?thesis by (rule start_outcome_after [OF _ same])
          next
            case False
            have "\<forall>j < unat (MpCount s). \<not> available v j" using out Inr \<open>\<not> b\<close> uinv(3) available_calls [of u v] by auto
            then show ?thesis using False body u x Inr \<open>\<not> b\<close> same by (auto simp: start_outcome_def)
          qed
        qed
      qed
    qed
  qed
  from this [OF assms(1)] show ?thesis using assms(2,3) by simp
qed

lemma StartThread_result:
  assumes "StartThread fw Thread Wait s = Some (st, s')" and "mp_inv s" and "thread_at s Thread = Some t"
  shows "if Started t then st = EFI_ALREADY_STARTED \<and> s' = s
         else if Finished t then st = EFI_INVALID_PARAMETER \<and> s' = s
         else start_outcome fw Thread Wait t st s s'"
  using assms start_loop_result [OF _ assms(2,3)] by (auto simp: StartThread_def)

lemma StartThread_inv:
  assumes "StartThread fw Thread Wait s = Some (st, s')" and "mp_inv s"
  shows "mp_inv s'"
proof -
  obtain t where t: "thread_at s Thread = Some t" using assms(1) by (auto simp: StartThread_def split: option.splits)
  show ?thesis
  proof (cases "Started t \<or> Finished t")
    case True
    then show ?thesis using StartThread_result [OF assms t] assms(2) by (auto split: if_splits)
  next
    case False
    then have out: "start_outcome fw Thread Wait t st s s'" using StartThread_result [OF assms t] by simp
    show ?thesis
    proof (cases "st = EFI_SUCCESS")
      case True
      then obtain u i where u: "same_pool s u" "i < unat (MpCount s)" "assigned Thread t i u s'"
        using out by (auto simp: start_outcome_def)
      have "mp_inv u" "thread_at u Thread = Some t" "i < unat (MpCount u)"
        using same_pool_inv [OF u(1) assms(2)] u(1,2) t by (simp_all add: same_pool_def)
      then show ?thesis using assigned_inv [OF _ u(3)] False by blast
    next
      case False
      then show ?thesis using out same_pool_inv [OF _ assms(2)] by (simp add: start_outcome_def)
    qed
  qed
qed


section \<open>Creating, finishing and waiting\<close>

lemma CreateThread_inv:
  assumes "CreateThread fw proc ctx p s = Some (st, s')" and "mp_inv s" and "\<forall>i. \<not> runs_on s p i"
  shows "mp_inv s'"
proof (cases "st = EFI_SUCCESS")
  case True
  then obtain t where t: "thread_at s' = (thread_at s)(p \<mapsto> t)" "\<not> Started t"
    and same: "MpList s' = MpList s" "MpCount s' = MpCount s" "ThreadMutex s' = ThreadMutex s"
    using assms(1) by (auto simp: CreateThread_def Let_def split: if_splits option.splits)
  have "runs_on s' q i \<longleftrightarrow> runs_on s q i" for q i
    using t assms(3) by (auto simp: runs_on_def)
  then show ?thesis using assms(2) same by (simp add: mp_inv_def)
next
  case False
  then show ?thesis using assms(1,2) by (auto simp: CreateThread_def Let_def split: if_splits option.splits)
qed

lemma RefreshMPs_inv:
  assumes "RefreshMPs fw s = Some (st, s')" and "mp_inv s"
  shows "mp_inv s' \<and> thread_at s' = thread_at s"
proof -
  have same: "same_pool s s'" using RefreshMPs_pool [OF mp_invD(1) [OF assms(2)], of fw] assms(1) by auto
  then show ?thesis using same_pool_inv [OF same assms(2)] by (simp add: same_pool_def)
qed

text \<open>A thread that runs is finished, its processor is free again, and every other thread runs on as before.\<close>

lemma FinishThread_running:
  assumes "mp_inv s" and "runs_on s p i" and "p \<noteq> 0"
  shows "\<exists>s'. FinishThread fw p s = Some s' \<and> mp_inv s' \<and> \<not> IsWorking (MpList s' ! i)
    \<and> (\<forall>q j. runs_on s' q j \<longleftrightarrow> q \<noteq> p \<and> runs_on s q j)"
proof -
  obtain t where t: "thread_at s p = Some t" "\<not> Finished t" "unat (AssignedProcessorNumber t) = i"
    using assms(2) by (auto simp: runs_on_def)
  have i: "i < unat (MpCount s)" "i < length (MpList s)" "\<not> ThreadMutex s"
    using mp_invD(1-3) [OF assms(1)] assms(2) by (auto intro: less_le_trans)
  let ?s = "put_thread p (t\<lparr>Finished := True\<rparr>)
    (s\<lparr>MpList := (MpList s)[i := (MpList s ! i)\<lparr>IsWorking := False\<rparr>], ThreadMutex := False\<rparr>)"
  have runs: "runs_on ?s q j \<longleftrightarrow> q \<noteq> p \<and> runs_on s q j" for q j by (simp add: runs_on_def)
  have le: "unat (MpCount s) \<le> length (MpList s)" using assms(1) by (simp add: mp_inv_def)
  have inv: "mp_inv ?s"
  proof (rule mp_invI)
    fix q j assume "runs_on ?s q j"
    then have q: "q \<noteq> p" "runs_on s q j" using runs by simp_all
    then have "j \<noteq> i" using mp_invD(5) [OF assms(1) _ assms(2)] by blast
    then show "j < unat (MpCount ?s) \<and> IsWorking (MpList ?s ! j)" using mp_invD(3,4) [OF assms(1) q(2)] by simp
  qed (use runs mp_invD(5) [OF assms(1)] le in auto)
  obtain st s' where s': "RefreshMPs fw ?s = Some (st, s')" "same_pool ?s s'"
    using RefreshMPs_pool [of ?s fw] by auto
  have "FinishThread fw p s = Some s'" using assms(3) t i s' by (simp add: FinishThread_def Let_def)
  moreover have "mp_inv s'" using s'(2) inv by (rule same_pool_inv)
  moreover have "\<not> IsWorking (MpList s' ! i)" using s'(2) i le by (simp add: same_pool_def)
  moreover have "runs_on s' q j \<longleftrightarrow> q \<noteq> p \<and> runs_on s q j" for q j
    using s'(2) runs by (simp add: same_pool_def runs_on_def)
  ultimately show ?thesis by blast
qed

lemma DestroyThread_inv:
  assumes "DestroyThread fw p s = Some s'" and "mp_inv s"
  shows "mp_inv s'"
proof -
  let ?s = "service (FreePool p) (s\<lparr>thread_at := (thread_at s)(p := None)\<rparr>)"
  obtain st where r: "RefreshMPs fw ?s = Some (st, s')"
    using assms(1) by (auto simp: DestroyThread_def Let_def split: option.splits if_splits)
  have "runs_on ?s q i \<longleftrightarrow> q \<noteq> p \<and> runs_on s q i" for q i by (simp add: runs_on_def)
  then have "mp_inv ?s" using mp_invD [OF assms(2)] by (intro mp_invI) auto
  then show ?thesis using RefreshMPs_inv [OF r] by blast
qed

section \<open>Reachable states\<close>

lemma init_loop_steps:
  fixes s :: "'a uefi_scheme" and i :: nat
  defines "t \<equiv> service (Mp (GetProcessorInfo (of_nat i))) s"
  shows "\<not> i < n \<Longrightarrow> init_loop fw i n mps s = (Inr (n, mps), s)"
    and "i < n \<Longrightarrow> ret fw (calls t) = EFI_NOT_FOUND \<Longrightarrow> init_loop fw i n mps s = init_loop fw (i + 1) (n - 1) mps t"
    and "i < n \<Longrightarrow> ret fw (calls t) \<noteq> EFI_NOT_FOUND \<Longrightarrow> EFI_ERROR (ret fw (calls t)) \<Longrightarrow>
      init_loop fw i n mps s = (Inl (ret fw (calls t)), t)"
    and "i < n \<Longrightarrow> \<not> EFI_ERROR (ret fw (calls t)) \<Longrightarrow> init_loop fw i n mps s = init_loop fw (i + 1) n
      (mps[i := mp_entry (out fw (calls t)) i False])
      (if bit (out fw (calls t)) PROCESSOR_AS_BSP_BIT then t else service (Mp (EnableDisableAP (of_nat i))) t)"
  unfolding t_def by (subst init_loop.simps, auto simp: Let_def)+

lemma init_loop_length:
  assumes "init_loop fw i n mps s = (Inr (m, mps'), s')" and "n \<le> length mps"
  shows "m \<le> length mps' \<and> length mps' = length mps \<and> m \<le> n"
  using assms
proof (induction "n - i" arbitrary: i n mps s rule: less_induct)
  case less
  let ?t = "service (Mp (GetProcessorInfo (of_nat i))) s"
  note steps = init_loop_steps [where i = i and n = n and fw = fw and mps = mps and s = s]
  consider "\<not> i < n" | "i < n" "ret fw (calls ?t) = EFI_NOT_FOUND"
    | "i < n" "ret fw (calls ?t) \<noteq> EFI_NOT_FOUND" "EFI_ERROR (ret fw (calls ?t))" | "i < n" "\<not> EFI_ERROR (ret fw (calls ?t))" by blast
  then show ?case
  proof cases
    case 1
    then show ?thesis using less.prems steps(1) by simp
  next
    case 2
    have "init_loop fw (i + 1) (n - 1) mps ?t = (Inr (m, mps'), s')" using less.prems(1) steps(2) [OF 2] by simp
    then have "m \<le> length mps' \<and> length mps' = length mps \<and> m \<le> n - 1"
      by (rule less.hyps [rotated]) (use 2(1) less.prems(2) in auto)
    then show ?thesis by auto
  next
    case 3
    then show ?thesis using less.prems(1) steps(3) [OF 3] by simp
  next
    case 4
    have "m \<le> length mps' \<and> length mps' = length (mps[i := mp_entry (out fw (calls ?t)) i False]) \<and> m \<le> n"
      by (rule less.hyps [OF _ less.prems(1) [unfolded steps(4) [OF 4]]]) (use 4(1) less.prems(2) in auto)
    then show ?thesis by simp
  qed
qed

lemma init_loop_calls:
  "only_calls s (snd (init_loop fw i n mps s)) \<and> (\<forall>st. fst (init_loop fw i n mps s) = Inl st \<longrightarrow> EFI_ERROR st)"
proof (induction "n - i" arbitrary: i n mps s rule: less_induct)
  case less
  let ?t = "service (Mp (GetProcessorInfo (of_nat i))) s"
  note steps = init_loop_steps [where i = i and n = n and fw = fw and mps = mps and s = s]
  have t: "only_calls s ?t" "only_calls s (service c ?t)" for c
    using only_calls_trans [OF only_calls_service only_calls_service] by simp_all
  consider "\<not> i < n" | "i < n" "ret fw (calls ?t) = EFI_NOT_FOUND"
    | "i < n" "ret fw (calls ?t) \<noteq> EFI_NOT_FOUND" "EFI_ERROR (ret fw (calls ?t))" | "i < n" "\<not> EFI_ERROR (ret fw (calls ?t))" by blast
  then show ?case
  proof cases
    case 1
    then show ?thesis using steps(1) by simp
  next
    case 2
    have "only_calls ?t (snd (init_loop fw (i + 1) (n - 1) mps ?t)) \<and> (\<forall>st. fst (init_loop fw (i + 1) (n - 1) mps ?t) = Inl st \<longrightarrow> EFI_ERROR st)"
      using 2(1) by (intro less.hyps) simp
    then show ?thesis unfolding steps(2) [OF 2] using only_calls_trans [OF t(1)] by blast
  next
    case 3
    then show ?thesis using steps(3) [OF 3] by simp
  next
    case 4
    let ?u = "if bit (out fw (calls ?t)) PROCESSOR_AS_BSP_BIT then ?t else service (Mp (EnableDisableAP (of_nat i))) ?t"
    let ?r = "init_loop fw (i + 1) n (mps[i := mp_entry (out fw (calls ?t)) i False]) ?u"
    have "only_calls s ?u" using t by simp
    moreover have "only_calls ?u (snd ?r) \<and> (\<forall>st. fst ?r = Inl st \<longrightarrow> EFI_ERROR st)"
      using 4(1) by (intro less.hyps) simp
    ultimately show ?thesis unfolding steps(4) [OF 4] using only_calls_trans by blast
  qed
qed

lemma init_loop_inv:
  fixes t :: "'a mp_state_scheme"
  assumes "(case init_loop fw 0 n (replicate n zero_mp) t of (Inl Status, s) \<Rightarrow> (Status, service (FreePool at) s)
      | (Inr (n, mps), s) \<Rightarrow> (EFI_SUCCESS, s\<lparr>MpCount := of_nat n, BspProcessorNumber := bsp, MpListAt := at, MpList := mps\<rparr>))
      = (EFI_SUCCESS, s')"
    and "\<not> ThreadMutex t" and "\<forall>p i. \<not> runs_on t p i"
  shows "mp_inv s'"
proof -
  obtain x u where loop: "init_loop fw 0 n (replicate n zero_mp) t = (x, u)" by fastforce
  have x: "x \<noteq> Inl EFI_SUCCESS" and u: "only_calls t u"
    using init_loop_calls [of t fw 0 n "replicate n zero_mp"] loop by auto
  have "\<exists>m mps. x = Inr (m, mps)" using assms(1) x loop by (cases x) auto
  then obtain m mps where xr: "x = Inr (m, mps)" by blast
  have s': "s' = u\<lparr>MpCount := of_nat m, BspProcessorNumber := bsp, MpListAt := at, MpList := mps\<rparr>"
    using assms(1) loop xr by simp
  have tu: "thread_at u = thread_at t" "ThreadMutex u = ThreadMutex t" using u by (auto simp: only_calls_def)
  have "unat (of_nat m :: u64) \<le> length mps"
    using init_loop_length [OF loop [unfolded xr]] by (auto simp: unat_of_nat intro: le_trans [OF mod_less_eq_dividend])
  moreover have "\<not> runs_on s' p i" for p i using assms(3) tu(1) s' by (simp add: runs_on_def)
  ultimately show ?thesis using s' tu(2) assms(2) by (intro mp_invI) auto
qed

lemma InitializeThreading_inv:
  assumes "InitializeThreading fw s = (EFI_SUCCESS, s')" and "\<not> ThreadMutex s" and "\<forall>p i. \<not> runs_on s p i"
  shows "mp_inv s'"
proof -
  have "(if e1 then (st1, s1) else if e2 then (st2, s2) else if e3 then (st3, s3) else if e4 then (EFI_OUT_OF_RESOURCES, s4)
      else r) = (EFI_SUCCESS, s') \<Longrightarrow> (e1 \<longrightarrow> st1 \<noteq> 0) \<Longrightarrow> (e2 \<longrightarrow> st2 \<noteq> 0) \<Longrightarrow> (e3 \<longrightarrow> st3 \<noteq> 0) \<Longrightarrow> r = (EFI_SUCCESS, s')"
    for e1 e2 e3 e4 st1 st2 st3 s1 s2 s3 s4 r by (auto split: if_splits)
  note ends = this
  have imp: "EFI_ERROR x \<longrightarrow> x \<noteq> 0" for x :: efi_status by auto
  show ?thesis
    by (rule init_loop_inv [OF ends [OF assms(1) [unfolded InitializeThreading_def Let_def] imp imp imp]])
       (use assms(2,3) in \<open>simp_all add: runs_on_def\<close>)
qed

text \<open>
  The states the pool gets into when its operations are called in turn: threads are created over objects that are not running,
  and a thread reports its end once it runs, or again later through its completion event.
\<close>

inductive mp_step :: "firmware \<Rightarrow> 'a mp_state_scheme \<Rightarrow> 'a mp_state_scheme \<Rightarrow> bool" for fw where
  create: "CreateThread fw proc ctx p s = Some (st, s') \<Longrightarrow> \<forall>i. \<not> runs_on s p i \<Longrightarrow> mp_step fw s s'"
| start: "StartThread fw p wait s = Some (st, s') \<Longrightarrow> mp_step fw s s'"
| finish: "FinishThread fw p s = Some s' \<Longrightarrow> runs_on s p i \<or> thread_at s p = Some t \<and> Finished t \<Longrightarrow> mp_step fw s s'"
| join: "JoinThread fw p s = Some s' \<Longrightarrow> mp_step fw s s'"
| destroy: "DestroyThread fw p s = Some s' \<Longrightarrow> mp_step fw s s'"

inductive mp_reachable :: "firmware \<Rightarrow> 'a mp_state_scheme \<Rightarrow> bool" for fw where
  init: "InitializeThreading fw s = (EFI_SUCCESS, s') \<Longrightarrow> \<not> ThreadMutex s \<Longrightarrow> \<forall>p i. \<not> runs_on s p i \<Longrightarrow> mp_reachable fw s'"
| step: "mp_reachable fw s \<Longrightarrow> mp_step fw s s' \<Longrightarrow> mp_reachable fw s'"

lemma mp_step_inv:
  assumes "mp_step fw s s'" and "mp_inv s"
  shows "mp_inv s'"
  using assms
proof (induction rule: mp_step.induct)
  case (create proc ctx p s st s')
  show ?case by (rule CreateThread_inv [OF create(1,3,2)])
next
  case (start p wait s st s')
  show ?case by (rule StartThread_inv [OF start])
next
  case (finish p s s' i t)
  show ?case
  proof (cases "p = 0 \<or> (\<exists>t. thread_at s p = Some t \<and> Finished t)")
    case True
    then have "FinishThread fw p s = Some s" by (auto simp: FinishThread_def)
    then have "s' = s" using finish(1) by simp
    then show ?thesis using finish by simp
  next
    case False
    then have "runs_on s p i" using finish(2) by auto
    then show ?thesis using FinishThread_running [OF finish(3), of p i fw] finish(1) False by auto
  qed
next
  case (join p s s')
  then obtain st where "RefreshMPs fw s = Some (st, s')" by (auto simp: JoinThread_def split: option.splits if_splits)
  then show ?case using join RefreshMPs_inv by blast
next
  case (destroy p s s')
  show ?case by (rule DestroyThread_inv [OF destroy])
qed


text \<open>The pool as a step system, from a successful initialisation on.\<close>

definition mp_begins :: "firmware \<Rightarrow> 'a mp_state_scheme \<Rightarrow> bool" where
  "mp_begins fw s' \<longleftrightarrow> (\<exists>s. InitializeThreading fw s = (EFI_SUCCESS, s') \<and> \<not> ThreadMutex s \<and> (\<forall>p i. \<not> runs_on s p i))"

interpretation pool: step_system "mp_begins fw" "mp_step fw" mp_inv for fw
  by unfold_locales (auto simp: mp_begins_def intro: InitializeThreading_inv mp_step_inv)

lemma mp_reachable_steps: "mp_reachable fw s \<Longrightarrow> \<exists>s0. mp_begins fw s0 \<and> (mp_step fw)\<^sup>*\<^sup>* s0 s"
  by (induction rule: mp_reachable.induct) (auto simp: mp_begins_def intro: rtranclp.rtrancl_into_rtrancl)

section \<open>Properties\<close>

text \<open>C27: In every state the pool can get into, from a successful initialisation on and with its operations called in turn, the
  mutex is free, every running thread sits on a processor of the list that is marked as working, and no processor has two threads.\<close>

theorem mp_reachable_pool:
  assumes "mp_reachable fw s"
  shows "\<not> ThreadMutex s \<and> (\<forall>p i. runs_on s p i \<longrightarrow> i < unat (MpCount s) \<and> IsWorking (MpList s ! i))
    \<and> (\<forall>p q i. runs_on s p i \<longrightarrow> runs_on s q i \<longrightarrow> p = q)"
proof -
  have "mp_inv s" using mp_reachable_steps [OF assms] pool.reached by blast
  then show ?thesis unfolding mp_inv_def by blast
qed

text \<open>A machine with a boot processor and one more.\<close>

fun duo_out :: "efi_call \<Rightarrow> u64" where
  "duo_out (Mp GetNumberOfProcessors) = 2"
| "duo_out (Mp WhoAmI) = 0"
| "duo_out (Mp (GetProcessorInfo i)) = (if i = 0 then 7 else 6)"
| "duo_out c = 0x77"

fun duo_ret :: "efi_call \<Rightarrow> u64" where
  "duo_ret (AllocatePool n) = 0x1000"
| "duo_ret c = EFI_SUCCESS"

definition duo_fw :: firmware where
  "duo_fw = \<lparr>ret = duo_ret \<circ> last, out = duo_out \<circ> last, data = \<lambda>t. [], wide = \<lambda>t. [], handles = \<lambda>_ _. 0, map_size = \<lambda>t. 0, desc_size = \<lambda>t. 0,
     desc_at = \<lambda>t i. \<lparr>PhysicalStart = 0, NumberOfPages = 0\<rparr>, private_data_size = 0\<rparr>"

definition zero_thread :: MFTAH_THREAD where
  "zero_thread = \<lparr>AssignedProcessorNumber = 0, CompletionEvent = 0, Started = False, Finished = False, ExitStatus = 0, Method = 0, Context = 0\<rparr>"

definition boot_mp :: mp_state where
  "boot_mp = \<lparr>calls = [], ram = \<lambda>_. 0, gAcpiTableProtocol = 0, ramdisks = \<lambda>_. None, ThreadMutex = False, mEfiMpServicesProtocol = 0,
     BspProcessorNumber = 0, MpCount = 0, MpListAt = 0, MpList = [], thread_at = (\<lambda>_. None)(0x9000 \<mapsto> zero_thread)\<rparr>"

lemma duo_fw [simp]: "ret duo_fw t = duo_ret (last t)" "out duo_fw t = duo_out (last t)"
  by (simp_all add: duo_fw_def)

lemma two_of: "[0..<2] = [0, 1 :: nat]" "replicate 2 z = [z, z]"
  by (simp_all add: upt_rec numeral_2_eq_2)

lemma duo_init:
  "\<exists>s. InitializeThreading duo_fw boot_mp = (EFI_SUCCESS, s) \<and> ThreadMutex s = False \<and> MpCount s = 2
     \<and> MpList s = [mp_entry 7 0 False, mp_entry 6 1 False] \<and> thread_at s = thread_at boot_mp"
  by (simp add: InitializeThreading_def Let_def init_loop.simps boot_mp_def two_of)

lemma duo_refresh:
  assumes "ThreadMutex s = False" and "MpCount s = 2" and "MpList s = [mp_entry 7 0 a, mp_entry 6 1 b]"
  shows "\<exists>s'. RefreshMPs duo_fw s = Some (EFI_SUCCESS, s') \<and> ThreadMutex s' = False \<and> MpCount s' = 2
     \<and> MpList s' = [mp_entry 7 0 a, mp_entry 6 1 b] \<and> thread_at s' = thread_at s"
  using assms by (simp add: RefreshMPs_def Let_def two_of mp_entry_def)

lemma duo_starts:
  "\<exists>s s1 s2. InitializeThreading duo_fw boot_mp = (EFI_SUCCESS, s) \<and> CreateThread duo_fw 0x100 0x200 0x9000 s = Some (EFI_SUCCESS, s1)
     \<and> StartThread duo_fw 0x9000 False s1 = Some (EFI_SUCCESS, s2) \<and> runs_on s2 0x9000 1"
proof -
  obtain s where s: "InitializeThreading duo_fw boot_mp = (EFI_SUCCESS, s)" "ThreadMutex s = False" "MpCount s = 2"
      "MpList s = [mp_entry 7 0 False, mp_entry 6 1 False]" "thread_at s = thread_at boot_mp" using duo_init by blast
  then obtain s1 where s1: "CreateThread duo_fw 0x100 0x200 0x9000 s = Some (EFI_SUCCESS, s1)" "ThreadMutex s1 = False" "MpCount s1 = 2"
      "MpList s1 = [mp_entry 7 0 False, mp_entry 6 1 False]"
      "thread_at s1 0x9000 = Some (zero_thread\<lparr>Method := 0x100, Context := 0x200, CompletionEvent := 0x77\<rparr>)"
    by (simp add: CreateThread_def Let_def boot_mp_def zero_thread_def)
  obtain u where u: "RefreshMPs duo_fw s1 = Some (EFI_SUCCESS, u)" "ThreadMutex u = False" "MpCount u = 2"
      "MpList u = [mp_entry 7 0 False, mp_entry 6 1 False]" "thread_at u = thread_at s1"
    using duo_refresh [OF s1(2-4)] by blast
  have "\<exists>s2. StartThread duo_fw 0x9000 False s1 = Some (EFI_SUCCESS, s2) \<and> runs_on s2 0x9000 1"
    using s1(5) u by (simp add: StartThread_def start_loop.simps zero_thread_def two_of mp_entry_def Let_def runs_on_def)
  then show ?thesis using s(1) s1(1) by blast
qed

theorem mp_reachable_pool_witness:
  "\<exists>s. mp_reachable duo_fw s \<and> runs_on s 0x9000 1 \<and> IsWorking (MpList (s :: mp_state) ! 1) \<and> \<not> ThreadMutex s"
proof -
  obtain s s1 s2 where s: "InitializeThreading duo_fw boot_mp = (EFI_SUCCESS, s)" "CreateThread duo_fw 0x100 0x200 0x9000 s = Some (EFI_SUCCESS, s1)"
     "StartThread duo_fw 0x9000 False s1 = Some (EFI_SUCCESS, s2)" "runs_on s2 0x9000 1" using duo_starts by blast
  have quiet: "\<not> ThreadMutex boot_mp" "\<forall>p i. \<not> runs_on boot_mp p i" by (simp_all add: boot_mp_def runs_on_def zero_thread_def)
  have "thread_at s = thread_at boot_mp" using s(1) duo_init by auto
  then have "\<forall>i. \<not> runs_on s 0x9000 i" by (simp add: runs_on_def boot_mp_def zero_thread_def)
  then have "mp_step duo_fw s s1" "mp_step duo_fw s1 s2" using s by (blast intro: mp_step.intros)+
  then have "mp_reachable duo_fw s2" using mp_reachable.init [OF s(1) quiet] by (blast intro: mp_reachable.step)
  with mp_reachable_pool [OF this] s(4) show ?thesis by blast
qed



text \<open>When the multiprocessor services are found but their first query fails, initialisation reports the error but leaves
  threading enabled, with a thread limit of \<open>2^64 - 1\<close>.\<close>

theorem InitializeThreading_stays_enabled:
  assumes "MpCount s = 0" and "t = calls s @ [LocateProtocol ''mEfiMpServicesProtocolGuid'']" and "ret fw t = EFI_SUCCESS"
    and "out fw t \<noteq> 0" and "EFI_ERROR (ret fw (t @ [Mp GetNumberOfProcessors]))"
  shows "\<exists>s'. InitializeThreading fw s = (ret fw (t @ [Mp GetNumberOfProcessors]), s') \<and> IsThreadingEnabled s'
    \<and> GetThreadLimit s' = 0xffffffffffffffff"
  using assms by (simp add: InitializeThreading_def Let_def IsThreadingEnabled_def GetThreadLimit_def)

theorem InitializeThreading_stays_enabled_witness:
  "\<exists>s'. InitializeThreading (duo_fw\<lparr>ret := \<lambda>t. if last t = Mp GetNumberOfProcessors then EFI_DEVICE_ERROR else 0\<rparr>) boot_mp
      = (EFI_DEVICE_ERROR, s') \<and> GetThreadLimit s' = 0xffffffffffffffff"
  using InitializeThreading_stays_enabled [of boot_mp "[LocateProtocol ''mEfiMpServicesProtocolGuid'']"
      "duo_fw\<lparr>ret := \<lambda>t. if last t = Mp GetNumberOfProcessors then EFI_DEVICE_ERROR else 0\<rparr>"]
  by (auto simp: boot_mp_def duo_fw_def)

end
