(* ===== verification/ThreadRace.thy ===== *)
theory ThreadRace
  imports Threading Step_Interface
begin

text \<open>
  Two processors in \<open>src/src/boot/mftah_uefi/threading.c\<close> at once: the boot processor in \<open>StartThread\<close>, from the
  call that starts an application processor on, and that processor, which does its work and then calls \<open>FinishThread\<close>. Every
  access to a shared variable is a step of its own; the macros \<open>MUTEX_SYNC\<close> and \<open>MUTEX_LOCK\<close> test and set the mutex in
  two steps, as the code does. The list of processors is read and written here, not replaced: \<open>RefreshMPs\<close> is left out.
\<close>

datatype bsp_pc = Startup | BSync | BLock | Mark | BUnlock | SetStarted | SetAssigned | BDone
datatype ap_pc = Idle | Work | Check | ReadProc | ASync | ALock | Clear | AUnlock | SetFinished | ADone

record race =
  mutex :: bool
  working :: "nat \<Rightarrow> bool"
  started :: bool
  finished :: bool
  assigned_to :: nat
  ProcNumber :: nat
  bsp :: bsp_pc
  ap :: ap_pc

text \<open>The steps, for the processor \<open>i\<close> that \<open>StartThread\<close> has chosen. Waiting for the mutex is no step.\<close>

inductive race_step :: "nat \<Rightarrow> race \<Rightarrow> race \<Rightarrow> bool" for i where
  startup: "bsp s = Startup \<Longrightarrow> race_step i s (s\<lparr>bsp := BSync, ap := Work\<rparr>)"
| b_sync: "bsp s = BSync \<Longrightarrow> \<not> mutex s \<Longrightarrow> race_step i s (s\<lparr>bsp := BLock\<rparr>)"
| b_lock: "bsp s = BLock \<Longrightarrow> race_step i s (s\<lparr>mutex := True, bsp := Mark\<rparr>)"
| mark: "bsp s = Mark \<Longrightarrow> race_step i s (s\<lparr>working := (working s)(i := True), bsp := BUnlock\<rparr>)"
| b_unlock: "bsp s = BUnlock \<Longrightarrow> race_step i s (s\<lparr>mutex := False, bsp := SetStarted\<rparr>)"
| set_started: "bsp s = SetStarted \<Longrightarrow> race_step i s (s\<lparr>started := True, bsp := SetAssigned\<rparr>)"
| set_assigned: "bsp s = SetAssigned \<Longrightarrow> race_step i s (s\<lparr>assigned_to := i, bsp := BDone\<rparr>)"
| work: "ap s = Work \<Longrightarrow> race_step i s (s\<lparr>ap := Check\<rparr>)"
| check: "ap s = Check \<Longrightarrow> race_step i s (s\<lparr>ap := if finished s then ADone else ReadProc\<rparr>)"
| read_proc: "ap s = ReadProc \<Longrightarrow> race_step i s (s\<lparr>ProcNumber := assigned_to s, ap := ASync\<rparr>)"
| a_sync: "ap s = ASync \<Longrightarrow> \<not> mutex s \<Longrightarrow> race_step i s (s\<lparr>ap := ALock\<rparr>)"
| a_lock: "ap s = ALock \<Longrightarrow> race_step i s (s\<lparr>mutex := True, ap := Clear\<rparr>)"
| clear: "ap s = Clear \<Longrightarrow> race_step i s (s\<lparr>working := (working s)(ProcNumber s := False), ap := AUnlock\<rparr>)"
| a_unlock: "ap s = AUnlock \<Longrightarrow> race_step i s (s\<lparr>mutex := False, ap := SetFinished\<rparr>)"
| set_finished: "ap s = SetFinished \<Longrightarrow> race_step i s (s\<lparr>finished := True, ap := ADone\<rparr>)"


text \<open>A run all of whose steps satisfy \<open>R\<close>.\<close>

inductive race_run :: "(race \<Rightarrow> race \<Rightarrow> bool) \<Rightarrow> nat \<Rightarrow> race \<Rightarrow> race \<Rightarrow> bool" for R i s0 where
  here: "race_run R i s0 s0"
| further: "race_run R i s0 s \<Longrightarrow> R s s' \<Longrightarrow> race_step i s s' \<Longrightarrow> race_run R i s0 s'"

text \<open>A new thread, whose fields are still 0, and a processor that is idle.\<close>

definition race_start :: "(nat \<Rightarrow> bool) \<Rightarrow> race" where
  "race_start w = \<lparr>mutex = False, working = w, started = False, finished = False, assigned_to = 0, ProcNumber = 0, bsp = Startup, ap = Idle\<rparr>"

section \<open>Fast work\<close>


lemma any_next: "race_run (\<lambda>_ _. True) i s0 s \<Longrightarrow> race_step i s t \<Longrightarrow> t = s' \<Longrightarrow> race_run (\<lambda>_ _. True) i s0 s'"
  by (blast intro: race_run.further)





text \<open>Both processors pass the test of the mutex before either sets it.\<close>

lemma both_inside:
  "\<exists>s. race_run (\<lambda>_ _. True) i (race_start w) s \<and> bsp s = Mark \<and> ap s = Clear"
proof -
  let ?r = "race_run (\<lambda>_ _. True) i (race_start w)"
  have "?r ((race_start w)\<lparr>bsp := BSync, ap := Work\<rparr>)"
    by (rule any_next [OF race_run.here race_step.startup]) (simp_all add: race_start_def)
  then have "?r ((race_start w)\<lparr>bsp := BSync, ap := Check\<rparr>)"
    by (rule any_next [OF _ race_step.work]) (simp_all add: race_start_def)
  then have "?r ((race_start w)\<lparr>bsp := BSync, ap := ReadProc\<rparr>)"
    by (rule any_next [OF _ race_step.check]) (simp_all add: race_start_def)
  then have "?r ((race_start w)\<lparr>bsp := BSync, ap := ASync\<rparr>)"
    by (rule any_next [OF _ race_step.read_proc]) (simp_all add: race_start_def)
  then have "?r ((race_start w)\<lparr>bsp := BSync, ap := ALock\<rparr>)"
    by (rule any_next [OF _ race_step.a_sync]) (simp_all add: race_start_def)
  then have "?r ((race_start w)\<lparr>bsp := BLock, ap := ALock\<rparr>)"
    by (rule any_next [OF _ race_step.b_sync]) (simp_all add: race_start_def)
  then have "?r ((race_start w)\<lparr>mutex := True, bsp := Mark, ap := ALock\<rparr>)"
    by (rule any_next [OF _ race_step.b_lock]) (simp_all add: race_start_def)
  then have "?r ((race_start w)\<lparr>mutex := True, bsp := Mark, ap := Clear\<rparr>)"
    by (rule any_next [OF _ race_step.a_lock]) (simp_all add: race_start_def)
  then show ?thesis by (intro exI [of _ "(race_start w)\<lparr>mutex := True, bsp := Mark, ap := Clear\<rparr>"]) simp
qed

section \<open>The pool\<close>




lemma race_run_steps: "race_run R i s0 s \<Longrightarrow> (\<lambda>s s'. R s s' \<and> race_step i s s')\<^sup>*\<^sup>* s0 s"
  by (induction rule: race_run.induct) (auto intro: rtranclp.rtrancl_into_rtrancl)






section \<open>The mutex\<close>

text \<open>Nothing comes between the test of the mutex and its setting, as if they were one step.\<close>

definition unbroken :: "race \<Rightarrow> race \<Rightarrow> bool" where
  "unbroken s s' \<longleftrightarrow> (bsp s = BLock \<longrightarrow> bsp s' \<noteq> BLock) \<and> (ap s = ALock \<longrightarrow> ap s' \<noteq> ALock)"

definition mutex_inv :: "race \<Rightarrow> bool" where
  "mutex_inv s \<longleftrightarrow> (mutex s \<longleftrightarrow> bsp s \<in> {Mark, BUnlock} \<or> ap s \<in> {Clear, AUnlock})
     \<and> \<not> (bsp s \<in> {Mark, BUnlock} \<and> ap s \<in> {Clear, AUnlock})
     \<and> (bsp s = BLock \<or> ap s = ALock \<longrightarrow> \<not> mutex s) \<and> \<not> (bsp s = BLock \<and> ap s = ALock) \<and> (bsp s = Startup \<longleftrightarrow> ap s = Idle)"

lemma mutex_inv_step:
  assumes "mutex_inv s" and "race_step i s s'" and "unbroken s s'"
  shows "mutex_inv s'"
  using assms(2,1,3) by (cases; cases "ap s") (auto simp: mutex_inv_def unbroken_def)

interpretation atomic: step_system "\<lambda>s. s = race_start w" "\<lambda>s s'. unbroken s s' \<and> race_step i s s'" mutex_inv for i w
  by unfold_locales (simp add: mutex_inv_def race_start_def, blast intro: mutex_inv_step)

lemma mutex_inv_run: "race_run unbroken i (race_start w) s \<Longrightarrow> mutex_inv s"
  by (rule atomic.reached [OF refl race_run_steps])

section \<open>Properties\<close>



text \<open>C30: The mutex excludes only if its test and its setting are one step. In a run where nothing comes between them, the two
  processors are never both in the section, and the mutex is set exactly while one of them is; in the runs of the code, where
  they are two steps, both can be inside at once.\<close>

theorem race_mutex:
  "(race_run unbroken i (race_start w) s \<longrightarrow>
      \<not> (bsp s \<in> {Mark, BUnlock} \<and> ap s \<in> {Clear, AUnlock}) \<and> (mutex s \<longleftrightarrow> bsp s \<in> {Mark, BUnlock} \<or> ap s \<in> {Clear, AUnlock}))
   \<and> (\<exists>s. race_run (\<lambda>_ _. True) i (race_start w) s \<and> bsp s = Mark \<and> ap s = Clear)"
  using mutex_inv_run both_inside unfolding mutex_inv_def by blast

theorem race_mutex_witness:
  "\<exists>s. race_run unbroken 1 (race_start (\<lambda>_. False)) s \<and> bsp s = Mark \<and> ap s = ASync \<and> mutex s"
proof -
  let ?r = "race_run unbroken 1 (race_start (\<lambda>_. False))"
  have go: "?r t'" if "?r t" "race_step 1 t u" "u = t'" "unbroken t t'" for t u t' using that by (blast intro: race_run.further)
  let ?s = "\<lambda>m b c. (race_start (\<lambda>_. False))\<lparr>mutex := m, bsp := b, ap := c\<rparr>"
  have "?r (?s False BSync Work)" by (rule go [OF race_run.here race_step.startup]) (simp_all add: race_start_def unbroken_def)
  then have "?r (?s False BSync Check)" by (rule go [OF _ race_step.work]) (simp_all add: unbroken_def)
  then have "?r (?s False BSync ReadProc)" by (rule go [OF _ race_step.check]) (simp_all add: race_start_def unbroken_def)
  then have "?r (?s False BSync ASync)" by (rule go [OF _ race_step.read_proc]) (simp_all add: race_start_def unbroken_def)
  then have "?r (?s False BLock ASync)" by (rule go [OF _ race_step.b_sync]) (simp_all add: unbroken_def)
  then have s: "?r (?s True Mark ASync)" by (rule go [OF _ race_step.b_lock]) (simp_all add: unbroken_def)
  show ?thesis using race_mutex [of 1 "\<lambda>_. False" "?s True Mark ASync"] s by (intro exI [of _ "?s True Mark ASync"]) simp
qed

end
