(* ===== verification/Libs.thy ===== *)
theory Libs
  imports Input
begin

text \<open>
  The two libraries the boot loader calls but the repository does not hold, as far as their results are more than a status: the
  string functions of \<open>gnu-efi\<close> and the constants and memory effects of \<open>MFTAH\<close>. They are a parameter of the
  definitions; a theorem that relies on what their documentation says of them has that as a hypothesis. Strings are given without their
  terminator.
\<close>

record libs =
  StrUpr :: "u16 list \<Rightarrow> u16 list"
  StrCmp :: "u16 list \<Rightarrow> u16 list \<Rightarrow> int"
  StrnCmp :: "u16 list \<Rightarrow> u16 list \<Rightarrow> u64 \<Rightarrow> int"
  MFTAH_ERROR :: "u64 \<Rightarrow> bool"
  MFTAH_SUCCESS :: u64
  MFTAH_INVALID_PASSWORD :: u64
  mftah_payload_header__sizeof :: u64
  mftah_payload__sizeof :: u64
  mftah_protocol_size :: u64
  mftah_registration_size :: u64
  effect :: "efi_call list \<Rightarrow> memory \<Rightarrow> memory"

text \<open>Strings are compared up to their ends, at most \<open>n\<close> characters of them by \<open>StrnCmp\<close>; upper-casing works by character.\<close>

definition strings_ok :: "libs \<Rightarrow> bool" where
  "strings_ok L \<longleftrightarrow> (\<forall>a b. StrCmp L a b = 0 \<longleftrightarrow> a = b) \<and> (\<forall>a b n. StrnCmp L a b n = 0 \<longleftrightarrow> take (unat n) a = take (unat n) b)
     \<and> (\<forall>a. length (StrUpr L a) = length a)"

lemma strings_okD:
  assumes "strings_ok L"
  shows "StrCmp L a b = 0 \<longleftrightarrow> a = b" and "StrnCmp L a b n = 0 \<longleftrightarrow> take (unat n) a = take (unat n) b"
    and "length (StrUpr L a) = length a"
  using assms unfolding strings_ok_def by blast+

text \<open>A call of the MFTAH library: its status, and what it does to memory.\<close>

definition mftah :: "firmware \<Rightarrow> libs \<Rightarrow> mftah_call \<Rightarrow> 'a uefi_scheme \<Rightarrow> u64 \<times> 'a uefi_scheme" where
  "mftah fw L c s = (let s = service (Mftah c) s in (ret fw (calls s), s\<lparr>ram := effect L (calls s) (ram s)\<rparr>))"

text \<open>A pool of zeroes.\<close>

definition AllocateZeroPool :: "firmware \<Rightarrow> u64 \<Rightarrow> 'a uefi_scheme \<Rightarrow> u64 \<times> 'a uefi_scheme" where
  "AllocateZeroPool fw n s =
     (let s = service (AllocatePool n) s; p = ret fw (calls s)
      in (p, if p = 0 then s else s\<lparr>ram := SetMem p n 0 (ram s)\<rparr>))"

text \<open>The bytes \<open>bs\<close> written from address \<open>a\<close> on.\<close>

definition write_at :: "u64 \<Rightarrow> bytes \<Rightarrow> memory \<Rightarrow> memory" where
  "write_at a bs m = (\<lambda>x. if unat (x - a) < length bs then bs ! unat (x - a) else m x)"

text \<open>A read from a file: its status, the new size, and the bytes put at \<open>a\<close>.\<close>

definition file_read :: "firmware \<Rightarrow> u64 \<Rightarrow> u64 \<Rightarrow> u64 \<Rightarrow> 'a uefi_scheme \<Rightarrow> efi_status \<times> u64 \<times> 'a uefi_scheme" where
  "file_read fw h n a s =
     (let s = service (File (ReadFile h n a)) s
      in (ret fw (calls s), out fw (calls s), s\<lparr>ram := write_at a (data fw (calls s)) (ram s)\<rparr>))"

text \<open>The string in a buffer of \<open>n\<close> characters, and writing one there.\<close>

definition wide_at :: "u64 \<Rightarrow> nat \<Rightarrow> memory \<Rightarrow> u16 list" where
  "wide_at a n m = takeWhile (\<lambda>c. c \<noteq> 0) (map (\<lambda>i. get16 a i m) [0..<n])"

definition put_wide :: "u64 \<Rightarrow> u16 list \<Rightarrow> memory \<Rightarrow> memory" where
  "put_wide a cs m = fold (\<lambda>i. put16 a i (cs ! i)) [0..<length cs] m"

text \<open>Constants of the loader, \<open>core/mftah_uefi.h\<close>.\<close>

definition MFTAH_MAX_PAYLOADS :: nat where "MFTAH_MAX_PAYLOADS = 32"
definition MFTAH_MAX_PW_LEN :: u8 where "MFTAH_MAX_PW_LEN = 32"
definition MFTAH_MAX_FILENAME_LENGTH :: u8 where "MFTAH_MAX_FILENAME_LENGTH = 64"
definition MFTAH_RAMDISK_LOAD_BLOCK_SIZE :: u64 where "MFTAH_RAMDISK_LOAD_BLOCK_SIZE = 16384"

definition MFTAH_CHAINLOAD_TARGET_PATH :: "u16 list" where
  "MFTAH_CHAINLOAD_TARGET_PATH = wstr ''EFI'' @ [0x5c] @ wstr ''BOOT'' @ [0x5c] @ wstr ''BOOTX64.EFI''"

definition MFTAH_LOADER_EXE_PATH :: "u16 list" where
  "MFTAH_LOADER_EXE_PATH = wstr ''EFI'' @ [0x5c] @ wstr ''BOOT'' @ [0x5c] @ wstr ''BOOTX64.EFI''"

definition CanaryFileName :: "u16 list" where
  "CanaryFileName = wstr ''CROWS.CANARY''"

definition BootPayloadExtensionPattern :: "u16 list" where
  "BootPayloadExtensionPattern = wstr ''.CROWS''"

definition EFI_NO_PAYLOAD_FOUND :: efi_status where "EFI_NO_PAYLOAD_FOUND = 0xd000000000000120"
definition EFI_SINGLE_PAYLOAD_FOUND :: efi_status where "EFI_SINGLE_PAYLOAD_FOUND = 0xd000000000000121"
definition EFI_MULTI_PAYLOAD_FOUND :: efi_status where "EFI_MULTI_PAYLOAD_FOUND = 0xd000000000000122"
definition EFI_MENU_GO_BACK :: efi_status where "EFI_MENU_GO_BACK = 0xd000000000000123"
definition EFI_INVALID_PASSWORD :: efi_status where "EFI_INVALID_PASSWORD = 0xd000000000000bad"

lemma payload_codes:
  "EFI_ERROR EFI_NO_PAYLOAD_FOUND" "EFI_ERROR EFI_SINGLE_PAYLOAD_FOUND" "EFI_ERROR EFI_MULTI_PAYLOAD_FOUND"
  "EFI_ERROR EFI_MENU_GO_BACK" "EFI_ERROR EFI_INVALID_PASSWORD"
  by (simp_all add: EFI_ERROR_def EFI_NO_PAYLOAD_FOUND_def EFI_SINGLE_PAYLOAD_FOUND_def EFI_MULTI_PAYLOAD_FOUND_def
      EFI_MENU_GO_BACK_def EFI_INVALID_PASSWORD_def bit_numeral_rec)

lemma length_pattern [simp]: "length BootPayloadExtensionPattern = 6"
  by (simp add: BootPayloadExtensionPattern_def)

end
