(* ===== verification/Loader.thy ===== *)
theory Loader
  imports Threading Util Libs "HOL-Library.Monad_Syntax"
begin

text \<open>
  \<open>src/src/boot/mftah_uefi/loader.c\<close>: finding the payload files on the volume the loader was started from, and letting
  the user choose one. \<open>None\<close> is a run that does not return. What is printed is not modelled.
\<close>

section \<open>State\<close>

record PAYLOAD =
  Payload :: u64
  FromMultiSelect :: bool
  Name :: u64
  VolumeHandle :: u64
  SharedMutex :: u8

record loader_state = mp_state +
  gImageHandle :: u64
  gOperatingPayload :: PAYLOAD

definition put_name :: "u64 \<Rightarrow> 'a loader_state_scheme \<Rightarrow> 'a loader_state_scheme" where
  "put_name p s = s\<lparr>gOperatingPayload := (gOperatingPayload s)\<lparr>Name := p\<rparr>\<rparr>"

section \<open>Discovery\<close>

text \<open>Reading the loader's own file in chunks until a read delivers nothing; a read asks for as much as the last one delivered.\<close>

partial_function (option) loader_chunks ::
    "firmware \<Rightarrow> u64 \<Rightarrow> u64 \<Rightarrow> u64 \<Rightarrow> u64 \<Rightarrow> efi_status \<Rightarrow> 'a uefi_scheme \<Rightarrow> (efi_status \<times> 'a uefi_scheme) option" where
  "loader_chunks fw LoaderHandle LoaderBuffer i LoaderChunkSize Status s =
     (if LoaderChunkSize > 0 then
        let (Status, LoaderChunkSize, s) = file_read fw LoaderHandle LoaderChunkSize (LoaderBuffer + i * 4096) s
        in if EFI_ERROR Status then Some (Status, s)
           else loader_chunks fw LoaderHandle LoaderBuffer (i + 1) LoaderChunkSize Status s
      else Some (Status, s))"

text \<open>The hash of the loader's file; whatever goes wrong there only leads to a warning.\<close>

definition hash_loader :: "firmware \<Rightarrow> libs \<Rightarrow> u64 \<Rightarrow> u64 \<Rightarrow> 'a uefi_scheme \<Rightarrow> 'a uefi_scheme option" where
  "hash_loader fw L Volume LoadedLoaderHash s =
     (let s = service (File (OpenFile Volume MFTAH_LOADER_EXE_PATH)) s; LoaderHandle = out fw (calls s)
      in if EFI_ERROR (ret fw (calls s)) then Some s
      else let (LoaderFileLength, s) = FileSize fw LoaderHandle s; (LoaderBuffer, s) = AllocateZeroPool fw LoaderFileLength s
      in if LoaderFileLength = 0 \<or> LoaderBuffer = 0 then Some s
      else do {
        let s = service (File (SetPosition LoaderHandle 0)) s;
        (Status, s) \<leftarrow> loader_chunks fw LoaderHandle LoaderBuffer 0 4096 (ret fw (calls s)) s;
        Some (if EFI_ERROR Status then s else snd (mftah fw L (CreateHash LoaderBuffer LoaderFileLength) s))
      })"

text \<open>The file name ends with the payload suffix; the suffix is upper-cased in place for the comparison.\<close>

definition upcase_suffix :: "libs \<Rightarrow> u16 list \<Rightarrow> u16 list" where
  "upcase_suffix L FileName =
     (let n = length FileName - length BootPayloadExtensionPattern in take n FileName @ StrUpr L (drop n FileName))"

definition is_payload :: "libs \<Rightarrow> u16 list \<Rightarrow> bool" where
  "is_payload L FileName \<longleftrightarrow>
     2 * (length FileName + 1) > 2 * (length BootPayloadExtensionPattern + 1)
     \<and> StrCmp L BootPayloadExtensionPattern (StrUpr L (drop (length FileName - length BootPayloadExtensionPattern) FileName)) = 0"

text \<open>The loop over the directory, with the handles opened so far. It is left with a status to return, or with the last status.\<close>

partial_function (option) discover_loop ::
    "firmware \<Rightarrow> libs \<Rightarrow> u64 \<Rightarrow> u64 \<Rightarrow> u64 \<Rightarrow> u64 list \<Rightarrow> efi_status \<Rightarrow> 'a uefi_scheme
      \<Rightarrow> ((efi_status + efi_status \<times> u64 \<times> u64 list) \<times> 'a uefi_scheme) option" where
  "discover_loop fw L Volume FileInfoSize FileInfo Handles Status s =
     (if length Handles < MFTAH_MAX_PAYLOADS then
        let (Status, FileInfoSize, s) = file_read fw Volume FileInfoSize FileInfo s; FileName = wide fw (calls s)
        in if Status = EFI_BUFFER_TOO_SMALL then
             let FileInfoSize = push_bit 1 FileInfoSize; s = service (FreePool FileInfo) s;
                 s = service (AllocatePool FileInfoSize) s
             in discover_loop fw L Volume FileInfoSize (ret fw (calls s)) Handles Status s
           else if FileInfoSize = 0 then Some (Inr (Status, FileInfo, Handles), s)
           else if EFI_ERROR Status then Some (Inl Status, s)
           else if is_payload L FileName then
             let s = service (File (OpenFile Volume (upcase_suffix L FileName))) s; Status = ret fw (calls s); PayloadHandle = out fw (calls s)
             in if EFI_ERROR Status then Some (Inl Status, s)
                else discover_loop fw L Volume 4096 FileInfo (Handles @ [PayloadHandle]) Status
                  (s\<lparr>ram := SetMem FileInfo FileInfoSize 0 (ram s)\<rparr>)
           else discover_loop fw L Volume 4096 FileInfo Handles Status (s\<lparr>ram := SetMem FileInfo FileInfoSize 0 (ram s)\<rparr>)
      else Some (Inr (Status, FileInfo, Handles), s))"

text \<open>The handles are returned as a list, if they are stored at all.\<close>

definition DiscoverPayloads ::
    "firmware \<Rightarrow> libs \<Rightarrow> u64 \<Rightarrow> bool \<Rightarrow> u64 \<Rightarrow> 'a loader_state_scheme \<Rightarrow> (efi_status \<times> u64 list option \<times> 'a loader_state_scheme) option" where
  "DiscoverPayloads fw L BaseImageHandle LoadedPayloadHandlesNull LoadedLoaderHash s =
     (if LoadedPayloadHandlesNull then Some (EFI_INVALID_PARAMETER, None, s)
      else
      let s = service (HandleProtocol BaseImageHandle ''gEfiLoadedImageProtocolGuid'') s; Status = ret fw (calls s); DeviceHandle = out fw (calls s)
      in if EFI_ERROR Status then Some (Status, None, s)
      else
      let s = service (HandleProtocol DeviceHandle ''gEfiSimpleFileSystemProtocolGuid'') s; Status = ret fw (calls s); ImageIo = out fw (calls s)
      in if EFI_ERROR Status then Some (Status, None, s)
      else
      let s = service (File (OpenVolume ImageIo)) s; Status = ret fw (calls s); Volume = out fw (calls s)
      in if EFI_ERROR Status then Some (Status, None, s)
      else
      let s = s\<lparr>gOperatingPayload := (gOperatingPayload s)\<lparr>VolumeHandle := Volume\<rparr>\<rparr>;
          s = service (AllocatePool (8 * of_nat MFTAH_MAX_PAYLOADS)) s
      in if ret fw (calls s) = 0 then Some (EFI_OUT_OF_RESOURCES, None, s)
      else
      let s = service (AllocatePool 4096) s; FileInfo = ret fw (calls s)
      in if FileInfo = 0 then Some (EFI_OUT_OF_RESOURCES, None, s)
      else do {
        s \<leftarrow> hash_loader fw L Volume LoadedLoaderHash s;
        (r, s) \<leftarrow> discover_loop fw L Volume 4096 FileInfo [] EFI_SUCCESS s;
        case r of
          Inl Status \<Rightarrow> Some (Status, None, s)
        | Inr (Status, FileInfo, Handles) \<Rightarrow>
            let s = service (FreePool FileInfo) s
            in if EFI_ERROR Status then Some (Status, Some Handles, s)
               else Some (if length Handles = 0 then EFI_NO_PAYLOAD_FOUND
                          else if length Handles = 1 then EFI_SINGLE_PAYLOAD_FOUND else EFI_MULTI_PAYLOAD_FOUND, Some Handles, s)
      })"

section \<open>Selection\<close>

text \<open>The comparison of the name entered with those of the payloads. The outcome is the handle selected, the partial match and the number of partial matches.\<close>

primrec match_loop ::
    "firmware \<Rightarrow> libs \<Rightarrow> u16 list \<Rightarrow> u64 \<Rightarrow> u64 list \<Rightarrow> u64 \<Rightarrow> nat \<Rightarrow> 'a loader_state_scheme
      \<Rightarrow> (u64 option \<times> u64 \<times> nat) \<times> 'a loader_state_scheme" where
  "match_loop fw L SelectedPayloadName SelectedPayloadNameLength [] PartialFileMatch PartialMatchesCount s =
     ((None, PartialFileMatch, PartialMatchesCount), s)"
| "match_loop fw L SelectedPayloadName SelectedPayloadNameLength (h # hs) PartialFileMatch PartialMatchesCount s =
     (let s = service (File (LibFileInfo h)) s; FileInfo = ret fw (calls s); FileName = wide fw (calls s)
      in if FileInfo = 0 then
           match_loop fw L SelectedPayloadName SelectedPayloadNameLength hs PartialFileMatch PartialMatchesCount s
      else
      let s = service (StrDuplicate FileName) s; Shadow = ret fw (calls s); FileName = StrUpr L FileName;
          release = (\<lambda>s. service (FreePool Shadow) (service (FreePool FileInfo) s))
      in if StrnCmp L SelectedPayloadName FileName (ucast MFTAH_MAX_FILENAME_LENGTH) \<noteq> 0 then
           if StrnCmp L SelectedPayloadName FileName SelectedPayloadNameLength = 0 then
             let PartialFileMatch = h; PartialMatchesCount = PartialMatchesCount + 1
             in if PartialMatchesCount = 1 then
                  let s = service (StrDuplicate FileName) s; s = put_name (ret fw (calls s)) s
                  in match_loop fw L SelectedPayloadName SelectedPayloadNameLength hs PartialFileMatch PartialMatchesCount (release s)
                else if PartialMatchesCount = 2 then
                  let s = service (FreePool (Name (gOperatingPayload s))) s; s = put_name 0 s
                  in ((None, PartialFileMatch, PartialMatchesCount), release s)
                else match_loop fw L SelectedPayloadName SelectedPayloadNameLength hs PartialFileMatch PartialMatchesCount (release s)
           else match_loop fw L SelectedPayloadName SelectedPayloadNameLength hs PartialFileMatch PartialMatchesCount (release s)
         else ((Some h, PartialFileMatch, PartialMatchesCount), release s))"

partial_function (option) select_loop ::
    "firmware \<Rightarrow> libs \<Rightarrow> u64 \<Rightarrow> u64 list \<Rightarrow> u64 \<Rightarrow> 'a loader_state_scheme \<Rightarrow> (u64 \<times> 'a loader_state_scheme) option" where
  "select_loop fw L SelectedPayloadName PayloadHandles SelectedPayloadNameLength s = do {
     (Status, stored, s) \<leftarrow> ReadChar16KeyboardInput fw SelectedPayloadName MFTAH_MAX_FILENAME_LENGTH s;
     let SelectedPayloadNameLength = (case stored of None \<Rightarrow> SelectedPayloadNameLength | Some n \<Rightarrow> ucast n);
     let line = wide_at SelectedPayloadName 65 (ram s);
     if EFI_ERROR Status then PANIC s
     else if SelectedPayloadNameLength = 0 then select_loop fw L SelectedPayloadName PayloadHandles SelectedPayloadNameLength s
     else if StrnCmp L line (wstr ''q'') 4 = 0 then Shutdown fw EFI_SUCCESS s
     else
     let line = StrUpr L line; s = s\<lparr>ram := put_wide SelectedPayloadName line (ram s)\<rparr>;
         ((selected, PartialFileMatch, PartialMatchesCount), s) =
           match_loop fw L line SelectedPayloadNameLength PayloadHandles 0 0 s;
         selected = (if PartialMatchesCount = 1 \<and> PartialFileMatch \<noteq> 0 then Some PartialFileMatch else selected)
     in case selected of None \<Rightarrow> select_loop fw L SelectedPayloadName PayloadHandles SelectedPayloadNameLength s
        | Some h \<Rightarrow> Some (h, s)
   }"

text \<open>
  The outcome is the handle of the payload and the position of its file; \<open>SelectedPayloadName\<close> is the address of the buffer.
  The name of a single payload is taken without a test for a missing file information: that run is out of the model, \<open>None\<close>.
\<close>

definition SelectPayload ::
    "firmware \<Rightarrow> libs \<Rightarrow> u64 \<Rightarrow> u64 \<Rightarrow> 'a loader_state_scheme \<Rightarrow> (u64 \<times> u64 \<times> 'a loader_state_scheme) option" where
  "SelectPayload fw L SelectedPayloadName LoadedLoaderHash s = do {
     let s = s\<lparr>ram := SetMem SelectedPayloadName 65 0 (ram s)\<rparr>;
     (Status, stored, s) \<leftarrow> DiscoverPayloads fw L (gImageHandle s) False LoadedLoaderHash s;
     let PayloadHandles = (case stored of None \<Rightarrow> [] | Some hs \<Rightarrow> hs);
     (h, s) \<leftarrow>
       (if Status = EFI_NO_PAYLOAD_FOUND then PANIC s
        else if Status = EFI_MULTI_PAYLOAD_FOUND then do {
          (h, s) \<leftarrow> select_loop fw L SelectedPayloadName PayloadHandles 0 s;
          Some (h, s\<lparr>gOperatingPayload := (gOperatingPayload s)\<lparr>FromMultiSelect := True\<rparr>\<rparr>)
        }
        else if Status = EFI_SINGLE_PAYLOAD_FOUND then
          let s = service (File (LibFileInfo (PayloadHandles ! 0))) s; FileInfo = ret fw (calls s); FileName = wide fw (calls s);
              s = service (StrDuplicate FileName) s; s = put_name (ret fw (calls s)) s;
              s = service (FreePool FileInfo) s
          in if FileInfo = 0 then None else Some (PayloadHandles ! 0, s\<lparr>gOperatingPayload := (gOperatingPayload s)\<lparr>FromMultiSelect := False\<rparr>\<rparr>)
        else PANIC s);
     let s = service (File (GetPosition h)) s;
     if EFI_ERROR (ret fw (calls s)) then PANIC s else Some (h, out fw (calls s), s)
   }"

end
