(* ===== verification/BootMain.thy ===== *)
theory BootMain
  imports Loader
begin

text \<open>
  \<open>src/src/boot/mftah_uefi/main.c\<close> and \<open>graphics.c\<close>: the boot loader from its entry to the start of the image on the
  decrypted RAM disk. The buffers on the stack of \<open>efi_main\<close> are addresses; \<open>None\<close> is \<open>PANIC\<close>, a reset or a wait for a
  user that never ends.
\<close>

section \<open>State\<close>

record boot_state = loader_state +
  gRamdiskImage :: u64
  gRamdiskImageLength :: u64
  MFTAH :: u64

text \<open>The addresses of the local buffers of \<open>efi_main\<close> and of \<open>SelectPayload\<close>.\<close>

record locals =
  Password_at :: u64
  PasswordActual_at :: u64
  LoadedLoaderHash_at :: u64
  LoadedPayloadHash_at :: u64
  SelectedPayloadName_at :: u64

section \<open>Initialisation\<close>

text \<open>\<open>graphics.c\<close>: only the console attributes can fail. The build does not define \<open>MFTAH_FULL_GRAPHICS\<close>, so that nothing calls the detection;
  the interface it finds does not leave it.\<close>

definition DetectGraphicsSupport :: "firmware \<Rightarrow> 'a uefi_scheme \<Rightarrow> efi_status \<times> 'a uefi_scheme" where
  "DetectGraphicsSupport fw s =
     (let s = service (LocateProtocol ''gEfiGraphicsOutputProtocolGuid'') s; Status = ret fw (calls s); GraphicsProtocol = out fw (calls s)
      in if EFI_ERROR Status then (Status, s)
      else if GraphicsProtocol = 0 then (EFI_NOT_FOUND, s) else (EFI_SUCCESS, s))"

definition EntryGraphics :: "firmware \<Rightarrow> 'a uefi_scheme \<Rightarrow> efi_status \<times> 'a uefi_scheme" where
  "EntryGraphics fw s =
     (let s = service (Output SetAttribute) s; s = service (Output EnableCursor) s;
          s = service (Output ClearScreen) s; s = service (Output SetCursorPosition) s;
          s = service (Output SetAttribute) s; Status = ret fw (calls s)
      in if EFI_ERROR Status then (Status, s)
      else let s = service (Output SetAttribute) s; Status = ret fw (calls s)
      in if EFI_ERROR Status then (Status, s) else (EFI_SUCCESS, s))"

definition EnvironmentInitialize :: "firmware \<Rightarrow> libs \<Rightarrow> 'a boot_state_scheme \<Rightarrow> 'a boot_state_scheme option" where
  "EnvironmentInitialize fw L s =
     (let (Status, s) = EntryGraphics fw s
      in if EFI_ERROR Status then PANIC s
      else let (Status, s) = AcpiLoadDriver fw s
      in if EFI_ERROR Status \<or> gAcpiTableProtocol s = 0 then PANIC s
      else let (Status, s) = RDEntryPoint fw (gImageHandle s) s
      in if EFI_ERROR Status \<and> Status \<noteq> EFI_ALREADY_STARTED then PANIC s
      else
      let (p, s) = AllocateZeroPool fw (mftah_protocol_size L) s; s = s\<lparr>MFTAH := p\<rparr>;
          (MftahStatus, s) = mftah fw L (CreateProtocol p) s
      in if MFTAH_ERROR L MftahStatus then PANIC s
      else
      let (hooks_registration, s) = AllocateZeroPool fw (mftah_registration_size L) s;
          (MftahStatus, s) = mftah fw L RegisterHooks s;
          s = service (FreePool hooks_registration) s
      in Some s)"

section \<open>Passwords\<close>

text \<open>The loop of \<open>GetPassword\<close>: an empty line asks again; \<open>q\<close> resets the machine; \<open>b\<close> goes back to the menu if there is one.\<close>

partial_function (option) password_loop ::
    "firmware \<Rightarrow> libs \<Rightarrow> u64 \<Rightarrow> u64 \<Rightarrow> 'a boot_state_scheme \<Rightarrow> (efi_status \<times> u8 \<times> 'a boot_state_scheme) option" where
  "password_loop fw L Password PasswordPrompt s = do {
     let s = s\<lparr>ram := SetMem Password (2 * (ucast MFTAH_MAX_PW_LEN + 1)) 0 (ram s)\<rparr>;
     (Status, stored, s) \<leftarrow> ReadChar16KeyboardInput fw Password MFTAH_MAX_PW_LEN s;
     let PasswordLength = (case stored of None \<Rightarrow> 0 | Some n \<Rightarrow> n);
     let line = wide_at Password 33 (ram s);
     if EFI_ERROR Status then PANIC s
     else if PasswordLength = 0 then password_loop fw L Password PasswordPrompt s
     else if StrnCmp L line (wstr ''q'') 4 = 0 then Shutdown fw EFI_SUCCESS s
     else if FromMultiSelect (gOperatingPayload s) \<and> StrnCmp L line (wstr ''b'') 4 = 0
     then Some (EFI_MENU_GO_BACK, 0, service (FreePool PasswordPrompt) s)
     else Some (EFI_SUCCESS, PasswordLength, service (FreePool PasswordPrompt) s)
   }"

text \<open>The outcome is the status and the length in bytes.\<close>

definition GetPassword :: "firmware \<Rightarrow> libs \<Rightarrow> u64 \<Rightarrow> 'a boot_state_scheme \<Rightarrow> (efi_status \<times> u8 \<times> 'a boot_state_scheme) option" where
  "GetPassword fw L Password s =
     (let (PasswordPrompt, s) = AllocateZeroPool fw 257 s in password_loop fw L Password PasswordPrompt s)"

text \<open>The password as narrow characters: the low byte of every character of the buffer.\<close>

definition narrow :: "u64 \<Rightarrow> nat \<Rightarrow> memory \<Rightarrow> bytes" where
  "narrow PasswordBuffer n m = map (\<lambda>i. m (PasswordBuffer + 2 * of_nat i)) [0..<n]"

text \<open>The end of \<open>CheckPassword\<close>, which every path from the first read on goes to.\<close>

definition CheckPassword_end :: "u64 \<Rightarrow> u64 \<Rightarrow> u64 \<Rightarrow> 'a uefi_scheme \<Rightarrow> 'a uefi_scheme" where
  "CheckPassword_end PasswordBufferChar8 DataBuffer LoadedPayload s =
     service (FreePool LoadedPayload) (service (FreePool DataBuffer) (service (FreePool PasswordBufferChar8) s))"

text \<open>The check itself, once a payload object is made. The outcome is the status and the length stored, if any.\<close>

definition check_loaded ::
    "firmware \<Rightarrow> libs \<Rightarrow> u64 \<Rightarrow> u8 \<Rightarrow> u64 \<Rightarrow> u64 \<Rightarrow> u64 \<Rightarrow> 'a boot_state_scheme \<Rightarrow> efi_status \<times> u8 option \<times> 'a boot_state_scheme" where
  "check_loaded fw L PasswordBuffer PassLen PasswordActual DataBuffer LoadedPayload s =
     (let PassLenChar8 = PassLen div 2;
          (PasswordBufferChar8, s) = AllocateZeroPool fw (ucast PassLenChar8 + 1) s;
          s = s\<lparr>ram := write_at PasswordBufferChar8 (narrow PasswordBuffer (unat PassLenChar8) (ram s)) (ram s)\<rparr>;
          password = mem_bytes (ram s) PasswordBufferChar8 (unat PassLenChar8);
          (MftahStatus, s) = mftah fw L (CheckPasswordHash password) s
      in if MftahStatus = MFTAH_SUCCESS L then
           let s = s\<lparr>ram := CopyMem PasswordActual PasswordBufferChar8 (ucast PassLenChar8) (ram s)\<rparr>
           in (EFI_SUCCESS, Some PassLenChar8, CheckPassword_end PasswordBufferChar8 DataBuffer LoadedPayload s)
         else
           (if MftahStatus = MFTAH_INVALID_PASSWORD L then EFI_INVALID_PASSWORD else EFI_ABORTED, None,
            CheckPassword_end PasswordBufferChar8 DataBuffer LoadedPayload s))"

definition CheckPassword ::
    "firmware \<Rightarrow> libs \<Rightarrow> u64 \<Rightarrow> u64 \<Rightarrow> u8 \<Rightarrow> u64 \<Rightarrow> 'a boot_state_scheme \<Rightarrow> efi_status \<times> u8 option \<times> 'a boot_state_scheme" where
  "CheckPassword fw L PayloadFileHandle PasswordBuffer PassLen PasswordActual s =
     (let InitialReadLength = mftah_payload_header__sizeof L + 16;
          (DataBuffer, s) = AllocateZeroPool fw InitialReadLength s;
          (ReadFileSize, s) = FileSize fw PayloadFileHandle s
      in if ReadFileSize < InitialReadLength \<or> ReadFileSize mod 16 \<noteq> 0 then (EFI_ABORTED, None, service (FreePool DataBuffer) s)
      else
      let s = service (AllocatePool InitialReadLength) s; DataBuffer = ret fw (calls s);
          (Status, InitialReadLengthShadow, s) = file_read fw PayloadFileHandle InitialReadLength DataBuffer s
      in if EFI_ERROR Status then (Status, None, CheckPassword_end 0 DataBuffer 0 s)
      else if InitialReadLengthShadow \<noteq> InitialReadLength then (EFI_END_OF_FILE, None, CheckPassword_end 0 DataBuffer 0 s)
      else
      let s = service (File (SetPosition PayloadFileHandle 0)) s; Status = ret fw (calls s)
      in if EFI_ERROR Status then (Status, None, CheckPassword_end 0 DataBuffer 0 s)
      else
      let (LoadedPayload, s) = AllocateZeroPool fw (mftah_payload__sizeof L) s;
          (MftahStatus, s) = mftah fw L (CreatePayload DataBuffer InitialReadLength) s
      in if MFTAH_ERROR L MftahStatus then (EFI_ABORTED, None, CheckPassword_end 0 DataBuffer LoadedPayload s)
      else check_loaded fw L PasswordBuffer PassLen PasswordActual DataBuffer LoadedPayload s)"

section \<open>The payload\<close>

text \<open>The file in chunks of \<open>MFTAH_RAMDISK_LOAD_BLOCK_SIZE\<close>; how much a read delivered is not looked at.\<close>

partial_function (option) read_loop ::
    "firmware \<Rightarrow> u64 \<Rightarrow> u64 \<Rightarrow> u64 \<Rightarrow> u64 \<Rightarrow> 'a uefi_scheme \<Rightarrow> (efi_status \<times> 'a uefi_scheme) option" where
  "read_loop fw PayloadFileHandle ReadBuffer ReadFileSize i s =
     (if i < ReadFileSize then
        let (Status, FileChunkSize, s) = file_read fw PayloadFileHandle MFTAH_RAMDISK_LOAD_BLOCK_SIZE (ReadBuffer + i) s
        in if EFI_ERROR Status then Some (Status, service (FreePool ReadBuffer) s)
           else read_loop fw PayloadFileHandle ReadBuffer ReadFileSize (i + MFTAH_RAMDISK_LOAD_BLOCK_SIZE) s
      else Some (EFI_SUCCESS, s))"

definition load64 :: "memory \<Rightarrow> u64 \<Rightarrow> u64" where
  "load64 m a = foldr (\<lambda>b v. push_bit 8 v OR ucast b) (mem_bytes m a 8) 0"

text \<open>\<open>LoadAndDecrypt\<close>, with the password as the bytes of its buffer.\<close>

definition LoadAndDecrypt ::
    "firmware \<Rightarrow> libs \<Rightarrow> u64 \<Rightarrow> u64 \<Rightarrow> u8 \<Rightarrow> u64 \<Rightarrow> 'a boot_state_scheme \<Rightarrow> (efi_status \<times> 'a boot_state_scheme) option" where
  "LoadAndDecrypt fw L PayloadFileHandle Password PasswordLength LoadedPayloadHash s =
     (let (ReadFileSize, s) = FileSize fw PayloadFileHandle s
      in if ReadFileSize mod 16 \<noteq> 0 then Some (EFI_ABORTED, s)
      else
      let s = service (AllocateReservedPool ReadFileSize) s; Status = ret fw (calls s); ReadBuffer = out fw (calls s)
      in if Status = EFI_OUT_OF_RESOURCES then PANIC s
      else if ReadBuffer = 0 then PANIC s
      else if EFI_ERROR Status then PANIC s
      else do {
        (Status, s) \<leftarrow> read_loop fw PayloadFileHandle ReadBuffer ReadFileSize 0 s;
        if EFI_ERROR Status then Some (Status, s)
        else
        let (MftahStatus, s) = mftah fw L (CreateHash ReadBuffer ReadFileSize) s;
            (LoadedPayload, s) = AllocateZeroPool fw (mftah_payload__sizeof L) s;
            (MftahStatus, s) = mftah fw L (CreatePayload ReadBuffer ReadFileSize) s
        in if MFTAH_ERROR L MftahStatus then Some (EFI_ABORTED, service (FreePool ReadBuffer) s)
        else
        let (MftahStatus, s) = mftah fw L (Decrypt (mem_bytes (ram s) Password (unat PasswordLength))) s
        in if MFTAH_ERROR L MftahStatus then Some (EFI_ABORTED, service (FreePool ReadBuffer) s)
        else
        let (MftahStatus, s) = mftah fw L GetBufferBase s; PayloadBufferBase = out fw (calls s)
        in if MFTAH_ERROR L MftahStatus \<or> PayloadBufferBase = 0 then Some (EFI_ABORTED, service (FreePool ReadBuffer) s)
        else Some (EFI_SUCCESS, s\<lparr>gRamdiskImage := PayloadBufferBase + mftah_payload_header__sizeof L,
                                  gRamdiskImageLength := load64 (ram s) (PayloadBufferBase + 96)\<rparr>)
      })"

section \<open>Hints for the system that is booted\<close>

text \<open>A copy of a hash in a reserved pool and the variable that holds the pool's address.\<close>

definition hash_hint :: "firmware \<Rightarrow> string \<Rightarrow> u64 \<Rightarrow> 'a uefi_scheme \<Rightarrow> efi_status \<times> 'a uefi_scheme" where
  "hash_hint fw VariableName LoadedHash s =
     (let s = service (AllocateReservedPool 32) s; Status = ret fw (calls s); HashLocationInMemory = out fw (calls s)
      in if EFI_ERROR Status then (Status, s)
      else if HashLocationInMemory = 0 then (EFI_OUT_OF_RESOURCES, s)
      else
      let s = s\<lparr>ram := CopyMem HashLocationInMemory LoadedHash 32 (ram s)\<rparr>;
          s = service (SetVariable VariableName (le64 HashLocationInMemory)) s; Status = ret fw (calls s)
      in if EFI_ERROR Status then (Status, s) else (EFI_SUCCESS, s))"

text \<open>The locations are those of the statics \<open>gRamdiskImage\<close> and \<open>gRamdiskImageLength\<close>, whose values the variables get.\<close>

definition SetEfiVarsHints :: "firmware \<Rightarrow> u64 \<Rightarrow> u64 \<Rightarrow> 'a boot_state_scheme \<Rightarrow> efi_status \<times> 'a boot_state_scheme" where
  "SetEfiVarsHints fw LoadedLoaderHash LoadedPayloadHash s =
     (let s = service (SetVariable ''__MFTAH_RDBASE'' (le64 (gRamdiskImage s))) s; Status = ret fw (calls s)
      in if EFI_ERROR Status then (Status, s)
      else
      let s = service (SetVariable ''__MFTAH_RDSIZE'' (le64 (gRamdiskImageLength s))) s; Status = ret fw (calls s)
      in if EFI_ERROR Status then (Status, s)
      else
      let (Status, s) = hash_hint fw ''__MFTAH_LOADER_HASH'' LoadedLoaderHash s
      in if EFI_ERROR Status then (Status, s) else hash_hint fw ''__MFTAH_PAYLOAD_HASH'' LoadedPayloadHash s)"

section \<open>The RAM disk\<close>

definition gEfiRamdiskVirtualDiskGuid :: bytes where
  "gEfiRamdiskVirtualDiskGuid =
     le32 0x77ab535a @ le16 0x45fc @ le16 0x624b @ [0x55, 0x60, 0xf7, 0xb2, 0x81, 0xd1, 0xf9, 0x6e]"

text \<open>The protocol found on the image's own handle is the one \<open>RDEntryPoint\<close> put there.\<close>

definition WrapperRegisterRamdisk :: "firmware \<Rightarrow> u32 \<Rightarrow> 'a boot_state_scheme \<Rightarrow> (efi_status \<times> 'a boot_state_scheme) option" where
  "WrapperRegisterRamdisk fw MFTAH_RELEASE_DATE s =
     (let s = service (HandleProtocol (gImageHandle s) ''gEfiRamdiskGuid'') s; Status = ret fw (calls s)
      in if EFI_ERROR Status then Some (Status, s)
      else do {
        (Status, stored, s) \<leftarrow>
          RamDiskRegister fw MFTAH_RELEASE_DATE (gRamdiskImage s) (gRamdiskImageLength s) (Some gEfiRamdiskVirtualDiskGuid) 0 False s;
        if EFI_ERROR Status then Some (Status, s)
        else
        let s = service (DevicePathToStr (the stored)) s; DevPathAsStr = ret fw (calls s);
            s = service (FreePool DevPathAsStr) s
        in Some (EFI_SUCCESS, s)
      })"

text \<open>The loop over the volumes: the boot executable of one with the canary file is loaded and started.\<close>

primrec jump_loop :: "firmware \<Rightarrow> u64 list \<Rightarrow> 'a uefi_scheme \<Rightarrow> efi_status \<times> 'a uefi_scheme" where
  "jump_loop fw [] s = (EFI_SUCCESS, s)"
| "jump_loop fw (h # hs) s =
     (let s = service (HandleProtocol h ''gEfiSimpleFileSystemProtocolGuid'') s; Status = ret fw (calls s); fs = out fw (calls s)
      in if EFI_ERROR Status then (Status, s)
      else
      let s = service (File (OpenVolume fs)) s; Status = ret fw (calls s); root = out fw (calls s)
      in if EFI_ERROR Status then (Status, s)
      else
      let s = service (File (OpenFile root CanaryFileName)) s; Status = ret fw (calls s)
      in if EFI_ERROR Status \<and> Status \<noteq> EFI_NOT_FOUND then (Status, s)
      else if Status = EFI_SUCCESS then
        let s = service (FileDevicePath h MFTAH_CHAINLOAD_TARGET_PATH) s; FullFilePath = ret fw (calls s);
            s = service (LoadImage FullFilePath) s; Status = ret fw (calls s); loadedImage = out fw (calls s)
        in if EFI_ERROR Status then (Status, s)
        else
        let s = service (HandleProtocol loadedImage ''gEfiLoadedImageProtocolGuid'') s; Status = ret fw (calls s)
        in if EFI_ERROR Status then (Status, s)
        else
        let s = service (StartImage loadedImage) s; Status = ret fw (calls s)
        in if EFI_ERROR Status then (Status, s)
        else jump_loop fw hs (service (File (CloseFile root)) s)
      else jump_loop fw hs (service (File (CloseFile root)) s))"

definition JumpToRamdisk :: "firmware \<Rightarrow> 'a uefi_scheme \<Rightarrow> efi_status \<times> 'a uefi_scheme" where
  "JumpToRamdisk fw s =
     (let s = service (LocateHandleBuffer ''gEfiBlockIoProtocolGuid'') s; Status = ret fw (calls s)
      in if EFI_ERROR Status then (Status, s)
      else
      let s = service (LocateHandleBuffer ''gEfiDiskIoProtocolGuid'') s; Status = ret fw (calls s)
      in if EFI_ERROR Status then (Status, s)
      else
      let s = service (LocateHandleBuffer ''gEfiSimpleFileSystemProtocolGuid'') s; Status = ret fw (calls s); HandleCount = out fw (calls s)
      in if EFI_ERROR Status then (Status, s)
      else jump_loop fw (map (handles fw (calls s)) [0..<unat HandleCount]) s)"

section \<open>The entry\<close>

text \<open>The loop that unlocks a selected payload. It is left with \<open>False\<close> for going back to the menu.\<close>

partial_function (option) unlock_loop ::
    "firmware \<Rightarrow> libs \<Rightarrow> locals \<Rightarrow> u64 \<Rightarrow> u8 \<Rightarrow> 'a boot_state_scheme \<Rightarrow> (bool \<times> u8 \<times> 'a boot_state_scheme) option" where
  "unlock_loop fw L lo PayloadFileHandle PasswordLengthActual s = do {
     (Status, PasswordLength, s) \<leftarrow> GetPassword fw L (Password_at lo) s;
     if Status = EFI_MENU_GO_BACK then Some (False, PasswordLengthActual, s)
     else if EFI_ERROR Status then PANIC s
     else
     let (Status, stored, s) = CheckPassword fw L PayloadFileHandle (Password_at lo) PasswordLength (PasswordActual_at lo) s;
         PasswordLengthActual = (case stored of None \<Rightarrow> PasswordLengthActual | Some n \<Rightarrow> n)
     in if Status = EFI_INVALID_PASSWORD then unlock_loop fw L lo PayloadFileHandle PasswordLengthActual s
     else if EFI_ERROR Status then PANIC s
     else do {
       (Status, s) \<leftarrow> LoadAndDecrypt fw L PayloadFileHandle (PasswordActual_at lo) PasswordLengthActual (LoadedPayloadHash_at lo) s;
       if EFI_ERROR Status \<or> gRamdiskImage s = 0 \<or> gRamdiskImageLength s = 0 then PANIC s
       else Some (True, PasswordLengthActual,
              s\<lparr>ram := SetMem (PasswordActual_at lo) 33 0 (SetMem (Password_at lo) 65 0 (ram s))\<rparr>)
     }
   }"

partial_function (option) menu_loop ::
    "firmware \<Rightarrow> libs \<Rightarrow> locals \<Rightarrow> u8 \<Rightarrow> 'a boot_state_scheme \<Rightarrow> 'a boot_state_scheme option" where
  "menu_loop fw L lo PasswordLengthActual s = do {
     let s = put_name 0 (service (FreePool (Name (gOperatingPayload s))) s);
     (PayloadFileHandle, _, s) \<leftarrow> SelectPayload fw L (SelectedPayloadName_at lo) (LoadedLoaderHash_at lo) s;
     (unlocked, PasswordLengthActual, s) \<leftarrow> unlock_loop fw L lo PayloadFileHandle PasswordLengthActual s;
     if unlocked then Some s else menu_loop fw L lo PasswordLengthActual s
   }"

text \<open>What comes behind the menu, up to the jump: the hints, with null hashes, and the registration.\<close>

definition offer_ramdisk :: "firmware \<Rightarrow> u32 \<Rightarrow> 'a boot_state_scheme \<Rightarrow> 'a boot_state_scheme option" where
  "offer_ramdisk fw MFTAH_RELEASE_DATE s =
     (let s = service (FreePool (Name (gOperatingPayload s))) s; s = put_name 0 s;
          (Status, s) = SetEfiVarsHints fw 0 0 s
      in if EFI_ERROR Status then PANIC s
      else do {
        (Status, s) \<leftarrow> WrapperRegisterRamdisk fw MFTAH_RELEASE_DATE s;
        if EFI_ERROR Status then PANIC s else Some s
      })"

partial_function (option) any_key :: "firmware \<Rightarrow> 'a uefi_scheme \<Rightarrow> 'a uefi_scheme option" where
  "any_key fw s =
     (let s = service (Input ReadKeyStroke) s in if ret fw (calls s) = EFI_NOT_READY then any_key fw s else Some s)"

text \<open>Everything before the jump: a status to return, or the state in which the disk is ready.\<close>

definition efi_prepare ::
    "firmware \<Rightarrow> libs \<Rightarrow> u32 \<Rightarrow> locals \<Rightarrow> u64 \<Rightarrow> 'a boot_state_scheme \<Rightarrow> (efi_status option \<times> 'a boot_state_scheme) option" where
  "efi_prepare fw L MFTAH_RELEASE_DATE lo ImageHandle s =
     (let s = s\<lparr>ram := SetMem (LoadedPayloadHash_at lo) 32 0 (SetMem (LoadedLoaderHash_at lo) 32 0
                (SetMem (PasswordActual_at lo) 33 0 (SetMem (Password_at lo) 65 0 (ram s))))\<rparr>;
          s = s\<lparr>gImageHandle := ImageHandle\<rparr>;
          s = service SetWatchdogTimer s; Status = ret fw (calls s)
      in if EFI_ERROR Status then Some (Some Status, s)
      else do {
        s \<leftarrow> EnvironmentInitialize fw L s;
        s \<leftarrow> menu_loop fw L lo 0 s;
        s \<leftarrow> offer_ramdisk fw MFTAH_RELEASE_DATE s;
        Some (None, s)
      })"

definition efi_main ::
    "firmware \<Rightarrow> libs \<Rightarrow> u32 \<Rightarrow> locals \<Rightarrow> u64 \<Rightarrow> 'a boot_state_scheme \<Rightarrow> (efi_status \<times> 'a boot_state_scheme) option" where
  "efi_main fw L MFTAH_RELEASE_DATE lo ImageHandle s = do {
     (returned, s) \<leftarrow> efi_prepare fw L MFTAH_RELEASE_DATE lo ImageHandle s;
     case returned of
       Some Status \<Rightarrow> Some (Status, s)
     | None \<Rightarrow>
         let (Status, s) = JumpToRamdisk fw s
         in if EFI_ERROR Status then PANIC s
         else
         let s = service (Input ResetConIn) s; Status = ret fw (calls s)
         in if EFI_ERROR Status then Some (Status, s)
         else do {
           s \<leftarrow> any_key fw s;
           Some (EFI_SUCCESS, service (Output SetAttribute) s)
         }
   }"

end
