(* ===== verification/Emits.thy ===== *)
theory Emits
  imports BootMain
begin

text \<open>
  Following the boot loader through its service calls: \<open>sat\<close> and \<open>ends\<close> state what an outcome satisfies, with one rule for
  each construct of the programs, and \<open>emits\<close> says which calls a run adds. Every operation of the loader up to the jump adds only calls that
  are \<open>harmless\<close>: none of them starts an image.
\<close>

section \<open>Outcomes\<close>

definition sat :: "'a \<Rightarrow> ('a \<Rightarrow> bool) \<Rightarrow> bool" where
  "sat x R \<longleftrightarrow> R x"

definition ends :: "'a option \<Rightarrow> ('a \<Rightarrow> bool) \<Rightarrow> bool" where
  "ends r R \<longleftrightarrow> (\<forall>x. r = Some x \<longrightarrow> R x)"

named_theorems vc

lemma satD: "sat x R \<Longrightarrow> R x"
  by (simp add: sat_def)

lemma sat_if [vc]: "(b \<Longrightarrow> sat x R) \<Longrightarrow> (\<not> b \<Longrightarrow> sat y R) \<Longrightarrow> sat (if b then x else y) R"
  by simp

lemma sat_let [vc]: "(\<And>x. x = e \<Longrightarrow> sat (f x) R) \<Longrightarrow> sat (Let e f) R"
  by simp

lemma sat_prod [vc]: "(\<And>a b. p = (a, b) \<Longrightarrow> sat (f a b) R) \<Longrightarrow> sat (case p of (a, b) \<Rightarrow> f a b) R"
  by (cases p) simp

lemma sat_pair [vc]: "R (a, b) \<Longrightarrow> sat (a, b) R"
  by (simp add: sat_def)

lemma endsD: "ends r R \<Longrightarrow> r = Some x \<Longrightarrow> R x"
  by (simp add: ends_def)

lemma endsI: "(\<And>x. r = Some x \<Longrightarrow> R x) \<Longrightarrow> ends r R"
  by (simp add: ends_def)

lemma ends_Some [vc]: "R x \<Longrightarrow> ends (Some x) R"
  by (simp add: ends_def)

lemma ends_None [vc]: "ends None R"
  by (simp add: ends_def)

lemma ends_PANIC [vc]: "ends (PANIC s) R" "ends (Shutdown fw st t) R"
  by (simp_all add: ends_def PANIC_def Shutdown_def)

lemma ends_if [vc]: "(b \<Longrightarrow> ends x R) \<Longrightarrow> (\<not> b \<Longrightarrow> ends y R) \<Longrightarrow> ends (if b then x else y) R"
  by simp

lemma ends_let [vc]: "(\<And>x. x = e \<Longrightarrow> ends (f x) R) \<Longrightarrow> ends (Let e f) R"
  by simp

lemma ends_prod [vc]: "(\<And>a b. p = (a, b) \<Longrightarrow> ends (f a b) R) \<Longrightarrow> ends (case p of (a, b) \<Rightarrow> f a b) R"
  by (cases p) simp

lemma ends_prod_app [vc]: "(\<And>a b. p = (a, b) \<Longrightarrow> ends (f a b x) R) \<Longrightarrow> ends ((case p of (a, b) \<Rightarrow> f a b) x) R"
  by (cases p) simp

lemma ends_sum [vc]:
  "(\<And>a. x = Inl a \<Longrightarrow> ends (f a) R) \<Longrightarrow> (\<And>b. x = Inr b \<Longrightarrow> ends (g b) R) \<Longrightarrow> ends (case x of Inl a \<Rightarrow> f a | Inr b \<Rightarrow> g b) R"
  by (cases x) simp_all

lemma ends_option [vc]:
  "(x = None \<Longrightarrow> ends y R) \<Longrightarrow> (\<And>a. x = Some a \<Longrightarrow> ends (f a) R) \<Longrightarrow> ends (case x of None \<Rightarrow> y | Some a \<Rightarrow> f a) R"
  by (cases x) simp_all

lemma ends_bind: "ends r S \<Longrightarrow> (\<And>x. S x \<Longrightarrow> ends (f x) R) \<Longrightarrow> ends (r \<bind> f) R"
  by (cases r) (simp_all add: ends_def)

lemma ends_match: "ends r S \<Longrightarrow> (\<And>x. S x \<Longrightarrow> ends (f x) R) \<Longrightarrow> ends (case r of None \<Rightarrow> None | Some x \<Rightarrow> f x) R"
  by (cases r) (simp_all add: ends_def)

lemma ends_mono: "ends r S \<Longrightarrow> (\<And>x. S x \<Longrightarrow> R x) \<Longrightarrow> ends r R"
  by (simp add: ends_def)

lemma ends_map: "ends r S \<Longrightarrow> (\<And>x. S x \<Longrightarrow> R (f x)) \<Longrightarrow> ends (map_option f r) R"
  by (auto simp: ends_def)

section \<open>Calls\<close>

definition emits :: "(efi_call \<Rightarrow> bool) \<Rightarrow> efi_call list \<Rightarrow> efi_call list \<Rightarrow> bool" where
  "emits Q cs cs' \<longleftrightarrow> (\<exists>u. cs' = cs @ u \<and> list_all Q u)"

lemma emits_refl [simp]: "emits Q cs cs"
  by (simp add: emits_def)

lemma emits_calls [simp]: "emits Q cs cs' \<Longrightarrow> list_all Q u \<Longrightarrow> emits Q cs (cs' @ u)"
  by (auto simp: emits_def)

lemma emits_trans: "emits Q cs cs' \<Longrightarrow> emits Q cs' cs'' \<Longrightarrow> emits Q cs cs''"
  by (auto simp: emits_def)

definition harmless :: "efi_call \<Rightarrow> bool" where
  "harmless c \<longleftrightarrow> (\<forall>h. c \<noteq> StartImage h)"

lemma harmless_simps [simp]:
  "harmless (AllocatePool n)" "harmless (AllocateReservedPool n)" "harmless (FreePool p)" "harmless (LocateProtocol g)"
  "harmless (HandleProtocol h g)" "harmless (LocateHandleBuffer g)" "harmless (InstallMultipleProtocolInterfaces h i)"
  "harmless (ConnectController h)" "harmless (GetMemoryMap n p)" "harmless (InstallAcpiTable b)" "harmless (AppendDevicePathNode p node)"
  "harmless (DevicePathToStr p)" "harmless (FileDevicePath h w)" "harmless (StrDuplicate w)" "harmless (StrCat p w)"
  "harmless SetWatchdogTimer" "harmless (SetVariable v b)" "harmless (LoadImage p)" "harmless (Input ic)" "harmless (Output o')"
  "harmless (File f)" "harmless (Mp m)" "harmless (Mftah l)" "harmless (Stall n)" "\<not> harmless (StartImage h)"
  by (auto simp: harmless_def)

text \<open>The small operations. In the rules \<open>cs\<close> is the history some run started from.\<close>

lemma calls_small [simp]:
  "calls (put_name p t) = calls t"
  "calls (snd (mftah fw L c s)) = calls s @ [Mftah c]"
  "calls (snd (AllocateZeroPool fw n s)) = calls s @ [AllocatePool n]"
  "calls (snd (snd (file_read fw h n a s))) = calls s @ [File (ReadFile h n a)]"
  by (simp_all add: put_name_def mftah_def AllocateZeroPool_def file_read_def Let_def)

lemma small_calls:
  "mftah fw L c s = (st, s') \<Longrightarrow> calls s' = calls s @ [Mftah c]"
  "AllocateZeroPool fw n s = (p, s') \<Longrightarrow> calls s' = calls s @ [AllocatePool n]"
  "file_read fw h n a s = (st, k, s') \<Longrightarrow> calls s' = calls s @ [File (ReadFile h n a)]"
  by (auto simp: mftah_def AllocateZeroPool_def file_read_def Let_def split: if_splits)

lemma FileSize_calls:
  "FileSize fw h s = (k, s') \<Longrightarrow> \<exists>u. calls s' = calls s @ u \<and> list_all harmless u"
  by (auto simp: FileSize_def Let_def split: if_splits)

lemmas pool_dests = small_calls(2,3) small_calls(2,3) [OF sym] FileSize_calls FileSize_calls [OF sym]

lemmas call_dests = small_calls small_calls [OF sym] FileSize_calls FileSize_calls [OF sym]

section \<open>The operations\<close>

lemma key_loop_emits:
  assumes "emits harmless cs (calls s)"
  shows "ends (key_loop fw a M len s) (\<lambda>(r, s'). emits harmless cs (calls s'))"
proof (rule endsI)
  fix y assume "key_loop fw a M len s = Some y"
  then show "case y of (r, s') \<Rightarrow> emits harmless cs (calls s')"
  proof (rule key_loop.raw_induct [where P = "\<lambda>fw a M len s y. emits harmless cs (calls s) \<longrightarrow> (case y of (r, s') \<Rightarrow> emits harmless cs (calls s'))",
        rotated, THEN mp, OF _ _ assms], goal_cases)
    case (1 f fw a M len s y)
    have IH: "ends (f fw a M len s) (\<lambda>(r, s'). emits harmless cs (calls s'))" if "emits harmless cs (calls s)" for fw a M len s
      by (rule endsI) (rule mp [OF 1(1) that])
    show ?case by (rule impI, rule endsD [OF _ 1(2)], intro vc IH) simp_all
  qed
qed

lemma ReadChar16KeyboardInput_emits:
  assumes "emits harmless cs (calls s)"
  shows "ends (ReadChar16KeyboardInput fw a M s) (\<lambda>(st, n, s'). emits harmless cs (calls s'))"
  unfolding ReadChar16KeyboardInput_def by (intro vc ends_match [OF key_loop_emits]) (use assms in auto)

lemmas ReadChar16KeyboardInput_bind [vc] = ends_bind [OF ReadChar16KeyboardInput_emits]

lemma loader_chunks_emits:
  assumes "emits harmless cs (calls s)"
  shows "ends (loader_chunks fw h buf i n st s) (\<lambda>(r, s'). emits harmless cs (calls s'))"
proof (rule endsI)
  fix y assume "loader_chunks fw h buf i n st s = Some y"
  then show "case y of (r, s') \<Rightarrow> emits harmless cs (calls s')"
  proof (rule loader_chunks.raw_induct [where P = "\<lambda>fw h buf i n st s y. emits harmless cs (calls s) \<longrightarrow> (case y of (r, s') \<Rightarrow> emits harmless cs (calls s'))",
        rotated, THEN mp, OF _ _ assms], goal_cases)
    case (1 f fw h buf i n st s y)
    have IH: "ends (f fw h buf i n st s) (\<lambda>(r, s'). emits harmless cs (calls s'))" if "emits harmless cs (calls s)" for fw h buf i n st s
      by (rule endsI) (rule mp [OF 1(1) that])
    show ?case by (rule impI, rule endsD [OF _ 1(2)], intro vc IH) (auto dest!: call_dests)
  qed
qed

lemma hash_loader_emits:
  assumes "emits harmless cs (calls s)"
  shows "ends (hash_loader fw L V h s) (\<lambda>s'. emits harmless cs (calls s'))"
  unfolding hash_loader_def
  by (intro vc ends_bind [OF loader_chunks_emits]) (use assms in \<open>auto dest!: call_dests\<close>)

lemma discover_loop_emits:
  assumes "emits harmless cs (calls s)"
  shows "ends (discover_loop fw L V n FI H st s) (\<lambda>(r, s'). emits harmless cs (calls s'))"
proof (rule endsI)
  fix y assume "discover_loop fw L V n FI H st s = Some y"
  then show "case y of (r, s') \<Rightarrow> emits harmless cs (calls s')"
  proof (rule discover_loop.raw_induct [where P = "\<lambda>fw L V n FI H st s y. emits harmless cs (calls s) \<longrightarrow> (case y of (r, s') \<Rightarrow> emits harmless cs (calls s'))",
        rotated, THEN mp, OF _ _ assms], goal_cases)
    case (1 f fw L V n FI H st s y)
    have IH: "ends (f fw L V n FI H st s) (\<lambda>(r, s'). emits harmless cs (calls s'))" if "emits harmless cs (calls s)" for fw L V n FI H st s
      by (rule endsI) (rule mp [OF 1(1) that])
    show ?case by (rule impI, rule endsD [OF _ 1(2)], intro vc IH) (auto dest!: call_dests)
  qed
qed

lemma DiscoverPayloads_emits:
  assumes "emits harmless cs (calls s)"
  shows "ends (DiscoverPayloads fw L h null a s) (\<lambda>(st, hs, s'). emits harmless cs (calls s'))"
  unfolding DiscoverPayloads_def
  by (intro vc ends_bind [OF hash_loader_emits] ends_bind [OF discover_loop_emits]) (use assms in auto)

lemma match_loop_emits:
  "emits harmless cs (calls s) \<Longrightarrow> emits harmless cs (calls (snd (match_loop fw L sel n hs p k s)))"
proof (induction hs arbitrary: p k s)
  case (Cons h hs)
  show ?case
    unfolding match_loop.simps
    by (rule satD [where R = "\<lambda>x. emits harmless cs (calls (snd x))"], intro vc) (use Cons in \<open>simp_all add: sat_def\<close>)
qed simp

lemma match_loop_calls:
  "match_loop fw L sel n hs p k s = (r, s') \<Longrightarrow> \<exists>u. calls s' = calls s @ u \<and> list_all harmless u"
  using match_loop_emits [OF emits_refl, of s fw L sel n hs p k] by (simp add: emits_def)

lemma select_loop_emits:
  assumes "emits harmless cs (calls s)"
  shows "ends (select_loop fw L a hs n s) (\<lambda>(h, s'). emits harmless cs (calls s'))"
proof (rule endsI)
  fix y assume "select_loop fw L a hs n s = Some y"
  then show "case y of (h, s') \<Rightarrow> emits harmless cs (calls s')"
  proof (rule select_loop.raw_induct [where P = "\<lambda>fw L a hs n s y. emits harmless cs (calls s) \<longrightarrow> (case y of (h, s') \<Rightarrow> emits harmless cs (calls s'))",
        rotated, THEN mp, OF _ _ assms], goal_cases)
    case (1 f fw L a hs n s y)
    have IH: "ends (f fw L a hs n s) (\<lambda>(h, s'). emits harmless cs (calls s'))" if "emits harmless cs (calls s)" for fw L a hs n s
      by (rule endsI) (rule mp [OF 1(1) that])
    show ?case by (rule impI, rule endsD [OF _ 1(2)], intro vc IH)
      (auto dest!: match_loop_calls match_loop_calls [OF sym])
  qed
qed

lemma SelectPayload_emits:
  assumes "emits harmless cs (calls s)"
  shows "ends (SelectPayload fw L a h s) (\<lambda>(p, n, s'). emits harmless cs (calls s'))"
  unfolding SelectPayload_def
  by (intro vc ends_bind [OF DiscoverPayloads_emits] ends_bind [OF select_loop_emits]
      ends_bind [where S = "\<lambda>(h, s'). emits harmless cs (calls s')"]) (use assms in auto)

lemma password_loop_emits:
  assumes "emits harmless cs (calls s)"
  shows "ends (password_loop fw L a p s) (\<lambda>(st, n, s'). emits harmless cs (calls s'))"
proof (rule endsI)
  fix y assume "password_loop fw L a p s = Some y"
  then show "case y of (st, n, s') \<Rightarrow> emits harmless cs (calls s')"
  proof (rule password_loop.raw_induct [where P = "\<lambda>fw L a p s y. emits harmless cs (calls s) \<longrightarrow> (case y of (st, n, s') \<Rightarrow> emits harmless cs (calls s'))",
        rotated, THEN mp, OF _ _ assms], goal_cases)
    case (1 f fw L a p s y)
    have IH: "ends (f fw L a p s) (\<lambda>(st, n, s'). emits harmless cs (calls s'))" if "emits harmless cs (calls s)" for fw L a p s
      by (rule endsI) (rule mp [OF 1(1) that])
    show ?case by (rule impI, rule endsD [OF _ 1(2)], intro vc IH) auto
  qed
qed

lemma GetPassword_emits:
  assumes "emits harmless cs (calls s)"
  shows "ends (GetPassword fw L a s) (\<lambda>(st, n, s'). emits harmless cs (calls s'))"
  unfolding GetPassword_def by (intro vc password_loop_emits) (use assms in \<open>auto dest!: call_dests\<close>)

lemma read_loop_emits:
  assumes "emits harmless cs (calls s)"
  shows "ends (read_loop fw h buf n i s) (\<lambda>(st, s'). emits harmless cs (calls s'))"
proof (rule endsI)
  fix y assume "read_loop fw h buf n i s = Some y"
  then show "case y of (st, s') \<Rightarrow> emits harmless cs (calls s')"
  proof (rule read_loop.raw_induct [where P = "\<lambda>fw h buf n i s y. emits harmless cs (calls s) \<longrightarrow> (case y of (st, s') \<Rightarrow> emits harmless cs (calls s'))",
        rotated, THEN mp, OF _ _ assms], goal_cases)
    case (1 f fw h buf n i s y)
    have IH: "ends (f fw h buf n i s) (\<lambda>(st, s'). emits harmless cs (calls s'))" if "emits harmless cs (calls s)" for fw h buf n i s
      by (rule endsI) (rule mp [OF 1(1) that])
    show ?case by (rule impI, rule endsD [OF _ 1(2)], intro vc IH) (auto dest!: call_dests)
  qed
qed

lemma EntryGraphics_calls:
  "EntryGraphics fw s = (st, s') \<Longrightarrow> \<exists>u. calls s' = calls s @ u \<and> list_all harmless u"
  by (auto simp: EntryGraphics_def Let_def split: if_splits)

lemma AcpiLoadDriver_calls:
  "AcpiLoadDriver fw s = (st, s') \<Longrightarrow> \<exists>u. calls s' = calls s @ u \<and> list_all harmless u"
  by (auto simp: AcpiLoadDriver_def AcpiProtocolCheck_def Let_def split: if_splits)

lemma RDEntryPoint_calls:
  "RDEntryPoint fw h s = (st, s') \<Longrightarrow> \<exists>u. calls s' = calls s @ u \<and> list_all harmless u"
  by (auto simp: RDEntryPoint_def Let_def split: if_splits)

lemma EnvironmentInitialize_emits:
  assumes "emits harmless cs (calls s)"
  shows "ends (EnvironmentInitialize fw L s) (\<lambda>s'. emits harmless cs (calls s'))"
  unfolding EnvironmentInitialize_def
  by (intro vc) (use assms in \<open>auto dest!: EntryGraphics_calls [OF sym] AcpiLoadDriver_calls [OF sym] RDEntryPoint_calls [OF sym] call_dests\<close>)

end
