(* ===== verification/BootDemo.thy ===== *)
theory BootDemo
  imports BootMain
begin

text \<open>
  The boot flow evaluated on one machine, for the witnesses of the properties of whole runs. A machine that boots: every service succeeds, the directory holds the single payload, the user types \<open>a\<close> and a
  newline, and the library accepts it.
\<close>

definition demo_name :: "u16 list" where
  "demo_name = wstr ''linux.crows''"

fun demo_ret :: "efi_call \<Rightarrow> u64" where
  "demo_ret (AllocatePool n) = 0x100000"
| "demo_ret (GetMemoryMap n p) = (if p = 0 then EFI_BUFFER_TOO_SMALL else EFI_SUCCESS)"
| "demo_ret (AppendDevicePathNode p node) = 0x200000"
| "demo_ret (DevicePathToStr p) = 0x300000"
| "demo_ret (FileDevicePath h w) = 0x400000"
| "demo_ret (StrDuplicate w) = 0x500000"
| "demo_ret (File (LibFileInfo h)) = 0x600000"
| "demo_ret (File (OpenFile h w)) = (if w = MFTAH_LOADER_EXE_PATH then EFI_NOT_FOUND else EFI_SUCCESS)"
| "demo_ret c = EFI_SUCCESS"

text \<open>The second read of the directory finds no more files; the second key is the newline.\<close>

definition is_dir_read :: "efi_call \<Rightarrow> bool" where
  "is_dir_read c \<longleftrightarrow> c = File (ReadFile 2 4096 0x100000)"

definition is_key :: "efi_call \<Rightarrow> bool" where
  "is_key c \<longleftrightarrow> c = Input ReadKeyStroke"

definition demo_out :: "efi_call list \<Rightarrow> u64" where
  "demo_out t =
     (case last t of
        Input ReadKeyStroke \<Rightarrow> if length (filter is_key t) = 1 then 0x61 else 0x0d
      | File (ReadFile h n p) \<Rightarrow> if h = 2 then (if length (filter is_dir_read t) = 1 then 100 else 0) else n
      | File (LibFileInfo h) \<Rightarrow> 512
      | LoadImage p \<Rightarrow> 9
      | AllocateReservedPool n \<Rightarrow> 0x700000
      | Mftah GetBufferBase \<Rightarrow> 0x2000
      | LocateHandleBuffer g \<Rightarrow> 1
      | File (OpenFile h w) \<Rightarrow> 4
      | c \<Rightarrow> 2)"

definition demo_fw :: firmware where
  "demo_fw = \<lparr>ret = \<lambda>t. demo_ret (last t), out = demo_out, data = \<lambda>_. [], wide = \<lambda>_. demo_name, handles = \<lambda>_ _. 7,
     map_size = \<lambda>_. 48, desc_size = \<lambda>_. 48, desc_at = \<lambda>_ _. \<lparr>PhysicalStart = 0, NumberOfPages = 0x100000\<rparr>, private_data_size = 300\<rparr>"

definition demo_libs :: libs where
  "demo_libs = \<lparr>StrUpr = \<lambda>w. w, StrCmp = \<lambda>_ _. 0, StrnCmp = \<lambda>_ _ _. 1, MFTAH_ERROR = \<lambda>r. r \<noteq> 0, MFTAH_SUCCESS = 0,
     MFTAH_INVALID_PASSWORD = 1, mftah_payload_header__sizeof = 0, mftah_payload__sizeof = 64, mftah_protocol_size = 64,
     mftah_registration_size = 64, effect = \<lambda>_ m. m\<rparr>"

definition demo_locals :: locals where
  "demo_locals = \<lparr>Password_at = 0x8000, PasswordActual_at = 0x8100, LoadedLoaderHash_at = 0x8200, LoadedPayloadHash_at = 0x8300,
     SelectedPayloadName_at = 0x8400\<rparr>"

definition demo_state :: boot_state where
  "demo_state = \<lparr>calls = [], ram = (\<lambda>_. 0)(0x2061 := 2), gAcpiTableProtocol = 0, ramdisks = \<lambda>_. None, ThreadMutex = False,
     mEfiMpServicesProtocol = 0, BspProcessorNumber = 0, MpCount = 0, MpListAt = 0, MpList = [], thread_at = \<lambda>_. None, gImageHandle = 0,
     gOperatingPayload = \<lparr>Payload = 0, FromMultiSelect = False, Name = 0, VolumeHandle = 0, SharedMutex = 0\<rparr>,
     gRamdiskImage = 0, gRamdiskImageLength = 0, MFTAH = 0\<rparr>"

lemmas eval_cong = let_weak_cong if_weak_cong option.case_cong_weak sum.case_cong_weak prod.case_cong_weak

lemma bind_weak_cong: "r = r' \<Longrightarrow> Option.bind r f = Option.bind r' f"
  by simp

lemma demo_fw_simps [simp]:
  "ret demo_fw t = demo_ret (last t)" "out demo_fw = demo_out" "data demo_fw t = []" "wide demo_fw t = demo_name"
  "handles demo_fw t i = 7" "map_size demo_fw t = 48" "desc_size demo_fw t = 48"
  "desc_at demo_fw t i = \<lparr>PhysicalStart = 0, NumberOfPages = 0x100000\<rparr>" "private_data_size demo_fw = 300"
  by (simp_all add: demo_fw_def)

lemma demo_libs_simps [simp]:
  "StrUpr demo_libs w = w" "StrCmp demo_libs v w = 0" "StrnCmp demo_libs v w n = 1" "MFTAH_ERROR demo_libs r \<longleftrightarrow> r \<noteq> 0"
  "MFTAH_SUCCESS demo_libs = 0" "mftah_payload_header__sizeof demo_libs = 0" "mftah_payload__sizeof demo_libs = 64"
  "mftah_protocol_size demo_libs = 64" "mftah_registration_size demo_libs = 64" "effect demo_libs t m = m"
  by (simp_all add: demo_libs_def)

lemma demo_locals_simps [simp]:
  "Password_at demo_locals = 0x8000" "PasswordActual_at demo_locals = 0x8100" "LoadedLoaderHash_at demo_locals = 0x8200"
  "LoadedPayloadHash_at demo_locals = 0x8300" "SelectedPayloadName_at demo_locals = 0x8400"
  by (simp_all add: demo_locals_def)

lemma demo_name_simps [simp]: "length demo_name = 11" "upcase_suffix demo_libs demo_name = demo_name" "is_payload demo_libs demo_name"
  by (simp_all add: demo_name_def upcase_suffix_def is_payload_def)

lemma demo_paths [simp]: "demo_name \<noteq> MFTAH_LOADER_EXE_PATH" "CanaryFileName \<noteq> MFTAH_LOADER_EXE_PATH"
  by (rule notI, drule arg_cong [where f = length], simp add: MFTAH_LOADER_EXE_PATH_def CanaryFileName_def)+

lemma demo_codes [simp]:
  "EFI_SINGLE_PAYLOAD_FOUND \<noteq> EFI_NO_PAYLOAD_FOUND" "EFI_SINGLE_PAYLOAD_FOUND \<noteq> EFI_MULTI_PAYLOAD_FOUND"
  by (simp_all add: EFI_SINGLE_PAYLOAD_FOUND_def EFI_NO_PAYLOAD_FOUND_def EFI_MULTI_PAYLOAD_FOUND_def)

lemma nonzero_codes [simp]: "EFI_MENU_GO_BACK \<noteq> 0" "0 \<noteq> EFI_MENU_GO_BACK" "0 \<noteq> EFI_INVALID_PASSWORD" "EFI_INVALID_PASSWORD \<noteq> 0"
  by (simp_all add: EFI_MENU_GO_BACK_def EFI_INVALID_PASSWORD_def)

lemmas demo_defs = demo_out_def is_key_def is_dir_read_def service_def mftah_def
  AllocateZeroPool_def file_read_def FileSize_def put_name_def demo_state_def Let_def

lemma write_at_nil [simp]: "write_at a [] m = m"
  by (simp add: write_at_def)

section \<open>The run\<close>

text \<open>The states of that run: the calls made, the memory, the pool of the payload's name, the volume, and the disk image.\<close>

definition demo_at :: "efi_call list \<Rightarrow> memory \<Rightarrow> u64 \<Rightarrow> u64 \<Rightarrow> u64 \<Rightarrow> u64 \<Rightarrow> boot_state" where
  "demo_at cs m name volume img len =
     \<lparr>calls = cs, ram = m, gAcpiTableProtocol = 2, ramdisks = \<lambda>_. None, ThreadMutex = False,
      mEfiMpServicesProtocol = 0, BspProcessorNumber = 0, MpCount = 0, MpListAt = 0, MpList = [], thread_at = \<lambda>_. None,
      gImageHandle = 3,
      gOperatingPayload = \<lparr>Payload = 0, FromMultiSelect = False, Name = name, VolumeHandle = volume, SharedMutex = 0\<rparr>,
      gRamdiskImage = img, gRamdiskImageLength = len, MFTAH = 0x100000\<rparr>"

lemma demo_at_simps [simp]:
  "calls (demo_at cs m n v b k) = cs" "ram (demo_at cs m n v b k) = m" "gRamdiskImage (demo_at cs m n v b k) = b"
  "gRamdiskImageLength (demo_at cs m n v b k) = k" "gOperatingPayload (demo_at cs m n v b k) =
     \<lparr>Payload = 0, FromMultiSelect = False, Name = n, VolumeHandle = v, SharedMutex = 0\<rparr>"
  "service c (demo_at cs m n v b k) = demo_at (cs @ [c]) m n v b k" "put_name p (demo_at cs m n v b k) = demo_at cs m p v b k"
  "demo_at cs m n v b k\<lparr>ram := m'\<rparr> = demo_at cs m' n v b k"
  by (simp_all add: demo_at_def service_def put_name_def)

definition demo_calls1 :: "efi_call list" where
  "demo_calls1 =
     [SetWatchdogTimer, Output SetAttribute, Output EnableCursor, Output ClearScreen, Output SetCursorPosition, Output SetAttribute,
      Output SetAttribute, LocateProtocol ''gEfiAcpiTableProtocolGuid'', InstallMultipleProtocolInterfaces 3 [RamDiskProtocol],
      AllocatePool 64, Mftah (CreateProtocol 0x100000), AllocatePool 64, Mftah RegisterHooks, FreePool 0x100000]"

definition demo_calls2 :: "efi_call list" where
  "demo_calls2 = demo_calls1 @
     [FreePool 0, HandleProtocol 3 ''gEfiLoadedImageProtocolGuid'', HandleProtocol 2 ''gEfiSimpleFileSystemProtocolGuid'',
      File (OpenVolume 2), AllocatePool 256, AllocatePool 4096, File (OpenFile 2 MFTAH_LOADER_EXE_PATH),
      File (ReadFile 2 4096 0x100000), File (OpenFile 2 demo_name), File (ReadFile 2 4096 0x100000), FreePool 0x100000,
      File (LibFileInfo 4), StrDuplicate demo_name, FreePool 0x600000, File (GetPosition 4)]"

text \<open>No pool of the run is large, and the firmware puts all of them at one address.\<close>

definition demo_small :: "efi_call \<Rightarrow> bool" where
  "demo_small c \<longleftrightarrow> (case c of AllocatePool n \<Rightarrow> n \<le> 0x10000 | _ \<Rightarrow> True)"

lemma demo_calls_small: "list_all demo_small demo_calls1" "list_all demo_small demo_calls2"
  by (simp_all add: demo_calls1_def demo_calls2_def demo_small_def)

text \<open>The size of the disk image stays where the library put it.\<close>

definition demo_sized :: "memory \<Rightarrow> bool" where
  "demo_sized m \<longleftrightarrow> mem_bytes m 0x2060 8 = [0, 2, 0, 0, 0, 0, 0, 0]"

lemma demo_sized_iff:
  "demo_sized m \<longleftrightarrow> m 0x2060 = 0 \<and> m 0x2061 = 2 \<and> m 0x2062 = 0 \<and> m 0x2063 = 0 \<and> m 0x2064 = 0 \<and> m 0x2065 = 0 \<and> m 0x2066 = 0 \<and> m 0x2067 = 0"
  by (simp add: demo_sized_def mem_bytes_def upt_conv_Cons)

abbreviation (input) "size_at \<equiv> [0x2060, 0x2061, 0x2062, 0x2063, 0x2064, 0x2065, 0x2066, 0x2067 :: u64]"

lemma demo_sized_keeps [simp]:
  "demo_sized m \<Longrightarrow> list_all (\<lambda>x. \<not> x - a < n) size_at \<Longrightarrow> demo_sized (SetMem a n c m)"
  "demo_sized m \<Longrightarrow> list_all (\<lambda>x. \<not> x - a < n) size_at \<Longrightarrow> demo_sized (CopyMem a b n m)"
  "demo_sized m \<Longrightarrow> list_all (\<lambda>x. \<not> unat (x - a) < length bs) size_at \<Longrightarrow> demo_sized (write_at a bs m)"
  "demo_sized m \<Longrightarrow> list_all (\<lambda>x. x \<noteq> a + 2 * of_nat i \<and> x \<noteq> a + 2 * of_nat i + 1) size_at \<Longrightarrow> demo_sized (put16 a i k m)"
  by (simp_all add: demo_sized_iff SetMem_def CopyMem_def write_at_def put16_def in_range_def)

definition demo_ram1 :: memory where
  "demo_ram1 = SetMem 0x100000 64 0 (SetMem 0x100000 64 0 (SetMem 0x8300 32 0 (SetMem 0x8200 32 0
     (SetMem 0x8100 33 0 (SetMem 0x8000 65 0 ((\<lambda>_. 0)(0x2061 := 2)))))))"

lemma demo_ram1_sized: "demo_sized demo_ram1"
  by (simp add: demo_ram1_def demo_sized_iff SetMem_def in_range_def)

lemma demo_start:
  "efi_prepare demo_fw demo_libs 0 demo_locals 3 demo_state =
     menu_loop demo_fw demo_libs demo_locals 0 (demo_at demo_calls1 demo_ram1 0 0 0 0) \<bind> (\<lambda>s. offer_ramdisk demo_fw 0 s \<bind> (\<lambda>s. Some (None, s)))"
  by (simp add: efi_prepare_def EnvironmentInitialize_def EntryGraphics_def AcpiLoadDriver_def AcpiProtocolCheck_def RDEntryPoint_def demo_defs
     demo_at_def demo_calls1_def demo_ram1_def
     cong: eval_cong bind_weak_cong)

lemma demo_menu: "demo_sized m \<Longrightarrow> SelectPayload demo_fw demo_libs 0x8400 0x8200 (demo_at (demo_calls1 @ [FreePool 0]) m 0 0 0 0) =
   Some (4, 2, demo_at demo_calls2 (SetMem 0x100000 100 0 (SetMem 0x8400 65 0 m)) 0x500000 2 0 0)"
  by (simp add: SelectPayload_def DiscoverPayloads_def hash_loader_def discover_loop.simps MFTAH_MAX_PAYLOADS_def demo_defs demo_at_def demo_calls1_def
     demo_calls2_def cong: eval_cong bind_weak_cong)

definition demo_calls3 :: "efi_call list" where
  "demo_calls3 = demo_calls2 @
     [AllocatePool 257, Input ResetConIn, Input WaitForKey, Input ReadKeyStroke, Input ResetConIn, Input WaitForKey,
      Input ReadKeyStroke, Input ResetConIn, FreePool 0x100000]"

lemma demo_pw: "GetPassword demo_fw demo_libs 0x8000 (demo_at demo_calls2 m n v b k) =
  Some (EFI_SUCCESS, 2, demo_at demo_calls3
    (put16 0x8000 32 0 (put16 0x8000 0 97 (SetMem 0x8000 66 0 (SetMem 0x8000 66 0 (SetMem 0x100000 257 0 m))))) n v b k)"
  by (simp add: GetPassword_def password_loop.simps ReadChar16KeyboardInput_def key_loop.simps handle_key_def MFTAH_MAX_PW_LEN_def demo_defs demo_at_def
     demo_calls1_def demo_calls2_def demo_calls3_def cong: eval_cong bind_weak_cong)

lemma demo_calls3_small: "list_all demo_small demo_calls3"
  using demo_calls_small by (simp add: demo_calls3_def demo_small_def)

definition demo_checked :: "memory \<Rightarrow> memory" where
  "demo_checked m = (let m1 = SetMem 0x100000 2 0 (SetMem 0x100000 64 0 (SetMem 0x100000 16 0 m))
     in CopyMem 0x8100 0x100000 1 (write_at 0x100000 (narrow 0x8000 1 m1) m1))"

lemma demo_checked_sized [simp]: "demo_sized m \<Longrightarrow> demo_sized (demo_checked m)"
  by (simp add: demo_checked_def Let_def narrow_def)

lemma demo_check: "\<exists>u. CheckPassword demo_fw demo_libs 4 0x8000 2 0x8100 (demo_at cs m n v b k) =
 (EFI_SUCCESS, Some 1, demo_at (cs @ u) (demo_checked m) n v b k) \<and> list_all demo_small u"
proof -
  have "\<exists>p. CheckPassword demo_fw demo_libs 4 0x8000 2 0x8100 (demo_at cs m n v b k) =
 (EFI_SUCCESS, Some 1, demo_at (cs @ [AllocatePool 16, File (LibFileInfo 4), FreePool 0x600000,
           AllocatePool 16, File (ReadFile 4 16 0x100000), File (SetPosition 4 0), AllocatePool 64,
           Mftah (CreatePayload 0x100000 16), AllocatePool 2, Mftah (CheckPasswordHash p),
           FreePool 0x100000, FreePool 0x100000, FreePool 0x100000]) (demo_checked m) n v b k)"
    by (simp add: CheckPassword_def check_loaded_def CheckPassword_end_def demo_defs demo_at_def demo_checked_def
       cong: eval_cong bind_weak_cong)
  then show ?thesis by (elim exE) (rule exI, erule conjI, simp add: demo_small_def)
qed

lemma demo_size: "demo_sized m \<Longrightarrow> load64 m 0x2060 = 0x200"
  by (simp add: load64_def demo_sized_def)

lemma demo_load:
  assumes "demo_sized m"
  shows "\<exists>u. LoadAndDecrypt demo_fw demo_libs 4 0x8100 1 a (demo_at cs m nn v 0 0) =
     Some (EFI_SUCCESS, demo_at (cs @ u) (SetMem 0x100000 64 0 m) nn v 0x2000 0x200) \<and> list_all demo_small u"
proof -
  have "\<exists>p. LoadAndDecrypt demo_fw demo_libs 4 0x8100 1 a (demo_at cs m nn v 0 0) =
   Some (EFI_SUCCESS, demo_at (cs @ [File (LibFileInfo 4), FreePool 0x600000, AllocateReservedPool 512, File (ReadFile 4 16384 0x700000),
       Mftah (CreateHash 0x700000 512), AllocatePool 64, Mftah (CreatePayload 0x700000 512), Mftah (Decrypt p),
                 Mftah GetBufferBase]) (SetMem 0x100000 64 0 m) nn v 0x2000 0x200)"
    using assms by (simp add: LoadAndDecrypt_def read_loop.simps demo_defs demo_at_def MFTAH_RAMDISK_LOAD_BLOCK_SIZE_def demo_size
       cong: eval_cong bind_weak_cong)
  then show ?thesis by (elim exE) (rule exI, erule conjI, simp add: demo_small_def)
qed

lemma demo_offer: "\<exists>u. list_all demo_small u \<and> map_option calls (offer_ramdisk demo_fw 0 (demo_at cs m n v 0x2000 0x200)) = Some (cs @ u)"
  by (simp add: demo_defs demo_at_def offer_ramdisk_def SetEfiVarsHints_def hash_hint_def WrapperRegisterRamdisk_def RamDiskRegister_def
    register_install_def RamDiskPublishNfit_def RamDiskPublishSsdt_def fetch_memory_map.simps find_memory.simps covers_def mRamDiskPrivateDataTemplate_def
    RAM_DISK_BLOCK_SIZE_def RamDiskInitBlockIo_def put_ramdisk_def demo_small_def
     cong: eval_cong bind_weak_cong)

lemma demo_jump: "\<exists>u s'. JumpToRamdisk demo_fw s = (EFI_SUCCESS, s') \<and> calls s' = calls s @ u \<and> StartImage 9 \<in> set u \<and> list_all demo_small u"
  by (simp add: JumpToRamdisk_def demo_defs demo_small_def cong: eval_cong bind_weak_cong)

lemma demo_unlock:
  assumes "demo_sized m"
  shows "\<exists>cs m'. list_all demo_small cs
    \<and> menu_loop demo_fw demo_libs demo_locals 0 (demo_at demo_calls1 m 0 0 0 0) = Some (demo_at cs m' 0x500000 2 0x2000 0x200)"
proof -
  let ?m = "SetMem 0x100000 100 0 (SetMem 0x8400 65 0 m)"
  let ?m' = "put16 0x8000 32 0 (put16 0x8000 0 97 (SetMem 0x8000 66 0 (SetMem 0x8000 66 0 (SetMem 0x100000 257 0 ?m))))"
  have "demo_sized (demo_checked ?m')" using assms by simp
  note load = demo_load [OF this, where cs = cs for cs]
  obtain u where check: "CheckPassword demo_fw demo_libs 4 0x8000 2 0x8100 (demo_at demo_calls3 ?m' 0x500000 2 0 0) =
     (EFI_SUCCESS, Some 1, demo_at (demo_calls3 @ u) (demo_checked ?m') 0x500000 2 0 0)" and u: "list_all demo_small u"
    using demo_check by blast
  obtain w where "LoadAndDecrypt demo_fw demo_libs 4 0x8100 1 0x8300 (demo_at (demo_calls3 @ u) (demo_checked ?m') 0x500000 2 0 0) =
     Some (EFI_SUCCESS, demo_at ((demo_calls3 @ u) @ w) (SetMem 0x100000 64 0 (demo_checked ?m')) 0x500000 2 0x2000 0x200)"
    and w: "list_all demo_small w"
    using load by blast
  with check have "\<exists>m'. menu_loop demo_fw demo_libs demo_locals 0 (demo_at demo_calls1 m 0 0 0 0) =
      Some (demo_at (demo_calls3 @ u @ w) m' 0x500000 2 0x2000 0x200)"
    by (simp add: menu_loop.simps unlock_loop.simps demo_menu [OF assms] demo_pw) blast
  moreover have "list_all demo_small (demo_calls3 @ u @ w)" using u w demo_calls3_small by simp
  ultimately show ?thesis by blast
qed

lemma demo_ready:
  "\<exists>s. efi_prepare demo_fw demo_libs 0 demo_locals 3 demo_state = Some (None, s) \<and> list_all demo_small (calls s)"
proof -
  obtain cs m where cs: "list_all demo_small cs" and menu: "menu_loop demo_fw demo_libs demo_locals 0 (demo_at demo_calls1 demo_ram1 0 0 0 0) =
      Some (demo_at cs m 0x500000 2 0x2000 0x200)"
    using demo_unlock [OF demo_ram1_sized] by blast
  obtain s u where "offer_ramdisk demo_fw 0 (demo_at cs m 0x500000 2 0x2000 0x200) = Some s" "calls s = cs @ u" "list_all demo_small u"
    using demo_offer [of cs m "0x500000" 2] by auto
  then show ?thesis using menu cs by (simp add: demo_start)
qed

lemma demo_boots:
  "\<exists>s'. efi_main demo_fw demo_libs 0 demo_locals 3 demo_state = Some (EFI_SUCCESS, s') \<and> StartImage 9 \<in> set (calls s')
    \<and> list_all demo_small (calls s')"
proof -
  obtain s where ready: "efi_prepare demo_fw demo_libs 0 demo_locals 3 demo_state = Some (None, s)" "list_all demo_small (calls s)"
    using demo_ready by blast
  obtain u s' where "JumpToRamdisk demo_fw s = (EFI_SUCCESS, s')" "calls s' = calls s @ u" "StartImage 9 \<in> set u" "list_all demo_small u"
    using demo_jump by blast
  then show ?thesis using ready by (simp add: efi_main_def any_key.simps demo_small_def)
qed

end
