(* ===== verification/BootSafety.thy ===== *)
theory BootSafety
  imports Emits BootDemo
begin

text \<open>
  What the boot loader guarantees as a whole: no image is started before a password was accepted and the payload
  decrypted, and only from a volume with the canary file; the disk that is offered is the decrypted payload.
\<close>

section \<open>Calls and their answers\<close>

text \<open>Between the histories \<open>cs\<close> and \<open>cs'\<close> the call \<open>c\<close> was made and its status satisfied \<open>A\<close>.\<close>

definition answered :: "firmware \<Rightarrow> efi_call \<Rightarrow> (u64 \<Rightarrow> bool) \<Rightarrow> efi_call list \<Rightarrow> efi_call list \<Rightarrow> bool" where
  "answered fw c A cs cs' \<longleftrightarrow> (\<exists>a b. cs' = cs @ a @ c # b \<and> A (ret fw (cs @ a @ [c])))"

lemma answeredI: "A (ret fw (cs @ a @ [c])) \<Longrightarrow> answered fw c A cs (cs @ a @ c # b)"
  by (auto simp: answered_def)

lemma answered_later: "answered fw c A cs cs' \<Longrightarrow> emits Q cs' cs'' \<Longrightarrow> answered fw c A cs cs''"
  unfolding answered_def emits_def by (metis append.assoc append_Cons)

lemma answered_earlier: "answered fw c A cs cs' \<Longrightarrow> emits Q cs0 cs \<Longrightarrow> answered fw c A cs0 cs'"
  unfolding answered_def emits_def by (metis append.assoc)

lemma answered_hit: "A (ret fw (cs @ [c])) \<Longrightarrow> answered fw c A cs (cs @ c # u)"
  using answeredI [of A fw cs "[]" c u] by simp

lemma answered_second: "A (ret fw (cs @ [d, c])) \<Longrightarrow> answered fw c A cs (cs @ d # c # u)"
  using answeredI [of A fw cs "[d]" c u] by simp

lemma answered_fourth:
  assumes "emits Q cs cs'" and "A (ret fw (cs' @ [x, y, z, c]))"
  shows "answered fw c A cs (cs' @ x # y # z # c # u)"
  using answered_earlier [OF answeredI [of A fw cs' "[x, y, z]" c u] assms(1)] assms(2) by simp

text \<open>The call just made.\<close>

lemma answered_now: "A (ret fw (cs' @ [c])) \<Longrightarrow> emits Q cs cs' \<Longrightarrow> answered fw c A cs (cs' @ [c])"
  unfolding emits_def using answeredI [of A fw cs _ c "[]"] by auto

lemma emits_any: "emits Q cs cs' \<Longrightarrow> emits (\<lambda>_. True) cs cs'"
  by (auto simp: emits_def list_all_iff)

section \<open>Passwords\<close>

text \<open>The last call of the history \<open>t\<close> does not write to the memory \<open>R\<close>: not by clearing the pool it allocates, by the data of the file it reads
  nor by the library's effect. In a run that \<open>spares\<close> \<open>R\<close>, given by its history, no call does.\<close>

definition misses :: "firmware \<Rightarrow> libs \<Rightarrow> (u64 \<Rightarrow> bool) \<Rightarrow> efi_call list \<Rightarrow> bool" where
  "misses fw L R t \<longleftrightarrow> (\<forall>x. R x \<longrightarrow>
     (case last t of
        AllocatePool n \<Rightarrow> ret fw t \<noteq> 0 \<longrightarrow> \<not> in_range (ret fw t) n x
      | File (ReadFile h n a) \<Rightarrow> \<not> unat (x - a) < length (data fw t)
      | Mftah c \<Rightarrow> (\<forall>m. effect L t m x = m x)
      | _ \<Rightarrow> True))"

primrec spared :: "firmware \<Rightarrow> libs \<Rightarrow> (u64 \<Rightarrow> bool) \<Rightarrow> efi_call list \<Rightarrow> efi_call list \<Rightarrow> bool" where
  "spared fw L R cs [] \<longleftrightarrow> True"
| "spared fw L R cs (c # u) \<longleftrightarrow> misses fw L R (cs @ [c]) \<and> spared fw L R (cs @ [c]) u"

definition spares :: "firmware \<Rightarrow> libs \<Rightarrow> (u64 \<Rightarrow> bool) \<Rightarrow> efi_call list \<Rightarrow> bool" where
  "spares fw L R cs \<longleftrightarrow> spared fw L R [] cs"

lemma spared_append [simp]: "spared fw L R cs (u @ v) \<longleftrightarrow> spared fw L R cs u \<and> spared fw L R (cs @ u) v"
  by (induction u arbitrary: cs) auto

lemma spares_append [simp]: "spares fw L R (cs @ u) \<longleftrightarrow> spares fw L R cs \<and> spared fw L R cs u"
  by (simp add: spares_def)

lemma spares_emits: "spares fw L R cs' \<Longrightarrow> emits Q cs cs' \<Longrightarrow> spares fw L R cs"
  by (auto simp: emits_def)

lemma misses_part: "misses fw L R t \<Longrightarrow> (\<And>x. R' x \<Longrightarrow> R x) \<Longrightarrow> misses fw L R' t"
  unfolding misses_def by blast

lemma spares_part: "spares fw L R cs \<Longrightarrow> (\<And>x. R' x \<Longrightarrow> R x) \<Longrightarrow> spares fw L R' cs"
proof -
  assume part: "\<And>x. R' x \<Longrightarrow> R x"
  have "spared fw L R t u \<Longrightarrow> spared fw L R' t u" for t u
    by (induction u arbitrary: t) (auto intro: misses_part part)
  then show "spares fw L R cs \<Longrightarrow> spares fw L R' cs" by (simp add: spares_def)
qed

text \<open>Checking a password writes nothing.\<close>

definition checks_purely :: "libs \<Rightarrow> bool" where
  "checks_purely L \<longleftrightarrow> (\<forall>t p m. last t = Mftah (CheckPasswordHash p) \<longrightarrow> effect L t m = m)"

definition view :: "(u64 \<Rightarrow> bool) \<Rightarrow> memory \<Rightarrow> memory" where
  "view R m = (\<lambda>x. if R x then m x else 0)"

lemma missed_small:
  "mftah fw L c s = (st, s') \<Longrightarrow> misses fw L R (calls s @ [Mftah c]) \<Longrightarrow> view R (ram s') = view R (ram s)"
  "AllocateZeroPool fw n s = (p, s') \<Longrightarrow> misses fw L R (calls s @ [AllocatePool n]) \<Longrightarrow> view R (ram s') = view R (ram s)"
  "file_read fw h n a s = (st, k, s') \<Longrightarrow> misses fw L R (calls s @ [File (ReadFile h n a)]) \<Longrightarrow> view R (ram s') = view R (ram s)"
  by (auto simp: view_def misses_def mftah_def AllocateZeroPool_def file_read_def SetMem_def write_at_def Let_def split: if_splits)

lemma FileSize_ram: "FileSize fw h s = (k, s') \<Longrightarrow> ram s' = ram s"
  by (auto simp: FileSize_def Let_def split: if_splits)

lemma view_bytes:
  assumes "view (in_range a (of_nat n)) m' = view (in_range a (of_nat n)) m" and "n < 2 ^ 64"
  shows "mem_bytes m' a n = mem_bytes m a n"
proof (rule mem_bytes_cong)
  fix i assume "i < n"
  then have "in_range a (of_nat n) (a + of_nat i)" using assms(2) by (simp add: in_range_def word_less_nat_alt unat_of_nat_u64)
  then show "m' (a + of_nat i) = m (a + of_nat i)" using fun_cong [OF assms(1), of "a + of_nat i"] by (simp add: view_def)
qed

lemma mftahD:
  "mftah fw L c s = (st, s') \<Longrightarrow> calls s' = calls s @ [Mftah c] \<and> st = ret fw (calls s @ [Mftah c])
     \<and> ram s' = effect L (calls s @ [Mftah c]) (ram s)"
  by (auto simp: mftah_def Let_def)

text \<open>The calls of each small operation, and the memory it misses.\<close>

lemma step_dests:
  "mftah fw L c s = (st, s') \<Longrightarrow> calls s' = calls s @ [Mftah c] \<and> st = ret fw (calls s @ [Mftah c])
     \<and> ram s' = effect L (calls s @ [Mftah c]) (ram s)
     \<and> (\<forall>R. misses fw L R (calls s @ [Mftah c]) \<longrightarrow> view R (effect L (calls s @ [Mftah c]) (ram s)) = view R (ram s))"
  "AllocateZeroPool fw n s = (p, s') \<Longrightarrow> calls s' = calls s @ [AllocatePool n]
     \<and> (\<forall>L R. misses fw L R (calls s @ [AllocatePool n]) \<longrightarrow> view R (ram s') = view R (ram s))"
  "file_read fw h n a s = (st, k, s') \<Longrightarrow> calls s' = calls s @ [File (ReadFile h n a)]
     \<and> (\<forall>L R. misses fw L R (calls s @ [File (ReadFile h n a)]) \<longrightarrow> view R (ram s') = view R (ram s))"
  "FileSize fw h s = (k, s') \<Longrightarrow> (\<exists>u. calls s' = calls s @ u \<and> list_all harmless u) \<and> ram s' = ram s"
  using small_calls [of fw] missed_small [of fw] mftahD [of fw] FileSize_calls [of fw] FileSize_ram [of fw] by metis+

lemmas step_dests' = step_dests step_dests [OF sym]

text \<open>A check that ends without an error was a check of a password that the library accepted.\<close>

definition accepts :: "firmware \<Rightarrow> libs \<Rightarrow> u64 \<Rightarrow> u8 \<Rightarrow> efi_call list \<Rightarrow> efi_status \<times> u8 option \<times> 'a uefi_scheme \<Rightarrow> bool" where
  "accepts fw L A n cs = (\<lambda>(st, stored, s'). emits harmless cs (calls s')
     \<and> (\<not> EFI_ERROR st \<longrightarrow> (\<exists>p. answered fw (Mftah (CheckPasswordHash p)) (\<lambda>r. r = MFTAH_SUCCESS L) cs (calls s')
         \<and> stored = Some (n div 2) \<and> (checks_purely L \<longrightarrow> mem_bytes (ram s') A (unat (n div 2)) = p))))"

lemma accepts_earlier:
  "sat x (accepts fw L A n cs') \<Longrightarrow> emits harmless cs cs' \<Longrightarrow> sat x (accepts fw L A n cs)"
  by (auto simp: sat_def accepts_def intro: emits_trans dest: answered_earlier)

lemma accepts_error: "EFI_ERROR st \<Longrightarrow> emits harmless cs (calls s') \<Longrightarrow> accepts fw L A n cs (st, x, s')"
  by (simp add: accepts_def)

lemma unat_ucast_u8: "unat (ucast (n :: u8) :: u64) = unat n"
  using unsigned_less [of n, where ?'a = nat] by (simp add: unsigned_ucast_eq take_bit_nat_eq_self)

lemma check_loaded_accepts: "sat (check_loaded fw L P n A D p s) (accepts fw L A n (calls s))"
proof -
  have cast: "unat (ucast (n div 2) :: u64) = unat (n div 2)" by (rule unat_ucast_u8)
  show ?thesis
    unfolding check_loaded_def CheckPassword_end_def
    by (intro vc) (auto simp: accepts_def payload_codes checks_purely_def CopyMem_dst [where n = "ucast (n div 2)", unfolded cast]
        dest!: mftahD [OF sym] pool_dests intro!: exI answered_second)
qed

lemma CheckPassword_accepts: "sat (CheckPassword fw L h P n A s) (accepts fw L A n (calls s))"
  unfolding CheckPassword_def CheckPassword_end_def
  by (intro vc accepts_earlier [OF check_loaded_accepts])
    (auto simp: payload_codes intro!: accepts_error dest!: call_dests)

section \<open>Decryption\<close>

lemma read_loop_spares:
  assumes "emits harmless cs (calls s)" and "spares fw L R (calls s) \<longrightarrow> view R (ram s) = v"
  shows "ends (read_loop fw h buf n i s) (\<lambda>(st, s'). emits harmless cs (calls s') \<and> (spares fw L R (calls s') \<longrightarrow> view R (ram s') = v))"
proof (rule endsI)
  fix y assume "read_loop fw h buf n i s = Some y"
  then show "case y of (st, s') \<Rightarrow> emits harmless cs (calls s') \<and> (spares fw L R (calls s') \<longrightarrow> view R (ram s') = v)"
  proof (rule read_loop.raw_induct [where P = "\<lambda>fw h buf n i s y. emits harmless cs (calls s) \<and> (spares fw L R (calls s) \<longrightarrow> view R (ram s) = v)
        \<longrightarrow> (case y of (st, s') \<Rightarrow> emits harmless cs (calls s') \<and> (spares fw L R (calls s') \<longrightarrow> view R (ram s') = v))",
        rotated, THEN mp, OF _ _ conjI [OF assms]], goal_cases)
    case (1 f fw h buf n i s y)
    have IH: "ends (f fw h buf n i s) (\<lambda>(st, s'). emits harmless cs (calls s') \<and> (spares fw L R (calls s') \<longrightarrow> view R (ram s') = v))"
      if "emits harmless cs (calls s) \<and> (spares fw L R (calls s) \<longrightarrow> view R (ram s) = v)" for fw h buf n i s
      by (rule endsI) (rule mp [OF 1(1) that])
    show ?case by (rule impI, rule endsD [OF _ 1(2)], intro vc IH) (auto dest!: step_dests')
  qed
qed

lemma view_password:
  assumes "view (in_range P (ucast n)) m' = view (in_range P (ucast (n :: u8))) m"
  shows "mem_bytes m' P (unat n) = mem_bytes m P (unat n)"
proof -
  have "(ucast n :: u64) = of_nat (unat n)" by simp
  moreover have "unat n < 2 ^ 64" using unsigned_less [of n, where ?'a = nat] by simp
  ultimately show ?thesis using view_bytes [of P "unat n" m' m] assms by simp
qed

text \<open>Between the histories the library decrypted a payload with \<open>p\<close>, without an error, and was then asked for the base of the result. \<open>m\<close> is the
  memory as the library left it, the image starts at \<open>a\<close>, behind the header, and its length \<open>n\<close> is the field of the header at offset 96.\<close>

definition based :: "firmware \<Rightarrow> libs \<Rightarrow> bytes \<Rightarrow> efi_call list \<Rightarrow> efi_call list \<Rightarrow> u64 \<Rightarrow> u64 \<Rightarrow> memory \<Rightarrow> bool" where
  "based fw L p cs cs' a n m \<longleftrightarrow> (\<exists>t m0 v. cs' = cs @ t @ Mftah (Decrypt p) # Mftah GetBufferBase # v
     \<and> \<not> MFTAH_ERROR L (ret fw (cs @ t @ [Mftah (Decrypt p)]))
     \<and> m = effect L (cs @ t @ [Mftah (Decrypt p), Mftah GetBufferBase]) (effect L (cs @ t @ [Mftah (Decrypt p)]) m0)
     \<and> a = out fw (cs @ t @ [Mftah (Decrypt p), Mftah GetBufferBase]) + mftah_payload_header__sizeof L
     \<and> n = load64 m (out fw (cs @ t @ [Mftah (Decrypt p), Mftah GetBufferBase]) + 96))"

lemma based_later: "based fw L p cs cs' a n m \<Longrightarrow> emits Q cs' cs'' \<Longrightarrow> based fw L p cs cs'' a n m"
  unfolding based_def emits_def by (metis append.assoc append_Cons)

lemma based_earlier: "based fw L p cs cs' a n m \<Longrightarrow> emits Q cs0 cs \<Longrightarrow> based fw L p cs0 cs' a n m"
  unfolding based_def emits_def by (metis append.assoc)

lemma based_answered: "based fw L p cs cs' a n m \<Longrightarrow> answered fw (Mftah (Decrypt p)) (\<lambda>r. \<not> MFTAH_ERROR L r) cs cs'"
  unfolding based_def answered_def by blast

lemma based_fifth:
  assumes "emits Q cs cs'" and "\<not> MFTAH_ERROR L (ret fw (cs' @ [x, y, z, Mftah (Decrypt p)]))"
    and "m = effect L (cs' @ [x, y, z, Mftah (Decrypt p), Mftah GetBufferBase]) (effect L (cs' @ [x, y, z, Mftah (Decrypt p)]) m0)"
    and "a = out fw (cs' @ [x, y, z, Mftah (Decrypt p), Mftah GetBufferBase]) + mftah_payload_header__sizeof L"
    and "n = load64 m (out fw (cs' @ [x, y, z, Mftah (Decrypt p), Mftah GetBufferBase]) + 96)"
  shows "based fw L p cs (cs' @ [x, y, z, Mftah (Decrypt p), Mftah GetBufferBase]) a n m"
proof -
  from assms(1) obtain u where "cs' = cs @ u" by (auto simp: emits_def)
  then show ?thesis unfolding based_def using assms(2-)
    by (intro exI [of _ "u @ [x, y, z]"] exI [of _ m0] exI [of _ "[]"]) simp
qed

text \<open>A load that ends without an error decrypted the payload, with the password in the buffer, and took the image from there.\<close>

definition decrypts :: "firmware \<Rightarrow> libs \<Rightarrow> u64 \<Rightarrow> u8 \<Rightarrow> 'a boot_state_scheme \<Rightarrow> efi_status \<times> 'a boot_state_scheme \<Rightarrow> bool" where
  "decrypts fw L P n s = (\<lambda>(st, s'). emits harmless (calls s) (calls s')
     \<and> (\<not> EFI_ERROR st \<longrightarrow> (\<exists>p. based fw L p (calls s) (calls s') (gRamdiskImage s') (gRamdiskImageLength s') (ram s')
         \<and> (spares fw L (in_range P (ucast n)) (calls s') \<longrightarrow> p = mem_bytes (ram s) P (unat n)))))"

lemma LoadAndDecrypt_decrypts: "ends (LoadAndDecrypt fw L h P n A s) (decrypts fw L P n s)"
  unfolding LoadAndDecrypt_def
  by (intro vc ends_bind [OF read_loop_spares [where R = "in_range P (ucast n)" and v = "view (in_range P (ucast n)) (ram s)" and L = L and cs = "calls s"]])
    (auto simp: decrypts_def dest!: step_dests' intro!: exI based_fifth view_password)

section \<open>The line entered\<close>

lemma key_loop_length:
  assumes "len \<le> M"
  shows "ends (key_loop fw a M len s) (\<lambda>(r, s'). \<forall>st n. r = Inr (st, n) \<longrightarrow> n \<le> M)"
proof (rule endsI)
  fix y assume "key_loop fw a M len s = Some y"
  then show "case y of (r, s') \<Rightarrow> \<forall>st n. r = Inr (st, n) \<longrightarrow> n \<le> M"
  proof (rule key_loop.raw_induct [where P = "\<lambda>fw a M len s y. len \<le> M \<longrightarrow> (case y of (r, s') \<Rightarrow> \<forall>st n. r = Inr (st, n) \<longrightarrow> n \<le> M)",
        rotated, THEN mp, OF _ _ assms], goal_cases)
    case (1 f fw a M len s y)
    have IH: "ends (f fw a M len s) (\<lambda>(r, s'). \<forall>st n. r = Inr (st, n) \<longrightarrow> n \<le> M)" if "len \<le> M" for fw a M len s
      by (rule endsI) (rule mp [OF 1(1) that])
    have "len' \<le> M" if "handle_key a M c len m = Some (len', m')" "len \<le> M" for c m len' m'
    proof -
      have "len - 1 \<le> len" if "len > 0" using that by (simp add: word_le_nat_alt unat_sub_if_size word_less_nat_alt)
      moreover have "len + 1 \<le> M" if "len < M" using that by (rule inc_le)
      ultimately show ?thesis using that by (auto simp: handle_key_def Let_def split: if_splits intro: order_trans)
    qed
    note len = this
    show ?case by (rule impI, rule endsD [OF _ 1(2)], intro vc IH) (auto intro: len)
  qed
qed

declare ReadChar16KeyboardInput_bind [vc del]

lemma ReadChar16KeyboardInput_length:
  "ends (ReadChar16KeyboardInput fw a M s) (\<lambda>(st, stored, s'). (\<forall>k. stored = Some k \<longrightarrow> (\<exists>n \<le> M. k = n * 2))
     \<and> emits harmless (calls s) (calls s'))"
proof (rule endsI)
  fix y assume r: "ReadChar16KeyboardInput fw a M s = Some y"
  have "ends (ReadChar16KeyboardInput fw a M s) (\<lambda>(st, stored, s'). \<forall>k. stored = Some k \<longrightarrow> (\<exists>n \<le> M. k = n * 2))"
    unfolding ReadChar16KeyboardInput_def by (intro vc ends_match [OF key_loop_length]) auto
  from endsD [OF this r] endsD [OF ReadChar16KeyboardInput_emits [OF emits_refl] r]
  show "case y of (st, stored, s') \<Rightarrow> (\<forall>k. stored = Some k \<longrightarrow> (\<exists>n \<le> M. k = n * 2)) \<and> emits harmless (calls s) (calls s')"
    by auto
qed

text \<open>A password of the menu's user, in bytes: it is not empty and fits the buffer.\<close>

definition entered :: "efi_call list \<Rightarrow> efi_status \<times> u8 \<times> 'a uefi_scheme \<Rightarrow> bool" where
  "entered cs = (\<lambda>(st, n, s'). emits harmless cs (calls s') \<and> (st = EFI_SUCCESS \<or> st = EFI_MENU_GO_BACK)
     \<and> (st = EFI_SUCCESS \<longrightarrow> n \<noteq> 0 \<and> unat (n div 2) \<le> 32))"

lemma password_bytes:
  assumes "k = n * 2" and "n \<le> MFTAH_MAX_PW_LEN"
  shows "unat (k div 2) \<le> 32"
proof -
  have n: "unat n \<le> 32" using assms(2) by (simp add: MFTAH_MAX_PW_LEN_def word_le_nat_alt)
  then have "unat k = unat n * 2" using assms(1) by (simp add: unat_word_ariths)
  then show ?thesis using n by (simp add: unat_div)
qed

lemma go_back_not_success [simp]: "EFI_MENU_GO_BACK \<noteq> EFI_SUCCESS"
  using payload_codes(4) EFI_ERROR_SUCCESS by metis

lemma password_loop_entered:
  assumes "emits harmless cs (calls s)"
  shows "ends (password_loop fw L a p s) (entered cs)"
proof (rule endsI)
  fix y assume "password_loop fw L a p s = Some y"
  then show "entered cs y"
  proof (rule password_loop.raw_induct [where P = "\<lambda>fw L a p s y. emits harmless cs (calls s) \<longrightarrow> entered cs y",
        rotated, THEN mp, OF _ _ assms], goal_cases)
    case (1 f fw L a p s y)
    have IH: "ends (f fw L a p s) (entered cs)" if "emits harmless cs (calls s)" for fw L a p s
      by (rule endsI) (rule mp [OF 1(1) that])
    show ?case by (rule impI, rule endsD [OF _ 1(2)], intro vc IH ends_bind [OF ReadChar16KeyboardInput_length])
      (auto simp: entered_def intro: emits_trans password_bytes split: option.splits)
  qed
qed

lemma GetPassword_entered: "emits harmless cs (calls s) \<Longrightarrow> ends (GetPassword fw L a s) (entered cs)"
  unfolding GetPassword_def by (intro vc password_loop_entered) (auto dest!: call_dests)

section \<open>Unlocking\<close>

text \<open>Between two histories a password was accepted and a payload decrypted with \<open>q\<close> after that. It is the very password that was accepted, if
  checking a password writes nothing and no call of the run writes to the buffer at \<open>A\<close> that it is kept in.\<close>

definition unlocks :: "firmware \<Rightarrow> libs \<Rightarrow> u64 \<Rightarrow> bytes \<Rightarrow> efi_call list \<Rightarrow> efi_call list \<Rightarrow> bool" where
  "unlocks fw L A q cs cs' \<longleftrightarrow> (\<exists>p m. answered fw (Mftah (CheckPasswordHash p)) (\<lambda>r. r = MFTAH_SUCCESS L) cs m
     \<and> answered fw (Mftah (Decrypt q)) (\<lambda>r. \<not> MFTAH_ERROR L r) m cs'
     \<and> (checks_purely L \<and> spares fw L (in_range A 33) cs' \<longrightarrow> q = p))"

lemma unlocks_extend:
  assumes "unlocks fw L A q cs cs'" and "emits Q cs0 cs" and "emits Q' cs' cs''"
  shows "unlocks fw L A q cs0 cs''"
proof -
  from assms(1) obtain p m where "answered fw (Mftah (CheckPasswordHash p)) (\<lambda>r. r = MFTAH_SUCCESS L) cs m"
    "answered fw (Mftah (Decrypt q)) (\<lambda>r. \<not> MFTAH_ERROR L r) m cs'" "checks_purely L \<and> spares fw L (in_range A 33) cs' \<longrightarrow> q = p"
    unfolding unlocks_def by blast
  then show ?thesis using answered_earlier [OF _ assms(2)] answered_later [OF _ assms(3)] spares_emits [OF _ assms(3)]
    unfolding unlocks_def by blast
qed

lemma password_part: "unat (n :: u8) \<le> 32 \<Longrightarrow> in_range A (ucast n) x \<Longrightarrow> in_range A 33 x"
  by (simp add: in_range_def word_less_nat_alt unat_ucast_u8)

lemma unlocksI:
  assumes "accepts fw L A n cs (st, stored, s)" and "\<not> EFI_ERROR st" and "unat (n div 2) \<le> 32"
    and "decrypts fw L A (case stored of None \<Rightarrow> k | Some n \<Rightarrow> n) s (st', s')" and "\<not> EFI_ERROR st'"
  shows "\<exists>q. unlocks fw L A q cs (calls s') \<and> based fw L q (calls s) (calls s') (gRamdiskImage s') (gRamdiskImageLength s') (ram s')"
proof -
  from assms(1,2) obtain p where p: "answered fw (Mftah (CheckPasswordHash p)) (\<lambda>r. r = MFTAH_SUCCESS L) cs (calls s)"
    "stored = Some (n div 2)" "checks_purely L \<longrightarrow> mem_bytes (ram s) A (unat (n div 2)) = p"
    by (auto simp: accepts_def)
  from assms(4,5) p(2) obtain q
    where q: "based fw L q (calls s) (calls s') (gRamdiskImage s') (gRamdiskImageLength s') (ram s')"
      "spares fw L (in_range A (ucast (n div 2))) (calls s') \<longrightarrow> q = mem_bytes (ram s) A (unat (n div 2))"
    by (auto simp: decrypts_def)
  have "spares fw L (in_range A 33) (calls s') \<Longrightarrow> spares fw L (in_range A (ucast (n div 2))) (calls s')"
    by (erule spares_part) (rule password_part [OF assms(3)])
  then have "unlocks fw L A q cs (calls s')" using p q(2) based_answered [OF q(1)] unfolding unlocks_def by blast
  then show ?thesis using q(1) by blast
qed

text \<open>The state behind an unlocked payload: both passwords are wiped from the memory that the library left.\<close>

definition wiped :: "locals \<Rightarrow> memory \<Rightarrow> memory" where
  "wiped lo m = SetMem (PasswordActual_at lo) 33 0 (SetMem (Password_at lo) 65 0 m)"

definition unlocked :: "firmware \<Rightarrow> libs \<Rightarrow> locals \<Rightarrow> efi_call list \<Rightarrow> 'a boot_state_scheme \<Rightarrow> bool" where
  "unlocked fw L lo cs s \<longleftrightarrow> (\<exists>q m. unlocks fw L (PasswordActual_at lo) q cs (calls s)
     \<and> based fw L q cs (calls s) (gRamdiskImage s) (gRamdiskImageLength s) m \<and> ram s = wiped lo m)"

lemma CheckPasswordD: "x = CheckPassword fw L h P n A s \<Longrightarrow> accepts fw L A n (calls s) x"
  using CheckPassword_accepts [of fw L h P n A s] by (simp add: sat_def)

lemma entered_emits: "entered cs (st, n, s) \<Longrightarrow> emits harmless cs (calls s)"
  by (simp add: entered_def)

lemma unlock_step:
  assumes "entered cs (st0, n, s0)" and "st0 \<noteq> EFI_MENU_GO_BACK" and "accepts fw L (PasswordActual_at lo) n (calls s0) (st, stored, s)"
  shows "emits harmless cs (calls s)"
    and "\<not> EFI_ERROR st \<Longrightarrow> decrypts fw L (PasswordActual_at lo) (case stored of None \<Rightarrow> k | Some n \<Rightarrow> n) s (st', s') \<Longrightarrow> \<not> EFI_ERROR st' \<Longrightarrow>
      emits harmless cs (calls s')
      \<and> unlocked fw L lo cs (s'\<lparr>ram := SetMem (PasswordActual_at lo) 33 0 (SetMem (Password_at lo) 65 0 (ram s'))\<rparr>)"
proof -
  have e: "emits harmless cs (calls s0)" "st0 = EFI_SUCCESS" "unat (n div 2) \<le> 32" and a: "emits harmless (calls s0) (calls s)"
    using assms by (auto simp: entered_def accepts_def)
  then show 1: "emits harmless cs (calls s)" by (blast intro: emits_trans)
  assume ok: "\<not> EFI_ERROR st" and d: "decrypts fw L (PasswordActual_at lo) (case stored of None \<Rightarrow> k | Some n \<Rightarrow> n) s (st', s')" and "\<not> EFI_ERROR st'"
  then obtain q where q: "unlocks fw L (PasswordActual_at lo) q (calls s0) (calls s')"
    "based fw L q (calls s) (calls s') (gRamdiskImage s') (gRamdiskImageLength s') (ram s')"
    using unlocksI [OF assms(3) ok e(3) d] by blast
  have "emits harmless (calls s) (calls s')" using d by (simp add: decrypts_def)
  then show "emits harmless cs (calls s')
      \<and> unlocked fw L lo cs (s'\<lparr>ram := SetMem (PasswordActual_at lo) 33 0 (SetMem (Password_at lo) 65 0 (ram s'))\<rparr>)"
    using unlocks_extend [OF q(1) e(1) emits_refl] emits_trans [OF 1] based_earlier [OF q(2) 1]
    by (auto simp: unlocked_def wiped_def)
qed

lemma unlock_loop_unlocks:
  assumes "emits harmless cs (calls s)"
  shows "ends (unlock_loop fw L lo h n s) (\<lambda>(u, k, s'). emits harmless cs (calls s') \<and> (u \<longrightarrow> unlocked fw L lo cs s'))"
proof (rule endsI)
  fix y assume "unlock_loop fw L lo h n s = Some y"
  then show "case y of (u, k, s') \<Rightarrow> emits harmless cs (calls s') \<and> (u \<longrightarrow> unlocked fw L lo cs s')"
  proof (rule unlock_loop.raw_induct [where P = "\<lambda>fw L lo h n s y. emits harmless cs (calls s) \<longrightarrow> (case y of (u, k, s') \<Rightarrow>
        emits harmless cs (calls s') \<and> (u \<longrightarrow> unlocked fw L lo cs s'))", rotated, THEN mp, OF _ _ assms], goal_cases)
    case (1 f fw L lo h n s y)
    have IH: "ends (f fw L lo h n s) (\<lambda>(u, k, s'). emits harmless cs (calls s') \<and> (u \<longrightarrow> unlocked fw L lo cs s'))"
      if "emits harmless cs (calls s)" for fw L lo h n s
      by (rule endsI) (rule mp [OF 1(1) that])
    show ?case
      by (rule impI, rule endsD [OF _ 1(2)], intro vc IH ends_bind [OF GetPassword_entered] ends_bind [OF LoadAndDecrypt_decrypts])
        (auto dest!: CheckPasswordD dest: entered_emits unlock_step)
  qed
qed

lemma menu_loop_unlocks:
  assumes "emits harmless cs (calls s)"
  shows "ends (menu_loop fw L lo n s) (\<lambda>s'. emits harmless cs (calls s') \<and> unlocked fw L lo cs s')"
proof (rule endsI)
  fix y assume "menu_loop fw L lo n s = Some y"
  then show "emits harmless cs (calls y) \<and> unlocked fw L lo cs y"
  proof (rule menu_loop.raw_induct [where P = "\<lambda>fw L lo n s y. emits harmless cs (calls s) \<longrightarrow>
        emits harmless cs (calls y) \<and> unlocked fw L lo cs y", rotated, THEN mp, OF _ _ assms], goal_cases)
    case (1 f fw L lo n s y)
    have IH: "ends (f fw L lo n s) (\<lambda>s'. emits harmless cs (calls s') \<and> unlocked fw L lo cs s')"
      if "emits harmless cs (calls s)" for fw L lo n s
      by (rule endsI) (rule mp [OF 1(1) that])
    show ?case
      by (rule impI, rule endsD [OF _ 1(2)], intro vc IH ends_bind [OF SelectPayload_emits] ends_bind [OF unlock_loop_unlocks]) auto
  qed
qed

section \<open>Offering the disk\<close>

lemma RamDiskPublishNfit_emits:
  assumes "emits harmless cs (calls s)"
  shows "ends (RamDiskPublishNfit fw date P s) (\<lambda>(st, s'). emits harmless cs (calls s'))"
proof (rule endsI)
  fix y assume "RamDiskPublishNfit fw date P s = Some y"
  then obtain u where u: "calls (snd y) = calls s @ u" "list_all publishing u"
    using RamDiskPublishNfit_extends [of fw date P s "fst y" "snd y"] by (auto simp: extends_def)
  have "publishing c \<Longrightarrow> harmless c" for c by (cases c) simp_all
  then have "list_all harmless u" using u(2) by (simp add: list_all_iff)
  then show "case y of (st, s') \<Rightarrow> emits harmless cs (calls s')" using assms u(1) by (simp add: split_beta)
qed

lemma register_install_emits:
  assumes "emits harmless cs (calls s)"
  shows "ends (register_install fw date p node pd s) (\<lambda>(st, s'). emits harmless cs (calls s'))"
  unfolding register_install_def by (intro vc ends_match [OF RamDiskPublishNfit_emits]) (use assms in \<open>auto simp: ErrorExit_def Let_def\<close>)

lemma RamDiskRegister_emits:
  assumes "emits harmless cs (calls s)"
  shows "ends (RamDiskRegister fw date base len guid parent null s) (\<lambda>(st, d, s'). emits harmless cs (calls s'))"
  unfolding RamDiskRegister_def by (intro vc ends_map [OF register_install_emits]) (use assms in \<open>auto simp: ErrorExit_def Let_def\<close>)

lemma hash_hint_calls:
  "hash_hint fw v h s = (st, s') \<Longrightarrow> \<exists>u. calls s' = calls s @ u \<and> list_all harmless u"
  by (auto simp: hash_hint_def Let_def split: if_splits)

lemma hash_hint_sat:
  "emits harmless cs (calls s) \<Longrightarrow> sat (hash_hint fw v h s) (\<lambda>(st, s'). emits harmless cs (calls s'))"
  by (auto simp: sat_def dest!: hash_hint_calls)

lemma SetEfiVarsHints_calls:
  assumes "SetEfiVarsHints fw a b s = (st, s')"
  shows "\<exists>u. calls s' = calls s @ u \<and> list_all harmless u"
proof -
  have "sat (SetEfiVarsHints fw a b s) (\<lambda>(st, s'). emits harmless (calls s) (calls s'))"
    unfolding SetEfiVarsHints_def by (intro vc hash_hint_sat) (auto dest!: hash_hint_calls hash_hint_calls [OF sym])
  then show ?thesis using assms by (simp add: sat_def emits_def)
qed

lemma WrapperRegisterRamdisk_emits:
  assumes "emits harmless cs (calls s)"
  shows "ends (WrapperRegisterRamdisk fw date s) (\<lambda>(st, s'). emits harmless cs (calls s'))"
  unfolding WrapperRegisterRamdisk_def by (intro vc ends_bind [OF RamDiskRegister_emits]) (use assms in auto)

lemma offer_ramdisk_emits:
  assumes "emits harmless cs (calls s)"
  shows "ends (offer_ramdisk fw date s) (\<lambda>s'. emits harmless cs (calls s'))"
  unfolding offer_ramdisk_def
  by (intro vc ends_bind [OF WrapperRegisterRamdisk_emits]) (use assms in \<open>auto dest!: SetEfiVarsHints_calls [OF sym]\<close>)

lemma offer_ramdisk_keeps:
  assumes "emits harmless cs (calls s) \<and> unlocked fw L lo cs s"
  shows "ends (offer_ramdisk fw date s) (\<lambda>s'. emits harmless cs (calls s') \<and> (\<exists>q. unlocks fw L (PasswordActual_at lo) q cs (calls s')))"
  by (rule ends_mono [OF offer_ramdisk_emits [OF emits_refl]])
    (use assms unlocks_extend [OF _ emits_refl] emits_trans in \<open>unfold unlocked_def, blast\<close>)

lemma efi_prepare_unlocks:
  "ends (efi_prepare fw L date lo h s) (\<lambda>(r, s'). emits harmless (calls s) (calls s')
    \<and> (r = None \<longrightarrow> (\<exists>q. unlocks fw L (PasswordActual_at lo) q (calls s) (calls s'))))"
  unfolding efi_prepare_def
  by (intro vc ends_bind [OF EnvironmentInitialize_emits [where cs = "calls s"]] ends_bind [OF menu_loop_unlocks [where cs = "calls s"]]
      ends_bind [OF offer_ramdisk_keeps [where cs = "calls s"]]) auto

section \<open>The jump\<close>

text \<open>At the history \<open>cs'\<close> that followed \<open>cs\<close>, the image \<open>h\<close> is the boot executable, loaded from a volume on which the canary
  file was opened.\<close>

definition boots :: "firmware \<Rightarrow> efi_call list \<Rightarrow> efi_call list \<Rightarrow> u64 \<Rightarrow> bool" where
  "boots fw cs cs' h \<longleftrightarrow> (\<exists>a dev fs root path.
     let t1 = cs @ a @ [HandleProtocol dev ''gEfiSimpleFileSystemProtocolGuid'']; t2 = t1 @ [File (OpenVolume fs)];
         t3 = t2 @ [File (OpenFile root CanaryFileName)]; t4 = t3 @ [FileDevicePath dev MFTAH_CHAINLOAD_TARGET_PATH];
         t5 = t4 @ [LoadImage path]
     in cs' = t5 @ [HandleProtocol h ''gEfiLoadedImageProtocolGuid'']
        \<and> fs = out fw t1 \<and> root = out fw t2 \<and> ret fw t3 = EFI_SUCCESS \<and> path = ret fw t4 \<and> h = out fw t5)"

lemma harmless_split:
  assumes "list_all harmless u" and "u @ x = v @ StartImage h # w"
  shows "\<exists>v'. v = u @ v' \<and> x = v' @ StartImage h # w"
  using assms by (auto simp: append_eq_append_conv2 append_eq_Cons_conv Cons_eq_append_conv)

lemma harmless_tail:
  assumes "list_all harmless u" and "x @ u = v @ StartImage h # w"
  shows "\<exists>w'. x = v @ StartImage h # w'"
  using assms by (auto simp: append_eq_append_conv2 append_eq_Cons_conv Cons_eq_append_conv)

text \<open>From \<open>cs\<close> to \<open>cs'\<close> only such images are started.\<close>

definition guarded :: "firmware \<Rightarrow> efi_call list \<Rightarrow> efi_call list \<Rightarrow> bool" where
  "guarded fw cs cs' \<longleftrightarrow> (\<exists>u. cs' = cs @ u \<and> (\<forall>v h w. u = v @ StartImage h # w \<longrightarrow> boots fw cs (cs @ v) h))"

lemma guarded_refl [simp]: "guarded fw cs cs"
  by (simp add: guarded_def)

lemma guarded_snoc:
  assumes "guarded fw cs cs'" and "\<And>h. c = StartImage h \<Longrightarrow> boots fw cs cs' h"
  shows "guarded fw cs (cs' @ [c])"
proof -
  from assms(1) obtain u where u: "cs' = cs @ u" "\<And>v h w. u = v @ StartImage h # w \<Longrightarrow> boots fw cs (cs @ v) h"
    unfolding guarded_def by blast
  have "boots fw cs (cs @ v) h" if "u @ [c] = v @ StartImage h # w" for v h w
    using that u assms(2) by (cases w rule: rev_cases) auto
  then show ?thesis using u(1) by (auto simp: guarded_def)
qed

lemma guarded_call [simp]: "guarded fw cs cs' \<Longrightarrow> harmless c \<Longrightarrow> guarded fw cs (cs' @ [c])"
  by (rule guarded_snoc) auto

lemma guarded_calls [simp]: "guarded fw cs cs' \<Longrightarrow> list_all harmless u \<Longrightarrow> guarded fw cs (cs' @ u)"
proof (induction u rule: rev_induct)
  case (snoc c u)
  then have "guarded fw cs ((cs' @ u) @ [c])" by (intro guarded_call) simp_all
  then show ?case by simp
qed simp

lemma boots_earlier: "boots fw (cs @ u) cs' h \<Longrightarrow> boots fw cs cs' h"
  unfolding boots_def Let_def by (metis append.assoc)

lemma guarded_trans:
  assumes "guarded fw cs cs'" and "guarded fw cs' cs''"
  shows "guarded fw cs cs''"
proof -
  from assms obtain u u' where u: "cs' = cs @ u" "\<And>v h w. u = v @ StartImage h # w \<Longrightarrow> boots fw cs (cs @ v) h"
    and u': "cs'' = cs' @ u'" "\<And>v h w. u' = v @ StartImage h # w \<Longrightarrow> boots fw cs' (cs' @ v) h"
    unfolding guarded_def by blast
  have "boots fw cs (cs @ v) h" if "u @ u' = v @ StartImage h # w" for v h w
  proof -
    from that consider w' where "u = v @ StartImage h # w'" | v' where "v = u @ v'" "u' = v' @ StartImage h # w"
      by (auto simp: append_eq_append_conv2 append_eq_Cons_conv Cons_eq_append_conv)
    then show ?thesis by cases (use u u' boots_earlier [of fw cs u] in auto)
  qed
  then show ?thesis using u(1) u'(1) by (auto simp: guarded_def)
qed

lemma boots_now:
  assumes "x1 = service (HandleProtocol dev ''gEfiSimpleFileSystemProtocolGuid'') s" and "x2 = service (File (OpenVolume (out fw (calls x1)))) x1"
    and "x3 = service (File (OpenFile (out fw (calls x2)) CanaryFileName)) x2" and "ret fw (calls x3) = EFI_SUCCESS"
    and "x4 = service (FileDevicePath dev MFTAH_CHAINLOAD_TARGET_PATH) x3" and "x5 = service (LoadImage (ret fw (calls x4))) x4"
    and "x6 = service (HandleProtocol (out fw (calls x5)) ''gEfiLoadedImageProtocolGuid'') x5"
  shows "boots fw (calls s) (calls x6) (out fw (calls x5))"
proof -
  have c: "calls x1 = calls s @ [] @ [HandleProtocol dev ''gEfiSimpleFileSystemProtocolGuid'']"
    "calls x2 = calls x1 @ [File (OpenVolume (out fw (calls x1)))]"
    "calls x3 = calls x2 @ [File (OpenFile (out fw (calls x2)) CanaryFileName)]"
    "calls x4 = calls x3 @ [FileDevicePath dev MFTAH_CHAINLOAD_TARGET_PATH]" "calls x5 = calls x4 @ [LoadImage (ret fw (calls x4))]"
    "calls x6 = calls x5 @ [HandleProtocol (out fw (calls x5)) ''gEfiLoadedImageProtocolGuid'']"
    using assms(1-3,5-) by simp_all
  show ?thesis
    unfolding boots_def Let_def
    by (rule exI [of _ "[]"], rule exI [of _ dev], rule exI [of _ "out fw (calls x1)"], rule exI [of _ "out fw (calls x2)"],
        rule exI [of _ "ret fw (calls x4)"]) (simp only: c [symmetric] assms(4) simp_thms)
qed

lemma guarded_boot:
  assumes "x7 = service (StartImage h) x6" and "x6 = service (HandleProtocol h ''gEfiLoadedImageProtocolGuid'') x5"
    and "h = out fw (calls x5)" and "x5 = service (LoadImage path) x4" and "path = ret fw (calls x4)"
    and "x4 = service (FileDevicePath dev MFTAH_CHAINLOAD_TARGET_PATH) x3" and "st = ret fw (calls x3)" and "st = EFI_SUCCESS"
    and "x3 = service (File (OpenFile root CanaryFileName)) x2" and "root = out fw (calls x2)"
    and "x2 = service (File (OpenVolume fs)) x1" and "fs = out fw (calls x1)"
    and "x1 = service (HandleProtocol dev ''gEfiSimpleFileSystemProtocolGuid'') s"
  shows "guarded fw (calls s) (calls x7)"
proof -
  have "boots fw (calls s) (calls x6) h" using boots_now [of x1 dev s x2 fw x3 x4 x5 x6] assms by simp
  moreover have "guarded fw (calls s) (calls x6)" by (simp add: assms(2,4,6,9,11,13))
  ultimately show ?thesis unfolding assms(1) service_simps by (blast intro: guarded_snoc)
qed

lemma jump_loop_guarded:
  fixes s :: "'a uefi_scheme"
  shows "guarded fw (calls s) (calls (snd (jump_loop fw hs s)))"
proof (induction hs arbitrary: s)
  case (Cons h hs)
  let ?R = "\<lambda>x. guarded fw (calls s) (calls (snd x))"
  have more: "sat (jump_loop fw hs t) ?R" if "guarded fw (calls s) (calls t)" for t :: "'a uefi_scheme"
    unfolding sat_def by (rule guarded_trans [OF that Cons])
  have "sat (jump_loop fw (h # hs) s) ?R"
    unfolding jump_loop.simps
  proof (intro vc more, goal_cases)
    case 6
    show ?case unfolding snd_conv by (rule guarded_boot) (rule 6)+
  next
    case 7
    show ?case unfolding service_simps by (rule guarded_call, rule guarded_boot) ((rule 7)+, simp)
  qed simp_all
  then show ?case by (rule satD)
qed simp

lemma JumpToRamdisk_guarded: "guarded fw (calls s) (calls (snd (JumpToRamdisk fw s)))"
proof -
  have "sat (JumpToRamdisk fw s) (\<lambda>x. guarded fw (calls s) (calls (snd x)))"
    unfolding JumpToRamdisk_def
  proof (intro vc, goal_cases)
    case (4 t0 _ t1 _ t2 _ n)
    have "guarded fw (calls s) (calls t2)" using 4 by simp
    then show ?case unfolding sat_def by (rule guarded_trans [OF _ jump_loop_guarded])
  qed simp_all
  then show ?thesis by (rule satD)
qed

lemma any_key_emits: "ends (any_key fw s) (\<lambda>s'. emits harmless (calls s) (calls s'))"
proof (rule endsI)
  fix y assume "any_key fw s = Some y"
  then show "emits harmless (calls s) (calls y)"
  proof (rule any_key.raw_induct [where P = "\<lambda>fw s y. emits harmless (calls s) (calls y)", rotated], goal_cases)
    case (1 f fw s y)
    have IH: "ends (f fw s) (\<lambda>s'. emits harmless (calls s) (calls s'))" for fw s
      by (rule endsI) (rule 1(1))
    show ?case by (rule endsD [OF _ 1(2)], intro vc ends_mono [OF IH]) (auto intro: emits_trans [rotated])
  qed
qed

text \<open>A run: harmless calls, then the jump if the payload was unlocked, then harmless calls again.\<close>

definition boot_run :: "firmware \<Rightarrow> libs \<Rightarrow> u64 \<Rightarrow> efi_call list \<Rightarrow> efi_call list \<Rightarrow> bool" where
  "boot_run fw L A cs0 cs' \<longleftrightarrow> (\<exists>cs t. emits harmless cs0 cs \<and> guarded fw cs t \<and> emits harmless t cs'
     \<and> (t \<noteq> cs \<longrightarrow> (\<exists>q. unlocks fw L A q cs0 cs)))"

lemma JumpToRamdiskD: "JumpToRamdisk fw s = (st, s') \<Longrightarrow> guarded fw (calls s) (calls s')"
  using JumpToRamdisk_guarded [of fw s] by simp

lemma emits_from_call: "emits harmless (cs @ [c]) cs' \<Longrightarrow> harmless c \<Longrightarrow> emits harmless cs cs'"
  by (auto simp: emits_def)

lemma boot_runI:
  assumes "emits harmless cs0 cs" and "unlocks fw L A q cs0 cs" and "guarded fw cs t" and "emits harmless t cs'"
  shows "boot_run fw L A cs0 cs'"
  using assms unfolding boot_run_def by blast

lemma boot_run_refused: "emits harmless cs0 cs \<Longrightarrow> boot_run fw L A cs0 cs"
  unfolding boot_run_def using guarded_refl emits_refl by blast

lemma efi_main_run: "ends (efi_main fw L date lo ih s) (\<lambda>(st, s'). boot_run fw L (PasswordActual_at lo) (calls s) (calls s'))"
  unfolding efi_main_def
proof (intro vc ends_bind [OF efi_prepare_unlocks] ends_bind [OF any_key_emits], goal_cases)
  case 1
  then show ?case by (auto intro!: boot_runI [OF _ _ JumpToRamdiskD [OF sym]])
next
  case 2
  then show ?case by (auto intro!: boot_runI [OF _ _ JumpToRamdiskD [OF sym]] dest: emits_from_call)
next
  case 3
  then show ?case by (auto intro: boot_run_refused)
qed

lemma jump_run:
  assumes "efi_prepare fw L date lo ih s = Some (None, s1)" and "JumpToRamdisk fw s1 = (st, s')"
  shows "boot_run fw L (PasswordActual_at lo) (calls s) (calls s')"
  using endsD [OF efi_prepare_unlocks assms(1)] JumpToRamdiskD [OF assms(2)] emits_refl by (auto intro: boot_runI)

lemma unlocked_run:
  assumes "boot_run fw L A cs0 cs'" and "cs' = cs0 @ v @ StartImage h # w"
  shows "\<exists>cs q. unlocks fw L A q cs0 cs \<and> boots fw cs (cs0 @ v) h"
proof -
  from assms(1) obtain u1 u2 u3 where u: "list_all harmless u1" "list_all harmless u3" "cs' = cs0 @ u1 @ u2 @ u3"
    and guard: "\<And>v h w. u2 = v @ StartImage h # w \<Longrightarrow> boots fw (cs0 @ u1) (cs0 @ u1 @ v) h"
    and unlocked: "u2 \<noteq> [] \<Longrightarrow> \<exists>q. unlocks fw L A q cs0 (cs0 @ u1)"
    unfolding boot_run_def emits_def guarded_def by clarsimp
  from u(3) assms(2) have "u1 @ u2 @ u3 = v @ StartImage h # w" by simp
  from harmless_split [OF u(1) this] obtain v' where v': "v = u1 @ v'" "u2 @ u3 = v' @ StartImage h # w" by blast
  from harmless_tail [OF u(2) this(2)] obtain w' where "u2 = v' @ StartImage h # w'" by blast
  then show ?thesis using guard unlocked v'(1) by auto
qed

lemma demo_spares:
  assumes "list_all demo_small cs"
  shows "spares demo_fw demo_libs (in_range 0x8100 33) cs"
proof -
  have miss: "misses demo_fw demo_libs (in_range 0x8100 33) (t @ [c])" if "demo_small c" for t c
  proof (cases c)
    case (AllocatePool n)
    have "\<not> in_range 0x100000 n x" if x: "in_range 0x8100 33 x" for x
    proof -
      define y where "y = x - 0x8100"
      then have eq: "x - 0x100000 = y + 0xfffffffffff08100" by simp
      have "unat y < 33" and n: "unat n \<le> 0x10000"
        using x \<open>demo_small c\<close> AllocatePool by (simp_all add: y_def demo_small_def in_range_def word_less_nat_alt word_le_nat_alt)
      then have "unat (y + 0xfffffffffff08100) = unat y + 0xfffffffffff08100" by (simp add: unat_word_ariths)
      then show ?thesis using n by (simp add: in_range_def word_less_nat_alt eq)
    qed
    then show ?thesis by (simp add: AllocatePool misses_def)
  qed (auto simp: misses_def split: file_call.splits)
  have "spared demo_fw demo_libs (in_range 0x8100 33) t u" if "list_all demo_small u" for t u
    using that by (induction u arbitrary: t) (auto intro: miss)
  then show ?thesis using assms by (simp add: spares_def)
qed

lemma demo_checks: "checks_purely demo_libs"
  by (simp add: checks_purely_def)

section \<open>Properties\<close>

text \<open>C1: Whenever the loader starts an image, a password was accepted before, a payload was decrypted with the password \<open>q\<close> after that,
  without an error, and the image is the boot executable of a volume on which the canary file was found after both. \<open>q\<close> is the very password that
  was accepted, if checking a password writes nothing and no call of this run writes to the buffer that the password is kept in.
  This holds of a run of \<open>efi_main\<close> that returns and, since \<open>PANIC\<close> and the wait for a key may
  follow an image that was started, of every run up to the end of the jump.\<close>

theorem efi_main_starts_unlocked:
  assumes "efi_main fw L date lo ih s = Some (st, s')
      \<or> efi_prepare fw L date lo ih s = Some (None, s1) \<and> JumpToRamdisk fw s1 = (st, s')"
    and "calls s' = calls s @ v @ StartImage h # w"
  shows "\<exists>cs q. unlocks fw L (PasswordActual_at lo) q (calls s) cs \<and> boots fw cs (calls s @ v) h"
  using assms(1)
proof
  assume "efi_main fw L date lo ih s = Some (st, s')"
  from endsD [OF efi_main_run this] show ?thesis using unlocked_run [OF _ assms(2)] by simp
next
  assume "efi_prepare fw L date lo ih s = Some (None, s1) \<and> JumpToRamdisk fw s1 = (st, s')"
  then show ?thesis using unlocked_run [OF jump_run assms(2)] by blast
qed

theorem efi_main_starts_unlocked_witness:
  "\<exists>s' v w cs m p. efi_main demo_fw demo_libs 0 demo_locals 3 demo_state = Some (EFI_SUCCESS, s') \<and> calls s' = v @ StartImage 9 # w
    \<and> answered demo_fw (Mftah (CheckPasswordHash p)) (\<lambda>r. r = MFTAH_SUCCESS demo_libs) [] m
    \<and> answered demo_fw (Mftah (Decrypt p)) (\<lambda>r. \<not> MFTAH_ERROR demo_libs r) m cs \<and> boots demo_fw cs v 9"
proof -
  obtain s' where run: "efi_main demo_fw demo_libs 0 demo_locals 3 demo_state = Some (EFI_SUCCESS, s')" and "StartImage 9 \<in> set (calls s')"
    and small: "list_all demo_small (calls s')"
    using demo_boots by blast
  then obtain v w where v: "calls s' = v @ StartImage 9 # w" by (auto dest: split_list)
  have v': "calls s' = calls demo_state @ v @ StartImage 9 # w" by (simp add: v demo_state_def)
  from efi_main_starts_unlocked [OF disjI1 [OF run] v'] obtain cs q
    where u: "unlocks demo_fw demo_libs 0x8100 q [] cs" and b: "boots demo_fw cs v 9"
    by (auto simp: demo_state_def)
  from b obtain u where "v = cs @ u" by (auto simp: boots_def Let_def)
  then have "spares demo_fw demo_libs (in_range 0x8100 33) cs" using small v by (intro demo_spares) simp
  then show ?thesis using u b run v demo_checks unfolding unlocks_def by blast
qed

end
