(* ===== verification/BootDisk.thy ===== *)
theory BootDisk
  imports BootSafety
begin

text \<open>
  What \<open>offer_ramdisk\<close> hands to the system that is booted: the disk it registers and the variables it sets.
\<close>

section \<open>The hints\<close>

lemma hash_hint_success:
  assumes "hash_hint fw v h s = (st, s')" and "\<not> EFI_ERROR st"
  shows "\<exists>p. p \<noteq> 0 \<and> answered fw (SetVariable v (le64 p)) (\<lambda>r. \<not> EFI_ERROR r) (calls s) (calls s') \<and> emits harmless (calls s) (calls s')
    \<and> s' = s\<lparr>ram := CopyMem p h 32 (ram s), calls := calls s'\<rparr>"
  using assms by (auto simp: hash_hint_def Let_def service_def emits_def intro!: answered_second split: if_splits)

text \<open>The status of every variable was good and each holds the value the code means it to hold.\<close>

definition announced :: "firmware \<Rightarrow> u64 \<Rightarrow> u64 \<Rightarrow> u64 \<Rightarrow> u64 \<Rightarrow> efi_call list \<Rightarrow> efi_call list \<Rightarrow> bool" where
  "announced fw base len p q cs cs' \<longleftrightarrow>
     answered fw (SetVariable ''__MFTAH_RDBASE'' (le64 base)) (\<lambda>r. \<not> EFI_ERROR r) cs cs'
     \<and> answered fw (SetVariable ''__MFTAH_RDSIZE'' (le64 len)) (\<lambda>r. \<not> EFI_ERROR r) cs cs'
     \<and> answered fw (SetVariable ''__MFTAH_LOADER_HASH'' (le64 p)) (\<lambda>r. \<not> EFI_ERROR r) cs cs'
     \<and> answered fw (SetVariable ''__MFTAH_PAYLOAD_HASH'' (le64 q)) (\<lambda>r. \<not> EFI_ERROR r) cs cs'"

lemma announced_later: "announced fw base len p q cs cs' \<Longrightarrow> emits Q cs' cs'' \<Longrightarrow> announced fw base len p q cs cs''"
  by (auto simp: announced_def intro: answered_later)

lemma announced_earlier: "announced fw base len p q cs cs' \<Longrightarrow> emits Q cs0 cs \<Longrightarrow> announced fw base len p q cs0 cs'"
  by (auto simp: announced_def intro: answered_earlier)

lemma SetEfiVarsHints_success:
  assumes "SetEfiVarsHints fw h h' s = (st, s')" and "\<not> EFI_ERROR st"
  shows "\<exists>p q. announced fw (gRamdiskImage s) (gRamdiskImageLength s) p q (calls s) (calls s') \<and> emits harmless (calls s) (calls s')
    \<and> s' = s\<lparr>ram := CopyMem q h' 32 (CopyMem p h 32 (ram s)), calls := calls s'\<rparr>"
proof -
  let ?c1 = "SetVariable ''__MFTAH_RDBASE'' (le64 (gRamdiskImage s))" and ?c2 = "SetVariable ''__MFTAH_RDSIZE'' (le64 (gRamdiskImageLength s))"
  let ?s2 = "service ?c2 (service ?c1 s)"
  obtain st1 s1 where 1: "hash_hint fw ''__MFTAH_LOADER_HASH'' h ?s2 = (st1, s1)" by fastforce
  have ok: "\<not> EFI_ERROR (ret fw (calls s @ [?c1]))" "\<not> EFI_ERROR (ret fw (calls s @ [?c1, ?c2]))" "\<not> EFI_ERROR st1"
    and 2: "hash_hint fw ''__MFTAH_PAYLOAD_HASH'' h' s1 = (st, s')"
    using assms 1 by (auto simp: SetEfiVarsHints_def Let_def service_def split: if_splits)
  from hash_hint_success [OF 1 ok(3)] obtain p
    where p: "answered fw (SetVariable ''__MFTAH_LOADER_HASH'' (le64 p)) (\<lambda>r. \<not> EFI_ERROR r) (calls ?s2) (calls s1)"
      "emits harmless (calls ?s2) (calls s1)" "s1 = ?s2\<lparr>ram := CopyMem p h 32 (ram ?s2), calls := calls s1\<rparr>" by blast
  from hash_hint_success [OF 2 assms(2)] obtain q
    where q: "answered fw (SetVariable ''__MFTAH_PAYLOAD_HASH'' (le64 q)) (\<lambda>r. \<not> EFI_ERROR r) (calls s1) (calls s')"
      "emits harmless (calls s1) (calls s')" "s' = s1\<lparr>ram := CopyMem q h' 32 (ram s1), calls := calls s'\<rparr>" by blast
  have e: "emits harmless (calls s) (calls ?s2)" "emits harmless (calls s @ [?c1]) (calls ?s2)"
    by (auto simp: emits_def service_def)
  have "answered fw ?c1 (\<lambda>r. \<not> EFI_ERROR r) (calls s) (calls ?s2)" "answered fw ?c2 (\<lambda>r. \<not> EFI_ERROR r) (calls s) (calls ?s2)"
    using ok(1,2) by (auto simp: service_def intro: answered_hit answered_second)
  then have "announced fw (gRamdiskImage s) (gRamdiskImageLength s) p q (calls s) (calls s')"
    using p(1,2) q(1,2) e(1) unfolding announced_def by (meson answered_earlier answered_later emits_trans)
  moreover have "emits harmless (calls s) (calls s')" using e(1) p(2) q(2) by (blast intro: emits_trans)
  moreover have "s' = s\<lparr>ram := CopyMem q h' 32 (CopyMem p h 32 (ram s)), calls := calls s'\<rparr>"
    by (subst q(3), subst (1 2) p(3)) (simp add: service_def)
  ultimately show ?thesis by blast
qed

section \<open>Registration\<close>

lemma register_install_ram: "ends (register_install fw date p node pd s) (\<lambda>(st, s'). ram s' = ram s)"
proof -
  have nfit: "ends (RamDiskPublishNfit fw date P t) (\<lambda>(st, s'). ram s' = ram t)" for P t
    by (rule endsI) (auto simp: extends_def dest!: RamDiskPublishNfit_extends)
  show ?thesis unfolding register_install_def by (intro vc ends_match [OF nfit]) (auto simp: ErrorExit_def Let_def)
qed

lemma RamDiskRegister_ram: "ends (RamDiskRegister fw date base len guid parent null s) (\<lambda>(st, d, s'). ram s' = ram s)"
  unfolding RamDiskRegister_def by (intro vc ends_map [OF register_install_ram]) (auto simp: ErrorExit_def Let_def)

text \<open>A well-formed disk over the range is registered, and its protocols were installed on a new handle.\<close>

definition offered :: "firmware \<Rightarrow> u64 \<Rightarrow> u64 \<Rightarrow> 'a rd_state_scheme \<Rightarrow> bool" where
  "offered fw base len s \<longleftrightarrow> (\<exists>p pd. ramdisks s p = Some pd \<and> rd_wf pd \<and> StartingAddr pd = base \<and> Size pd = len
     \<and> TypeGuid pd = gEfiRamdiskVirtualDiskGuid \<and> installed fw p (DevicePath pd) (Handle pd) (calls s))"

lemma offeredI: "registered fw base len (Some gEfiRamdiskVirtualDiskGuid) dp s s' \<Longrightarrow> offered fw base len s'"
  unfolding registered_def offered_def by (metis fun_upd_same option.inject)

lemma RamDiskRegister_offers:
  "ends (RamDiskRegister fw date base len (Some gEfiRamdiskVirtualDiskGuid) parent null s)
     (\<lambda>(st, d, s'). emits harmless (calls s) (calls s') \<and> ram s' = ram s \<and> (\<not> EFI_ERROR st \<longrightarrow> offered fw base len s'))"
proof (rule endsI)
  fix y assume y: "RamDiskRegister fw date base len (Some gEfiRamdiskVirtualDiskGuid) parent null s = Some y"
  show "case y of (st, d, s') \<Rightarrow> emits harmless (calls s) (calls s') \<and> ram s' = ram s \<and> (\<not> EFI_ERROR st \<longrightarrow> offered fw base len s')"
    using endsD [OF RamDiskRegister_emits [OF emits_refl] y] endsD [OF RamDiskRegister_ram y] RamDiskRegister_success y
    by (cases y) (fastforce intro: offeredI)
qed

lemma WrapperRegisterRamdisk_offers:
  "ends (WrapperRegisterRamdisk fw date s) (\<lambda>(st, s'). emits harmless (calls s) (calls s') \<and> ram s' = ram s
    \<and> (\<not> EFI_ERROR st \<longrightarrow> offered fw (gRamdiskImage s) (gRamdiskImageLength s) s'))"
  unfolding WrapperRegisterRamdisk_def
  by (intro vc ends_bind [OF RamDiskRegister_offers]) (auto simp: service_def offered_def dest: emits_from_call intro!: installed_later)

lemma hints_after_menu:
  assumes "(st, t) = SetEfiVarsHints fw 0 0 (put_name 0 (service (FreePool p) s))" and "\<not> EFI_ERROR st" and "emits harmless (calls t) cs'"
  shows "gRamdiskImage t = gRamdiskImage s" and "gRamdiskImageLength t = gRamdiskImageLength s"
    and "\<exists>p q. announced fw (gRamdiskImage s) (gRamdiskImageLength s) p q (calls s) cs' \<and> ram t = CopyMem q 0 32 (CopyMem p 0 32 (ram s))"
proof -
  let ?s = "put_name 0 (service (FreePool p) s)"
  have e: "emits harmless (calls s) (calls ?s)" by (auto simp: emits_def)
  have same: "gRamdiskImage ?s = gRamdiskImage s" "gRamdiskImageLength ?s = gRamdiskImageLength s" "ram ?s = ram s"
    by (simp_all add: put_name_def service_def)
  obtain a b where h: "announced fw (gRamdiskImage s) (gRamdiskImageLength s) a b (calls ?s) (calls t)"
    "t = ?s\<lparr>ram := CopyMem b 0 32 (CopyMem a 0 32 (ram ?s)), calls := calls t\<rparr>"
    using SetEfiVarsHints_success [OF assms(1) [symmetric] assms(2)] unfolding same by blast
  show "gRamdiskImage t = gRamdiskImage s" "gRamdiskImageLength t = gRamdiskImageLength s"
    by (subst h(2), simp add: same)+
  have "ram t = CopyMem b 0 32 (CopyMem a 0 32 (ram s))" by (subst h(2)) (simp add: same)
  then show "\<exists>p q. announced fw (gRamdiskImage s) (gRamdiskImageLength s) p q (calls s) cs' \<and> ram t = CopyMem q 0 32 (CopyMem p 0 32 (ram s))"
    using announced_later [OF announced_earlier [OF h(1) e] assms(3)] by blast
qed

lemma offer_ramdisk_success:
  "ends (offer_ramdisk fw date s) (\<lambda>s'. offered fw (gRamdiskImage s) (gRamdiskImageLength s) s'
     \<and> (\<exists>p q. announced fw (gRamdiskImage s) (gRamdiskImageLength s) p q (calls s) (calls s')
          \<and> ram s' = CopyMem q 0 32 (CopyMem p 0 32 (ram s))))"
  unfolding offer_ramdisk_def
proof (intro vc ends_bind [OF WrapperRegisterRamdisk_offers], goal_cases)
  case (1 s0 s1 x st t y st' s')
  then have x: "emits harmless (calls t) (calls s')" "ram s' = ram t" "offered fw (gRamdiskImage t) (gRamdiskImageLength t) s'" by auto
  have hints: "(st, t) = SetEfiVarsHints fw 0 0 (put_name 0 (service (FreePool (Name (gOperatingPayload s))) s))" using 1(1-4) by simp
  note h = hints_after_menu [OF hints 1(5) x(1)]
  show ?case using h(3) x(3) x(2) unfolding h(1,2) by metis
qed

section \<open>From the password to the disk\<close>


section \<open>Properties\<close>



text \<open>C31: The hash variables do not hold the hashes: the loader passes null pointers, so each of the two pools the variables
  point to gets a copy of the 32 bytes at address 0, and nothing else in memory changes.\<close>

theorem offer_ramdisk_null_hashes:
  assumes "offer_ramdisk fw date s = Some s'"
  shows "\<exists>p q. answered fw (SetVariable ''__MFTAH_LOADER_HASH'' (le64 p)) (\<lambda>r. \<not> EFI_ERROR r) (calls s) (calls s')
    \<and> answered fw (SetVariable ''__MFTAH_PAYLOAD_HASH'' (le64 q)) (\<lambda>r. \<not> EFI_ERROR r) (calls s) (calls s')
    \<and> ram s' = CopyMem q 0 32 (CopyMem p 0 32 (ram s))"
  using endsD [OF offer_ramdisk_success assms] by (auto simp: announced_def)

theorem offer_ramdisk_null_hashes_witness:
  "\<exists>s' p. offer_ramdisk demo_fw 0 (demo_at [] (\<lambda>_. 0) 0 2 0x2000 0x200) = Some s'
    \<and> answered demo_fw (SetVariable ''__MFTAH_LOADER_HASH'' (le64 p)) (\<lambda>r. \<not> EFI_ERROR r) [] (calls s')"
proof -
  obtain s' where run: "offer_ramdisk demo_fw 0 (demo_at [] (\<lambda>_. 0) 0 2 0x2000 0x200) = Some s'" using demo_offer [of "[]" "\<lambda>_. 0" 0 2] by auto
  show ?thesis using offer_ramdisk_null_hashes [OF run] run by auto
qed

end
