(* ===== verification/FileLoad.thy ===== *)
theory FileLoad
  imports BootDemo
begin

text \<open>
  How \<open>LoadAndDecrypt\<close> brings a file into memory: \<open>read_loop\<close> against a file system that answers each read.
\<close>

section \<open>Chunks\<close>

definition read_call :: "u64 \<Rightarrow> u64 \<Rightarrow> nat \<Rightarrow> efi_call" where
  "read_call h buf k = File (ReadFile h 16384 (buf + of_nat (16384 * k)))"

definition read_calls :: "u64 \<Rightarrow> u64 \<Rightarrow> nat \<Rightarrow> efi_call list" where
  "read_calls h buf n = map (read_call h buf) [0..<n]"

lemma read_calls_Suc: "read_calls h buf (Suc n) = read_calls h buf n @ [read_call h buf n]"
  by (simp add: read_calls_def)

text \<open>What the \<open>k\<close>-th read delivers, and the memory after the first \<open>n\<close> of them.\<close>

definition chunk :: "firmware \<Rightarrow> efi_call list \<Rightarrow> u64 \<Rightarrow> u64 \<Rightarrow> nat \<Rightarrow> bytes" where
  "chunk fw cs h buf k = data fw (cs @ read_calls h buf (Suc k))"

primrec chunks_at :: "firmware \<Rightarrow> efi_call list \<Rightarrow> u64 \<Rightarrow> u64 \<Rightarrow> nat \<Rightarrow> memory \<Rightarrow> memory" where
  "chunks_at fw cs h buf 0 m = m"
| "chunks_at fw cs h buf (Suc n) m = write_at (buf + of_nat (16384 * n)) (chunk fw cs h buf n) (chunks_at fw cs h buf n m)"

text \<open>The number of chunks of a file, and the file system keeps answering.\<close>

definition chunk_count :: "nat \<Rightarrow> nat" where
  "chunk_count len = (len + 16383) div 16384"

definition reads_on :: "firmware \<Rightarrow> efi_call list \<Rightarrow> u64 \<Rightarrow> u64 \<Rightarrow> nat \<Rightarrow> bool" where
  "reads_on fw cs h buf n \<longleftrightarrow> (\<forall>k < n. \<not> EFI_ERROR (ret fw (cs @ read_calls h buf (Suc k))))"

lemma chunk_count_iff: "k < chunk_count len \<longleftrightarrow> 16384 * k < len"
  unfolding chunk_count_def by arith

lemma chunk_offset:
  assumes "len \<le> 2 ^ 63" and "k \<le> chunk_count len"
  shows "unat (of_nat (16384 * k) :: u64) = 16384 * k"
proof -
  have "16384 * k \<le> len + 16383" using assms(2) unfolding chunk_count_def by arith
  then have "16384 * k < 2 ^ 64" using assms(1) by simp
  then show ?thesis by (rule unat_of_nat_u64)
qed

lemma read_loop_steps:
  fixes s :: "'a uefi_scheme"
  assumes "len \<le> 2 ^ 63" and "reads_on fw cs h buf (chunk_count len)" and "k \<le> chunk_count len"
    and "calls s = cs @ read_calls h buf k" and "ram s = chunks_at fw cs h buf k m"
  shows "read_loop fw h buf (of_nat len) (of_nat (16384 * k)) s = Some (EFI_SUCCESS,
    s\<lparr>calls := cs @ read_calls h buf (chunk_count len), ram := chunks_at fw cs h buf (chunk_count len) m\<rparr>)"
  using assms(3-)
proof (induction "chunk_count len - k" arbitrary: k s)
  case (0 k s)
  then have k: "k = chunk_count len" by simp
  have "unat (of_nat len :: u64) = len" using assms(1) by (intro unat_of_nat_u64) simp
  then have "\<not> (of_nat (16384 * k) :: u64) < of_nat len"
    using chunk_count_iff [of k len] chunk_offset [OF assms(1) 0(2)] k by (simp only: word_less_nat_alt) simp
  then have "read_loop fw h buf (of_nat len) (of_nat (16384 * k)) s = Some (EFI_SUCCESS, s)"
    by (subst read_loop.simps) (simp only: if_False)
  then show ?case using 0(3,4) k by simp
next
  case (Suc d k s)
  then have k: "k < chunk_count len" by simp
  have "unat (of_nat len :: u64) = len" using assms(1) by (intro unat_of_nat_u64) simp
  then have less: "(of_nat (16384 * k) :: u64) < of_nat len"
    using chunk_count_iff [of k len] chunk_offset [OF assms(1) Suc(3)] k by (simp only: word_less_nat_alt)
  let ?s = "s\<lparr>calls := cs @ read_calls h buf (Suc k), ram := chunks_at fw cs h buf (Suc k) m\<rparr>"
  have read: "file_read fw h MFTAH_RAMDISK_LOAD_BLOCK_SIZE (buf + of_nat (16384 * k)) s =
      (ret fw (cs @ read_calls h buf (Suc k)), out fw (cs @ read_calls h buf (Suc k)), ?s)"
    by (simp add: file_read_def service_def Let_def Suc(4,5) read_calls_Suc read_call_def chunk_def MFTAH_RAMDISK_LOAD_BLOCK_SIZE_def)
  have ok: "\<not> EFI_ERROR (ret fw (cs @ read_calls h buf (Suc k)))" using assms(2) k by (simp add: reads_on_def)
  have plus: "of_nat (16384 * k) + MFTAH_RAMDISK_LOAD_BLOCK_SIZE = (of_nat (16384 * Suc k) :: u64)"
    by (simp add: MFTAH_RAMDISK_LOAD_BLOCK_SIZE_def)
  have "read_loop fw h buf (of_nat len) (of_nat (16384 * k)) s = read_loop fw h buf (of_nat len) (of_nat (16384 * Suc k)) ?s"
    by (subst read_loop.simps) (simp only: less if_True read Let_def prod.case ok if_False plus)
  also have "\<dots> = Some (EFI_SUCCESS, ?s\<lparr>calls := cs @ read_calls h buf (chunk_count len), ram := chunks_at fw cs h buf (chunk_count len) m\<rparr>)"
    by (rule Suc(1)) (use Suc(2) k in simp_all)
  finally show ?case by simp
qed

lemma chunk_count_less:
  assumes "len \<le> 2 ^ 63"
  shows "16384 * chunk_count len < 2 ^ 64"
proof -
  have "16384 * chunk_count len \<le> len + 16383" unfolding chunk_count_def by (rule times_div_less_eq_dividend)
  then show ?thesis using assms by simp
qed

lemma place_in_chunk:
  fixes a :: nat
  assumes "16384 * n \<le> a" and "a < 16384 * Suc n"
  shows "a div 16384 = n" and "a mod 16384 = a - 16384 * n"
proof -
  show "a div 16384 = n" using assms by (intro div_nat_eqI) simp_all
  then show "a mod 16384 = a - 16384 * n" using minus_mult_div_eq_mod [of a 16384] by simp
qed

text \<open>A write, seen from the start of the buffer.\<close>

lemma write_at_offset:
  assumes "c + length bs < 2 ^ 64"
  shows "write_at (buf + of_nat c) bs m x = (if c \<le> unat (x - buf) \<and> unat (x - buf) < c + length bs then bs ! (unat (x - buf) - c) else m x)"
proof -
  have "unat (of_nat c :: u64) = c" using assms by (intro unat_of_nat_u64) simp
  moreover have "x - (buf + of_nat c) = x - buf - of_nat c" by simp
  ultimately have "unat (x - (buf + of_nat c)) = (if c \<le> unat (x - buf) then unat (x - buf) - c else unat (x - buf) + 2 ^ 64 - c)"
    by (simp only: unat_sub_if_size word_size) simp
  then show ?thesis using assms by (auto simp: write_at_def)
qed

lemma chunks_at_result:
  assumes "16384 * n < 2 ^ 64" and "\<forall>k < n. length (chunk fw cs h buf k) \<le> 16384"
  shows "chunks_at fw cs h buf n m x =
    (let at = unat (x - buf); c = chunk fw cs h buf (at div 16384)
     in if at < 16384 * n \<and> at mod 16384 < length c then c ! (at mod 16384) else m x)"
  using assms
proof (induction n)
  case (Suc n)
  let ?at = "unat (x - buf)" and ?c = "chunk fw cs h buf n"
  have c: "length ?c \<le> 16384" "16384 * n + length ?c < 2 ^ 64" using Suc.prems by (auto simp: add.commute)
  have IH: "chunks_at fw cs h buf n m x =
    (let at = ?at; c = chunk fw cs h buf (at div 16384) in if at < 16384 * n \<and> at mod 16384 < length c then c ! (at mod 16384) else m x)"
    using Suc by simp
  have step: "chunks_at fw cs h buf (Suc n) m x = (if 16384 * n \<le> ?at \<and> ?at < 16384 * n + length ?c then ?c ! (?at - 16384 * n)
      else chunks_at fw cs h buf n m x)"
    by (simp only: chunks_at.simps write_at_offset [OF c(2)])
  show ?case
  proof (cases "16384 * n \<le> ?at \<and> ?at < 16384 * Suc n")
    case True
    then have d: "?at div 16384 = n" "?at mod 16384 = ?at - 16384 * n" using place_in_chunk by blast+
    have "chunks_at fw cs h buf n m x = m x" using True by (simp only: IH Let_def) simp
    then show ?thesis using True unfolding step Let_def d by auto
  next
    case False
    then have "\<not> (16384 * n \<le> ?at \<and> ?at < 16384 * n + length ?c)" and iff: "?at < 16384 * Suc n \<longleftrightarrow> ?at < 16384 * n" using c(1) by auto
    then have "chunks_at fw cs h buf (Suc n) m x = chunks_at fw cs h buf n m x" unfolding step by (simp only: if_False)
    then show ?thesis unfolding IH Let_def iff .
  qed
qed simp

text \<open>The memory after the last chunk of a file that is delivered in full chunks.\<close>

lemma chunks_at_file:
  assumes "length file \<le> 2 ^ 63"
    and "\<forall>k < chunk_count (length file). chunk fw cs h buf k = take 16384 (drop (16384 * k) file)"
  shows "chunks_at fw cs h buf (chunk_count (length file)) m x = (if unat (x - buf) < length file then file ! unat (x - buf) else m x)"
proof -
  let ?n = "chunk_count (length file)" and ?at = "unat (x - buf)"
  have k: "?at div 16384 < ?n \<longleftrightarrow> 16384 * (?at div 16384) < length file" by (rule chunk_count_iff)
  have lt: "?at < 16384 * ?n \<longleftrightarrow> ?at div 16384 < ?n" by (simp add: less_mult_imp_div_less div_less_iff_less_mult mult.commute)
  have "chunks_at fw cs h buf ?n m x = (if ?at div 16384 < ?n \<and> ?at mod 16384 < length (chunk fw cs h buf (?at div 16384))
      then chunk fw cs h buf (?at div 16384) ! (?at mod 16384) else m x)"
    by (subst chunks_at_result [OF chunk_count_less [OF assms(1)]]) (use assms(2) lt in \<open>simp_all add: Let_def\<close>)
  also have "\<dots> = (if ?at < length file then file ! ?at else m x)"
  proof (cases "?at div 16384 < ?n")
    case True
    have "?at mod 16384 < length (take 16384 (drop (16384 * (?at div 16384)) file)) \<longleftrightarrow> ?at < length file"
      by (simp add: less_diff_conv)
    moreover have "16384 * (?at div 16384) + ?at mod 16384 = ?at" by simp
    ultimately show ?thesis using True k assms(2) by auto
  next
    case False
    then have "\<not> ?at < length file" using k by auto
    then show ?thesis using False by simp
  qed
  finally show ?thesis .
qed

lemma offset_from:
  assumes "i < 2 ^ 64"
  shows "unat (buf + of_nat i - buf :: u64) = i"
  using assms by (simp add: unat_of_nat_u64)

section \<open>Properties\<close>

text \<open>C34: A file whose reads deliver it in full chunks is loaded whole: the loop ends without an error, the buffer holds the file, and no other byte of
  memory has changed.\<close>

theorem read_loop_loads_file:
  fixes s :: "'a uefi_scheme"
  assumes "length file \<le> 2 ^ 63" and "reads_on fw (calls s) h buf (chunk_count (length file))"
    and "\<forall>k < chunk_count (length file). chunk fw (calls s) h buf k = take 16384 (drop (16384 * k) file)"
  shows "\<exists>s'. read_loop fw h buf (of_nat (length file)) 0 s = Some (EFI_SUCCESS, s') \<and> mem_bytes (ram s') buf (length file) = file
    \<and> (\<forall>x. \<not> in_range buf (of_nat (length file)) x \<longrightarrow> ram s' x = ram s x)"
proof -
  let ?n = "chunk_count (length file)"
  let ?m = "chunks_at fw (calls s) h buf ?n (ram s)"
  have run: "read_loop fw h buf (of_nat (length file)) 0 s = Some (EFI_SUCCESS, s\<lparr>calls := calls s @ read_calls h buf ?n, ram := ?m\<rparr>)"
    using read_loop_steps [OF assms(1,2), of 0 s "ram s"] by (simp add: read_calls_def)
  have len: "unat (of_nat (length file) :: u64) = length file" using assms(1) by (intro unat_of_nat_u64) simp
  have m: "?m x = (if unat (x - buf) < length file then file ! unat (x - buf) else ram s x)" for x
    by (rule chunks_at_file [OF assms(1,3)])
  have "mem_bytes ?m buf (length file) = file"
  proof (rule nth_equalityI)
    fix i assume "i < length (mem_bytes ?m buf (length file))"
    then have i: "i < length file" by simp
    have "unat (buf + of_nat i - buf) = i" using i assms(1) by (intro offset_from) simp
    then show "mem_bytes ?m buf (length file) ! i = file ! i" using i m [of "buf + of_nat i"] by simp
  qed simp
  moreover have "\<forall>x. \<not> in_range buf (of_nat (length file)) x \<longrightarrow> ?m x = ram s x"
    by (simp add: m in_range_def word_less_nat_alt len)
  ultimately show ?thesis using run by simp
qed

text \<open>A machine that delivers the given file in full chunks.\<close>

definition serving :: "bytes \<Rightarrow> firmware" where
  "serving file = demo_fw\<lparr>data := \<lambda>t. take 16384 (drop (16384 * (length t - 1)) file)\<rparr>"

lemma serving_reads: "reads_on (serving file) [] h buf n"
  by (simp add: reads_on_def read_calls_Suc read_call_def serving_def)

theorem read_loop_loads_file_witness:
  "\<exists>s'. read_loop (serving (replicate 20000 7)) 4 0x10000 20000 0 demo_state = Some (EFI_SUCCESS, s')
    \<and> mem_bytes (ram s') 0x10000 20000 = replicate 20000 7"
proof -
  have "calls demo_state = []" by (simp add: demo_state_def)
  moreover have "\<forall>k. chunk (serving bs) [] h buf k = take 16384 (drop (16384 * k) bs)" for bs h buf
    by (simp add: chunk_def serving_def read_calls_def)
  ultimately show ?thesis
    using read_loop_loads_file [of "replicate 20000 7" "serving (replicate 20000 7)" demo_state 4 "0x10000"] serving_reads by auto
qed

text \<open>C35: The loop does not look at how much a read delivered. Every chunk goes to the start of its 16384 bytes, so a short one leaves the rest of
  its place as it was, and still the loop reports success.\<close>

theorem read_loop_short_reads:
  fixes s :: "'a uefi_scheme"
  assumes "len \<le> 2 ^ 63" and "reads_on fw (calls s) h buf (chunk_count len)" and "\<forall>k < chunk_count len. length (chunk fw (calls s) h buf k) \<le> 16384"
    and "i < len" and "length (chunk fw (calls s) h buf (i div 16384)) \<le> i mod 16384"
  shows "\<exists>s'. read_loop fw h buf (of_nat len) 0 s = Some (EFI_SUCCESS, s') \<and> ram s' (buf + of_nat i) = ram s (buf + of_nat i)"
proof -
  let ?n = "chunk_count len"
  let ?m = "chunks_at fw (calls s) h buf ?n (ram s)"
  have run: "read_loop fw h buf (of_nat len) 0 s = Some (EFI_SUCCESS, s\<lparr>calls := calls s @ read_calls h buf ?n, ram := ?m\<rparr>)"
    using read_loop_steps [OF assms(1,2), of 0 s "ram s"] by (simp add: read_calls_def)
  have at: "unat (buf + of_nat i - buf) = i" using assms(1,4) by (intro offset_from) simp
  have "?m (buf + of_nat i) = ram s (buf + of_nat i)"
    by (subst chunks_at_result [OF chunk_count_less [OF assms(1)] assms(3)]) (unfold at Let_def, use assms(5) in simp)
  then show ?thesis using run by simp
qed

theorem read_loop_short_reads_witness:
  "\<exists>s'. read_loop demo_fw 4 0x10000 32 0 demo_state = Some (EFI_SUCCESS, s') \<and> ram s' 0x10005 = ram demo_state 0x10005"
proof -
  have "calls demo_state = []" by (simp add: demo_state_def)
  moreover have "reads_on demo_fw [] 4 0x10000 n" for n by (simp add: reads_on_def read_calls_Suc read_call_def)
  ultimately show ?thesis using read_loop_short_reads [of 32 demo_fw demo_state 4 "0x10000" 5] by (simp add: chunk_def)
qed

end
