(* ===== verification/Discovery.thy ===== *)
theory Discovery
  imports BootDemo
begin

text \<open>
  Which payloads \<open>DiscoverPayloads\<close> finds in a directory and which of them \<open>SelectPayload\<close> takes for a line of the user.
\<close>

section \<open>A directory\<close>

text \<open>The file names opened on a volume and the handles they got.\<close>

definition opened_by :: "firmware \<Rightarrow> u64 \<Rightarrow> efi_call list \<Rightarrow> efi_call \<Rightarrow> (u16 list \<times> u64) list" where
  "opened_by fw V cs c = (case c of File (OpenFile h w) \<Rightarrow> if h = V then [(w, out fw (cs @ [c]))] else [] | _ \<Rightarrow> [])"




definition dir_read :: "u64 \<Rightarrow> efi_call \<Rightarrow> bool" where
  "dir_read V c = (case c of File (ReadFile h n a) \<Rightarrow> h = V | _ \<Rightarrow> False)"

definition reads :: "u64 \<Rightarrow> efi_call list \<Rightarrow> nat" where
  "reads V cs = length (filter (dir_read V) cs)"


lemma reads_snoc [simp]:
  "reads V (cs @ [File (ReadFile V n a)]) = Suc (reads V cs)" "reads V (cs @ [File (OpenFile V' w)]) = reads V cs"
  "reads V (cs @ [File (ReadFile V n a), File (OpenFile V' w)]) = Suc (reads V cs)"
  by (simp_all add: reads_def dir_read_def)

lemma opened_by_simps [simp]:
  "opened_by fw V cs (File (ReadFile h n a)) = []" "opened_by fw V cs (File (OpenFile V w)) = [(w, out fw (cs @ [File (OpenFile V w)]))]"
  by (simp_all add: opened_by_def)



section \<open>Discovery\<close>





section \<open>Selection\<close>

text \<open>Every handle has a file information with its name.\<close>

definition names_files :: "firmware \<Rightarrow> (u64 \<Rightarrow> u16 list) \<Rightarrow> u64 list \<Rightarrow> bool" where
  "names_files fw name hs \<longleftrightarrow> (\<forall>h \<in> set hs. \<forall>t. let u = t @ [File (LibFileInfo h)] in ret fw u \<noteq> 0 \<and> wide fw u = name h)"

text \<open>What the two comparisons with a name in upper case find: the first looks at 64 characters, the second at \<open>n\<close>.\<close>

definition full_match :: "libs \<Rightarrow> u16 list \<Rightarrow> u16 list \<Rightarrow> bool" where
  "full_match L line name \<longleftrightarrow> take 64 (StrUpr L name) = line"

definition partial_match :: "libs \<Rightarrow> nat \<Rightarrow> u16 list \<Rightarrow> u16 list \<Rightarrow> bool" where
  "partial_match L n line name \<longleftrightarrow> \<not> full_match L line name \<and> take n (StrUpr L name) = take n line"

lemma comparisons:
  assumes "strings_ok L" and "length line \<le> 64"
  shows "StrnCmp L line (StrUpr L name) (ucast MFTAH_MAX_FILENAME_LENGTH) = 0 \<longleftrightarrow> full_match L line name"
    and "StrnCmp L line (StrUpr L name) n = 0 \<longleftrightarrow> take (unat n) (StrUpr L name) = take (unat n) line"
proof -
  have c: "unat (ucast MFTAH_MAX_FILENAME_LENGTH :: u64) = 64" by (simp add: MFTAH_MAX_FILENAME_LENGTH_def)
  show "StrnCmp L line (StrUpr L name) (ucast MFTAH_MAX_FILENAME_LENGTH) = 0 \<longleftrightarrow> full_match L line name"
    using assms(2) by (auto simp: strings_okD(2) [OF assms(1)] c full_match_def)
  show "StrnCmp L line (StrUpr L name) n = 0 \<longleftrightarrow> take (unat n) (StrUpr L name) = take (unat n) line"
    by (auto simp: strings_okD(2) [OF assms(1)])
qed

text \<open>The handles that are partial matches, of those before the first full match.\<close>

definition partials :: "libs \<Rightarrow> nat \<Rightarrow> u16 list \<Rightarrow> (u64 \<Rightarrow> u16 list) \<Rightarrow> u64 list \<Rightarrow> u64 list" where
  "partials L n line name hs = filter (\<lambda>h. partial_match L n line (name h)) (takeWhile (\<lambda>h. \<not> full_match L line (name h)) hs)"

lemma partials_simps [simp]:
  "partials L n line name [] = []"
  "partials L n line name (h # hs) =
    (if full_match L line (name h) then [] else if partial_match L n line (name h) then h # partials L n line name hs else partials L n line name hs)"
  by (simp_all add: partials_def)

definition selects :: "libs \<Rightarrow> nat \<Rightarrow> u16 list \<Rightarrow> (u64 \<Rightarrow> u16 list) \<Rightarrow> u64 list \<Rightarrow> u64 \<Rightarrow> nat \<Rightarrow> u64 option \<times> u64 \<times> nat" where
  "selects L n line name hs p k = (let ps = partials L n line name hs in
     (if 2 \<le> k + length ps then None else find (\<lambda>h. full_match L line (name h)) hs,
      if ps = [] then p else last (take (2 - k) ps), min 2 (k + length ps)))"

lemma match_loop_finds:
  fixes s :: "'a loader_state_scheme"
  assumes "strings_ok L" and "length line \<le> 64" and "names_files fw name hs" and "k \<le> 1"
  shows "\<exists>s'. match_loop fw L line n hs p k s = (selects L (unat n) line name hs p k, s')
    \<and> (partials L (unat n) line name hs = [] \<longrightarrow> gOperatingPayload s' = gOperatingPayload s)"
  using assms(3,4)
proof (induction hs arbitrary: s p k)
  case Nil
  then show ?case by (simp add: selects_def)
next
  case (Cons h hs)
  have files: "ret fw (t @ [File (LibFileInfo h)]) \<noteq> 0" "wide fw (t @ [File (LibFileInfo h)]) = name h" "names_files fw name hs" for t
    using Cons.prems by (auto simp: names_files_def Let_def)
  note match = comparisons [OF assms(1,2), of "name h"]
  let ?q = "\<lambda>t. service (FreePool (ret fw (calls s @ [File (LibFileInfo h), StrDuplicate (name h)])))
    (service (FreePool (ret fw (calls s @ [File (LibFileInfo h)]))) t)"
  let ?t = "service (StrDuplicate (name h)) (service (File (LibFileInfo h)) s)"
  let ?t' = "service (StrDuplicate (StrUpr L (name h))) ?t"
  have free: "gOperatingPayload (service c t) = gOperatingPayload t" for c and t :: "'a loader_state_scheme" by (simp add: service_def)
  consider (full) "full_match L line (name h)" | (first) "\<not> full_match L line (name h)" "partial_match L (unat n) line (name h)" "k = 0"
    | (second) "\<not> full_match L line (name h)" "partial_match L (unat n) line (name h)" "k = 1"
    | (other) "\<not> full_match L line (name h)" "\<not> partial_match L (unat n) line (name h)"
    using Cons.prems(2) by linarith
  then show ?case
  proof cases
    case full
    then show ?thesis using files match Cons.prems(2) by (auto simp: Let_def selects_def free)
  next
    case first
    have step: "match_loop fw L line n (h # hs) p k s =
        match_loop fw L line n hs h 1 (?q (put_name (ret fw (calls ?t')) ?t'))"
      using first files match by (simp add: Let_def partial_match_def put_name_def service_def)
    have "selects L (unat n) line name (h # hs) p k = selects L (unat n) line name hs h 1"
      using first by (cases "partials L (unat n) line name hs") (simp_all add: selects_def Let_def)
    then show ?thesis using Cons.IH [OF files(3), of 1] first unfolding step by auto
  next
    case second
    then show ?thesis using files match by (simp add: Let_def selects_def partial_match_def)
  next
    case other
    have step: "match_loop fw L line n (h # hs) p k s = match_loop fw L line n hs p k (?q ?t)"
      using other files match by (simp add: Let_def partial_match_def)
    have "selects L (unat n) line name (h # hs) p k = selects L (unat n) line name hs p k"
      using other by (simp add: selects_def Let_def)
    then show ?thesis using Cons.IH [OF files(3) Cons.prems(2), of p "?q ?t"] other unfolding step by (auto simp: free)
  qed
qed

text \<open>A line as the keyboard leaves it: the characters typed, and perhaps one behind them that a last backspace erased. The length
  is that of the characters in bytes, so that a partial match compares up to the end of the line and beyond.\<close>

lemma partial_match_typed:
  assumes "partial_match L (2 * length chars) (chars @ erased) name" and "length (chars @ erased) \<le> 64" and "chars \<noteq> []" and "length erased \<le> 1"
  shows "length chars = 1 \<and> length erased = 1"
proof (rule ccontr)
  let ?n = "2 * length chars" and ?line = "chars @ erased" and ?u = "StrUpr L name"
  assume no: "\<not> (length chars = 1 \<and> length erased = 1)"
  have "length chars \<ge> 1" using assms(3) by (cases chars) auto
  then have lt: "length ?line < ?n" using no assms(4) by auto
  then have e: "take ?n ?u = ?line" using assms(1) by (simp add: partial_match_def)
  then have "min (length ?u) ?n = length ?line" by (metis length_take)
  then have "length ?u = length ?line" using lt by auto
  then have "?u = ?line" using e lt by simp
  then have "full_match L ?line name" using assms(2) by (simp add: full_match_def)
  then show False using assms(1) by (simp add: partial_match_def)
qed

section \<open>A directory for the witnesses\<close>

definition proper_libs :: libs where
  "proper_libs = demo_libs\<lparr>StrCmp := \<lambda>a b. if a = b then 0 else 1, StrnCmp := \<lambda>a b n. if take (unat n) a = take (unat n) b then 0 else 1\<rparr>"

lemma proper_strings: "strings_ok proper_libs"
  by (auto simp: strings_ok_def proper_libs_def)

definition dir_names :: "u16 list list" where
  "dir_names = [wstr ''README'', wstr ''A.CROWS'']"

definition dir_fw :: firmware where
  "dir_fw = demo_fw\<lparr>ret := \<lambda>t. case last t of File (LibFileInfo h) \<Rightarrow> 0x600000 | _ \<Rightarrow> EFI_SUCCESS,
     out := \<lambda>t. case last t of File (ReadFile h n a) \<Rightarrow> if reads 2 (butlast t) < length dir_names then 80 else 0 | _ \<Rightarrow> 9,
     wide := \<lambda>t. case last t of File (LibFileInfo h) \<Rightarrow> dir_names ! 1 | _ \<Rightarrow> dir_names ! reads 2 (butlast t)\<rparr>"


section \<open>Properties\<close>



text \<open>C33: What a line selects, for every line of at most 64 characters and every length \<open>n\<close> of it that is stored: the first file that matches it in
  full, unless two files before that are partial matches, which end the search; the partial matches are counted up to 2, and without one the
  name of the payload is not recorded. For a line as the keyboard leaves it, \<open>chars\<close> with at most one erased
  character behind, there is no partial match at all, unless it is a single character with one that was erased behind: a unique beginning selects nothing.\<close>

theorem match_loop_full_names:
  assumes "strings_ok L" and "length line \<le> 64" and "names_files fw name hs"
    and "match_loop fw L line n hs 0 0 s = ((selected, match, matches), s')"
  shows "selected = (if length (partials L (unat n) line name hs) < 2 then find (\<lambda>h. full_match L line (name h)) hs else None)
    \<and> matches = min 2 (length (partials L (unat n) line name hs))
    \<and> match = (if matches = 0 then 0 else partials L (unat n) line name hs ! (matches - 1))
    \<and> (matches = 0 \<longrightarrow> gOperatingPayload s' = gOperatingPayload s)
    \<and> (\<forall>chars erased. line = chars @ erased \<and> chars \<noteq> [] \<and> length erased \<le> 1 \<and> unat n = 2 * length chars \<and> matches \<noteq> 0
         \<longrightarrow> length chars = 1 \<and> length erased = 1)"
proof -
  let ?ps = "partials L (unat n) line name hs"
  from match_loop_finds [OF assms(1-3), where k = 0 and p = 0 and n = n and s = s] assms(4)
  have r: "selects L (unat n) line name hs 0 0 = (selected, match, matches)" and g: "?ps = [] \<longrightarrow> gOperatingPayload s' = gOperatingPayload s"
    by auto
  have l: "?ps \<noteq> [] \<Longrightarrow> last (take 2 ?ps) = ?ps ! (min 2 (length ?ps) - 1)" by (cases ?ps; cases "tl ?ps") auto
  have typed: "length chars = 1 \<and> length erased = 1"
    if "line = chars @ erased" "chars \<noteq> []" "length erased \<le> 1" "unat n = 2 * length chars" "?ps \<noteq> []" for chars erased
  proof -
    note line = that
    obtain h where "h \<in> set ?ps" using line(5) by (cases ?ps) auto
    then have "partial_match L (unat n) line (name h)" by (simp add: partials_def)
    then show ?thesis using partial_match_typed [of L chars erased] line assms(2) by simp
  qed
  show ?thesis using r g l typed by (auto simp: selects_def Let_def)
qed

theorem match_loop_full_names_witness:
  "(\<exists>s'. match_loop dir_fw proper_libs (wstr ''A.C'') 6 [9] 0 0 demo_state = ((None, 0, 0), s'))
    \<and> (\<exists>s'. match_loop dir_fw proper_libs (wstr ''A.'') 2 [9] 0 0 demo_state = ((None, 9, 1), s'))"
proof
  have names: "names_files dir_fw (\<lambda>_. dir_names ! 1) [9]" by (simp add: names_files_def dir_fw_def)
  have up: "StrUpr proper_libs w = w" for w by (simp add: proper_libs_def)
  obtain sel match matches s' where run: "match_loop dir_fw proper_libs (wstr ''A.C'') 6 [9] 0 0 demo_state = ((sel, match, matches), s')"
    by (metis surj_pair)
  show "\<exists>s'. match_loop dir_fw proper_libs (wstr ''A.C'') 6 [9] 0 0 demo_state = ((None, 0, 0), s')"
    using match_loop_full_names [OF proper_strings _ names run] run
    by (simp add: full_match_def partial_match_def up dir_names_def wstr_def)
  obtain sel match matches s' where run: "match_loop dir_fw proper_libs (wstr ''A.'') 2 [9] 0 0 demo_state = ((sel, match, matches), s')"
    by (metis surj_pair)
  show "\<exists>s'. match_loop dir_fw proper_libs (wstr ''A.'') 2 [9] 0 0 demo_state = ((None, 9, 1), s')"
    using match_loop_full_names [OF proper_strings _ names run] run
    by (simp add: full_match_def partial_match_def up dir_names_def wstr_def)
qed

end
