(* ===== verification/Decryption.thy ===== *)
theory Decryption
  imports Emits Step_Interface
begin

text \<open>
  \<open>src/src/boot/mftah_uefi/util.c\<close>, the hooks that \<open>LoadAndDecrypt\<close> hands to \<open>MFTAH\<close>: the library splits a payload into work
  orders and calls \<open>SpawnDecryptionWorker\<close> for each, then \<open>UefiSpin\<close> with the number of bytes queued. A worker runs \<open>work\<close> on an application
  processor. What is printed is not modelled. \<open>None\<close> is \<open>PANIC\<close>, a wait without end, or an object that does not exist.
\<close>

section \<open>Data\<close>

text \<open>The constants of the library that the hooks use, and the sizes of its structures.\<close>

record hook_libs =
  MFTAH_INVALID_PARAMETER :: u64
  MFTAH_THREAD_BUSY :: u64
  MFTAH_MAX_THREAD_COUNT :: nat
  work_order_size :: u64
  progress_size :: u64

text \<open>A null pointer is \<open>None\<close>.\<close>

record DECRYPT_THREAD_CTX =
  Thread :: u64
  CurrentPlace :: u64
  WorkOrder :: "work_order option"
  Progress :: "mftah_progress option"
  Sha256Key :: bytes
  InitializationVector :: bytes

text \<open>The address of the static array \<open>Threads\<close> and of the function \<open>work\<close>, and the contexts by address.\<close>

record worker_state = boot_state +
  Threads_at :: u64
  work_at :: u64
  ctx_at :: "u64 \<Rightarrow> DECRYPT_THREAD_CTX option"

definition slot :: "'a worker_state_scheme \<Rightarrow> nat \<Rightarrow> u64" where
  "slot s i = Threads_at s + 48 * of_nat i"

definition put_ctx :: "u64 \<Rightarrow> DECRYPT_THREAD_CTX \<Rightarrow> 'a worker_state_scheme \<Rightarrow> 'a worker_state_scheme" where
  "put_ctx p c s = s\<lparr>ctx_at := (ctx_at s)(p \<mapsto> c)\<rparr>"

section \<open>Workers\<close>

text \<open>The hook the library calls while it decrypts; \<open>extra\<close> is the address of the field \<open>CurrentPlace\<close>, 8 bytes into its context.\<close>

definition SaveThreadProgress :: "u64 option \<Rightarrow> u64 \<Rightarrow> 'a worker_state_scheme \<Rightarrow> 'a worker_state_scheme option" where
  "SaveThreadProgress cur extra s =
     (if extra = 0 \<or> cur = None then Some s
      else case ctx_at s (extra - 8) of None \<Rightarrow> None
      | Some c \<Rightarrow> Some (put_ctx (extra - 8) (c\<lparr>CurrentPlace := the cur\<rparr>) s))"

definition work :: "firmware \<Rightarrow> libs \<Rightarrow> u64 \<Rightarrow> 'a worker_state_scheme \<Rightarrow> 'a worker_state_scheme option" where
  "work fw L ctx s =
     (case ctx_at s ctx of None \<Rightarrow> None
      | Some c \<Rightarrow> (case WorkOrder c of None \<Rightarrow> None
         | Some w \<Rightarrow>
             let (Status, s) = mftah fw L (Crypt w (Sha256Key c) (InitializationVector c) (Progress c)) s
             in if MFTAH_ERROR L Status then PANIC s else FinishThread fw (Thread c) s))"

text \<open>The hook that \<open>SpawnDecryptionWorker\<close> sets, with or without threading.\<close>

definition progress_hook_of :: "bool \<Rightarrow> work_order \<Rightarrow> progress_hook" where
  "progress_hook_of threading w = (if suppress_progress w then NoHook else if threading then SavesThreadProgress else PrintsProgress)"

text \<open>The end of \<open>SpawnDecryptionWorker\<close>: the context with its copies, and the thread, which is not started yet.\<close>

definition queue_worker ::
    "firmware \<Rightarrow> libs \<Rightarrow> hook_libs \<Rightarrow> work_order \<Rightarrow> u64 \<Rightarrow> u64 \<Rightarrow> 'a worker_state_scheme \<Rightarrow> (u64 \<times> 'a worker_state_scheme) option" where
  "queue_worker fw L K w key iv s = do {
     let (ctx, s) = AllocateZeroPool fw 80 s;
     let c = \<lparr>Thread = slot s (thread_index w), CurrentPlace = 0, WorkOrder = None, Progress = None,
              Sha256Key = mem_bytes (ram s) key 32, InitializationVector = mem_bytes (ram s) iv 16\<rparr>;
     let (p, s) = AllocateZeroPool fw (work_order_size K) s;
     let c = c\<lparr>WorkOrder := if p = 0 then None else Some w\<rparr>;
     let (q, s) = AllocateZeroPool fw (progress_size K) s;
     let c = c\<lparr>Progress := if q = 0 then None else Some \<lparr>hook = progress_hook_of True w, hook_context = ctx + 8\<rparr>\<rparr>;
     let s = put_ctx ctx c s;
     (Status, s) \<leftarrow> CreateThread fw (work_at s) ctx (Thread c) s;
     if EFI_ERROR Status then PANIC s else Some (MFTAH_SUCCESS L, s)
   }"

definition SpawnDecryptionWorker ::
    "firmware \<Rightarrow> libs \<Rightarrow> hook_libs \<Rightarrow> u64 \<Rightarrow> work_order option \<Rightarrow> u64 \<Rightarrow> u64 \<Rightarrow> 'a worker_state_scheme
      \<Rightarrow> (u64 \<times> 'a worker_state_scheme) option" where
  "SpawnDecryptionWorker fw L K protocol order key iv s =
     (if protocol = 0 \<or> order = None \<or> key = 0 \<or> iv = 0 then Some (MFTAH_INVALID_PARAMETER K, s)
      else
      let w = the order
      in if thread_index w \<ge> MFTAH_MAX_THREAD_COUNT K then PANIC s
      else if order_length w = 0 then Some (MFTAH_SUCCESS L, s)
      else if \<not> IsThreadingEnabled s
      then Some (mftah fw L (Crypt w (mem_bytes (ram s) key 32) (mem_bytes (ram s) iv 16) (Some \<lparr>hook = progress_hook_of False w, hook_context = 0\<rparr>)) s)
      else case thread_at s (slot s (thread_index w)) of None \<Rightarrow> None
      | Some t \<Rightarrow>
          if Started t \<and> \<not> Finished t then Some (MFTAH_THREAD_BUSY K, s)
          else queue_worker fw L K w key iv s)"

section \<open>Waiting\<close>

text \<open>
  The other processors run while the boot processor waits: \<open>others i\<close> is what they do to the state up to its next look at the objects of slot
  \<open>i\<close>, of any kind. A slot without a context, or with one that has no work order, is skipped.
\<close>

primrec spin_pass ::
    "firmware \<Rightarrow> (nat \<Rightarrow> 'a worker_state_scheme \<Rightarrow> 'a worker_state_scheme) \<Rightarrow> nat list \<Rightarrow> bool \<Rightarrow> u64 \<Rightarrow> 'a worker_state_scheme
      \<Rightarrow> (bool \<times> u64 \<times> 'a worker_state_scheme) option" where
  "spin_pass fw others [] Completed Placed s = Some (Completed, Placed, s)"
| "spin_pass fw others (i # js) Completed Placed s = do {
     let s = others i s;
     t \<leftarrow> thread_at s (slot s i);
     if Context t = 0 then spin_pass fw others js Completed Placed s
     else do {
       c \<leftarrow> ctx_at s (Context t);
       if WorkOrder c = None then spin_pass fw others js Completed Placed s
       else do {
         s \<leftarrow> (if \<not> Started t \<and> \<not> Finished t then map_option snd (StartThread fw (slot s i) False s) else Some s);
         let s = others i s;
         t \<leftarrow> thread_at s (slot s i);
         c \<leftarrow> ctx_at s (Context t);
         spin_pass fw others js (Completed \<and> Finished t) (Placed + CurrentPlace c) s
       }
     }
   }"

partial_function (option) spin_loop ::
    "firmware \<Rightarrow> (nat \<Rightarrow> 'a worker_state_scheme \<Rightarrow> 'a worker_state_scheme) \<Rightarrow> nat \<Rightarrow> u64 \<Rightarrow> 'a worker_state_scheme \<Rightarrow> 'a worker_state_scheme option" where
  "spin_loop fw others n TotalProgress s = do {
     (Completed, Placed, s) \<leftarrow> spin_pass fw others [0..<n] True 0 s;
     let s = service (Stall 50000) s;
     if \<not> Completed \<and> Placed < TotalProgress then spin_loop fw others n TotalProgress s else Some s
   }"

definition UefiSpin ::
    "firmware \<Rightarrow> hook_libs \<Rightarrow> (nat \<Rightarrow> 'a worker_state_scheme \<Rightarrow> 'a worker_state_scheme) \<Rightarrow> u64 \<Rightarrow> 'a worker_state_scheme \<Rightarrow> 'a worker_state_scheme option" where
  "UefiSpin fw K others TotalProgress s =
     (if \<not> IsThreadingEnabled s then Some s
      else if TotalProgress = 0 then PANIC s
      else spin_loop fw others (MFTAH_MAX_THREAD_COUNT K) TotalProgress s)"

section \<open>What the workers do\<close>

lemma slot_simps [simp]: "slot (service c s) i = slot s i" "slot (put_ctx p c' s) i = slot s i" "slot (put_thread p t s) i = slot s i"
  by (simp_all add: slot_def service_def put_ctx_def put_thread_def)

lemma zero_pool_worker:
  assumes "AllocateZeroPool fw n s = (p, s')"
  shows "thread_at s' = thread_at s" and "ctx_at s' = ctx_at s" and "slot s' = slot s" and "work_at s' = work_at s"
    and "Threads_at s' = Threads_at s" and "p = ret fw (calls s @ [AllocatePool n])" and "calls s' = calls s @ [AllocatePool n]"
  using assms by (auto simp: AllocateZeroPool_def Let_def service_def slot_def fun_eq_iff split: if_splits)

text \<open>Everything a queued worker consists of, and what was left alone.\<close>

definition queued :: "firmware \<Rightarrow> hook_libs \<Rightarrow> work_order \<Rightarrow> bytes \<Rightarrow> bytes \<Rightarrow> 'a worker_state_scheme \<Rightarrow> 'a worker_state_scheme \<Rightarrow> bool" where
  "queued fw K w key iv s s' \<longleftrightarrow> (\<exists>ctx c t. let cs = calls s @ [AllocatePool 80, AllocatePool (work_order_size K)] in
     ctx = ret fw (calls s @ [AllocatePool 80]) \<and> ctx \<noteq> 0
     \<and> calls s' = cs @ [AllocatePool (progress_size K), Mp (CreateEvent (slot s (thread_index w)))]
     \<and> ctx_at s' = (ctx_at s)(ctx \<mapsto> c) \<and> thread_at s' = (thread_at s)(slot s (thread_index w) \<mapsto> t)
     \<and> Threads_at s' = Threads_at s \<and> work_at s' = work_at s
     \<and> Method t = work_at s \<and> Context t = ctx \<and> \<not> Started t \<and> \<not> Finished t
     \<and> Thread c = slot s (thread_index w) \<and> WorkOrder c = (if ret fw cs = 0 then None else Some w) \<and> CurrentPlace c = 0
     \<and> Sha256Key c = key \<and> InitializationVector c = iv
     \<and> Progress c = (if ret fw (cs @ [AllocatePool (progress_size K)]) = 0 then None
         else Some \<lparr>hook = progress_hook_of True w, hook_context = ctx + 8\<rparr>))"

lemma CreateThread_success:
  assumes "CreateThread fw proc ctx p s = Some (st, s')" and "\<not> EFI_ERROR st"
  shows "ctx \<noteq> 0 \<and> (\<exists>t. s' = put_thread p t (service (Mp (CreateEvent p)) s) \<and> Method t = proc \<and> Context t = ctx \<and> \<not> Started t \<and> \<not> Finished t)"
  using assms by (auto simp: CreateThread_def Let_def split: if_splits option.splits)

lemma queuedI:
  assumes "ctx_at s' = (ctx_at s)(ctx \<mapsto> c)" and "thread_at s' = (thread_at s)(slot s (thread_index w) \<mapsto> t)"
    and "calls s' = calls s @ [AllocatePool 80, AllocatePool (work_order_size K), AllocatePool (progress_size K), Mp (CreateEvent (slot s (thread_index w)))]"
    and "Threads_at s' = Threads_at s" and "work_at s' = work_at s" and "ctx \<noteq> 0" and "ctx = ret fw (calls s @ [AllocatePool 80])"
    and "Method t = work_at s" and "Context t = ctx" and "\<not> Started t" and "\<not> Finished t" and "Thread c = slot s (thread_index w)"
    and "WorkOrder c = (if ret fw (calls s @ [AllocatePool 80, AllocatePool (work_order_size K)]) = 0 then None else Some w)"
    and "CurrentPlace c = 0" and "Sha256Key c = key" and "InitializationVector c = iv"
    and "Progress c = (if ret fw (calls s @ [AllocatePool 80, AllocatePool (work_order_size K), AllocatePool (progress_size K)]) = 0 then None
         else Some \<lparr>hook = progress_hook_of True w, hook_context = ctx + 8\<rparr>)"
  shows "queued fw K w key iv s s'"
  unfolding queued_def Let_def
  by (rule exI [of _ ctx], rule exI [of _ c], rule exI [of _ t]) (use assms in simp)

lemma queue_worker_queues:
  assumes "queue_worker fw L K w key iv s = Some (st, s')" and "m = SetMem (ret fw (calls s @ [AllocatePool 80])) 80 0 (ram s)"
  shows "st = MFTAH_SUCCESS L \<and> queued fw K w (mem_bytes m key 32) (mem_bytes m iv 16) s s'"
proof -
  obtain ctx s1 p s2 q s3 where p: "AllocateZeroPool fw 80 s = (ctx, s1)" "AllocateZeroPool fw (work_order_size K) s1 = (p, s2)"
    "AllocateZeroPool fw (progress_size K) s2 = (q, s3)"
    by (metis surj_pair)
  note z = zero_pool_worker [OF p(1)] zero_pool_worker [OF p(2)] zero_pool_worker [OF p(3)]
  obtain c st' where c: "CreateThread fw (work_at s) ctx (slot s (thread_index w)) (put_ctx ctx c s3) = Some (st', s')" "\<not> EFI_ERROR st'"
    "Thread c = slot s (thread_index w)" "WorkOrder c = (if p = 0 then None else Some w)" "CurrentPlace c = 0"
    "Sha256Key c = mem_bytes (ram s1) key 32" "InitializationVector c = mem_bytes (ram s1) iv 16"
    "Progress c = (if q = 0 then None else Some \<lparr>hook = progress_hook_of True w, hook_context = ctx + 8\<rparr>)" and st: "st = MFTAH_SUCCESS L"
    using assms p z by (auto simp: queue_worker_def Let_def PANIC_def put_ctx_def split: if_splits bind_splits)
  obtain t where t: "s' = put_thread (slot s (thread_index w)) t (service (Mp (CreateEvent (slot s (thread_index w)))) (put_ctx ctx c s3))"
    "Method t = work_at s" "Context t = ctx" "\<not> Started t" "\<not> Finished t" and ctx: "ctx \<noteq> 0"
    using CreateThread_success [OF c(1,2)] by blast
  have m: "ram s1 = m" using p(1) ctx assms(2) by (auto simp: AllocateZeroPool_def Let_def split: if_splits)
  have "queued fw K w (mem_bytes m key 32) (mem_bytes m iv 16) s s'"
    by (rule queuedI [where ctx = ctx and c = c and t = t])
      (use z c(3-) t(2-) ctx m in \<open>simp_all add: t(1) put_ctx_def put_thread_def service_def\<close>)
  then show ?thesis using st by simp
qed

text \<open>The pool for the context is fresh: no object lies there, and it does not overlap the key and the vector.\<close>

definition fresh_pool :: "u64 \<Rightarrow> u64 \<Rightarrow> u64 \<Rightarrow> 'a worker_state_scheme \<Rightarrow> bool" where
  "fresh_pool p key iv s \<longleftrightarrow> ctx_at s p = None \<and> (\<forall>i < 32. \<not> in_range p 80 (key + of_nat i)) \<and> (\<forall>i < 16. \<not> in_range p 80 (iv + of_nat i))"

lemma fresh_pool_bytes:
  assumes "fresh_pool p key iv s" and "m' = SetMem p 80 0 m"
  shows "mem_bytes m' key 32 = mem_bytes m key 32" and "mem_bytes m' iv 16 = mem_bytes m iv 16"
  using assms by (auto simp: fresh_pool_def SetMem_def intro!: mem_bytes_cong)

text \<open>Slots of the array are different objects.\<close>

lemma slot_inj:
  assumes "slot s i = slot s j" and "i \<le> 2 ^ 32" and "j \<le> 2 ^ 32"
  shows "i = j"
proof -
  have "unat (of_nat (48 * i) :: u64) = 48 * i" "unat (of_nat (48 * j) :: u64) = 48 * j"
    using assms(2,3) unat_of_nat_u64 [of "48 * i"] unat_of_nat_u64 [of "48 * j"] by simp_all
  moreover have "(of_nat (48 * i) :: u64) = of_nat (48 * j)" using assms(1) by (simp add: slot_def)
  ultimately have "48 * i = 48 * j" by metis
  then show ?thesis by simp
qed

section \<open>A pool of workers\<close>

text \<open>What the thread operations leave of every thread, and of the state behind their own.\<close>

definition keeps_jobs :: "'a mp_state_scheme \<Rightarrow> 'a mp_state_scheme \<Rightarrow> bool" where
  "keeps_jobs s s' \<longleftrightarrow> mp_state.more s' = mp_state.more s
     \<and> (\<forall>p t. thread_at s p = Some t \<longrightarrow> (\<exists>t'. thread_at s' p = Some t' \<and> Method t' = Method t \<and> Context t' = Context t
        \<and> (Finished t \<longrightarrow> Finished t')))"

lemma keeps_jobs_refl [simp]: "keeps_jobs s s"
  by (simp add: keeps_jobs_def)

lemma keeps_jobs_trans: "keeps_jobs s t \<Longrightarrow> keeps_jobs t u \<Longrightarrow> keeps_jobs s u"
  unfolding keeps_jobs_def by metis

lemma keeps_jobs_updates [simp]:
  "keeps_jobs s (t\<lparr>ThreadMutex := b\<rparr>) = keeps_jobs s t" "keeps_jobs s (t\<lparr>MpList := l\<rparr>) = keeps_jobs s t"
  "keeps_jobs s (t\<lparr>MpListAt := p\<rparr>) = keeps_jobs s t" "keeps_jobs s (service c t) = keeps_jobs s t"
  by (simp_all add: keeps_jobs_def service_def)

lemma keeps_jobs_calls: "keeps_jobs s t \<Longrightarrow> only_calls t u \<Longrightarrow> keeps_jobs s u"
  by (auto simp: only_calls_def keeps_jobs_def)

lemma keeps_jobs_put:
  assumes "keeps_jobs s u" and "thread_at u p = Some t" and "Method t' = Method t" and "Context t' = Context t" and "Finished t \<longrightarrow> Finished t'"
  shows "keeps_jobs s (put_thread p t' u)"
proof (rule keeps_jobs_trans [OF assms(1)])
  show "keeps_jobs u (put_thread p t' u)" using assms(2-) by (simp add: keeps_jobs_def put_thread_def)
qed

lemma refresh_entries_calls: "only_calls s (snd (refresh_entries fw old js new s))"
proof (induction js arbitrary: new s)
  case (Cons j js)
  have "only_calls s (snd (refresh_entries fw old js new' (service c s)))" for new' c
    by (rule only_calls_trans [OF only_calls_service Cons])
  then show ?case by (simp add: Let_def)
qed simp

lemma RefreshMPs_keeps: "keeps_jobs s0 s \<Longrightarrow> ends (RefreshMPs fw s) (\<lambda>(st, s'). keeps_jobs s0 s')"
  unfolding RefreshMPs_def
  by (intro vc) (auto dest!: arg_cong [where f = snd] intro!: keeps_jobs_calls [OF _ refresh_entries_calls])

lemma assign_loop_keeps: "keeps_jobs s0 s \<Longrightarrow> ends (assign_loop fw p js s) (\<lambda>(r, s'). keeps_jobs s0 s')"
proof (induction js arbitrary: s)
  case (Cons j js)
  then show ?case unfolding assign_loop.simps
    by (intro vc Cons.IH) (auto intro!: keeps_jobs_put)
qed (simp add: ends_def)

lemma start_loop_keeps:
  assumes "keeps_jobs s0 s"
  shows "ends (start_loop fw p Wait s) (\<lambda>(st, s'). keeps_jobs s0 s')"
proof (rule endsI)
  fix y assume "start_loop fw p Wait s = Some y"
  then show "case y of (st, s') \<Rightarrow> keeps_jobs s0 s'"
  proof (rule start_loop.raw_induct [where P = "\<lambda>fw p Wait s y. keeps_jobs s0 s \<longrightarrow> (case y of (st, s') \<Rightarrow> keeps_jobs s0 s')",
        rotated, THEN mp, OF _ _ assms], goal_cases)
    case (1 f fw p Wait s y)
    have IH: "ends (f fw p Wait s) (\<lambda>(st, s'). keeps_jobs s0 s')" if "keeps_jobs s0 s" for fw p Wait s
      by (rule endsI) (rule mp [OF 1(1) that])
    show ?case
      by (rule impI, rule endsD [OF _ 1(2)], intro vc IH ends_match [OF RefreshMPs_keeps] ends_match [OF assign_loop_keeps]) auto
  qed
qed

lemma StartThread_keeps: "keeps_jobs s0 s \<Longrightarrow> ends (StartThread fw p Wait s) (\<lambda>(st, s'). keeps_jobs s0 s')"
  unfolding StartThread_def by (intro vc start_loop_keeps) simp_all

lemma FinishThread_keeps: "keeps_jobs s0 s \<Longrightarrow> ends (FinishThread fw p s) (\<lambda>s'. keeps_jobs s0 s')"
  unfolding FinishThread_def by (intro vc ends_map [OF RefreshMPs_keeps]) (auto intro!: keeps_jobs_put)

section \<open>A pool of workers\<close>

text \<open>The static array lies in memory, and a slot that has a context has one that points back to the slot, with a key and a vector of the
  right size and an order, if any, for this slot.\<close>

definition ctx_wf :: "u64 \<Rightarrow> nat \<Rightarrow> DECRYPT_THREAD_CTX \<Rightarrow> bool" where
  "ctx_wf p i c \<longleftrightarrow> Thread c = p \<and> length (Sha256Key c) = 32 \<and> length (InitializationVector c) = 16
     \<and> (\<forall>w. WorkOrder c = Some w \<longrightarrow> thread_index w = i)"

definition slot_wf :: "'a worker_state_scheme \<Rightarrow> nat \<Rightarrow> bool" where
  "slot_wf s i \<longleftrightarrow> (\<exists>t. thread_at s (slot s i) = Some t \<and> (Context t \<noteq> 0 \<longrightarrow> (\<exists>c. ctx_at s (Context t) = Some c \<and> ctx_wf (slot s i) i c)))"

definition workers_wf :: "nat \<Rightarrow> 'a worker_state_scheme \<Rightarrow> bool" where
  "workers_wf n s \<longleftrightarrow> (\<forall>i < n. slot_wf s i)"

lemma ctx_wf_place [simp]: "ctx_wf p i (c\<lparr>CurrentPlace := k\<rparr>) = ctx_wf p i c"
  by (simp add: ctx_wf_def)

lemma slot_wf_frame:
  assumes "slot_wf s i" and "slot s' i = slot s i"
    and "\<And>t. thread_at s (slot s i) = Some t \<Longrightarrow> \<exists>t'. thread_at s' (slot s i) = Some t' \<and> Context t' = Context t"
    and "\<And>p c. ctx_at s p = Some c \<Longrightarrow> \<exists>c'. ctx_at s' p = Some c' \<and> (ctx_wf (slot s i) i c \<longrightarrow> ctx_wf (slot s i) i c')"
  shows "slot_wf s' i"
  using assms unfolding slot_wf_def by metis

lemma more_ctx:
  fixes s s' :: "'a worker_state_scheme"
  assumes "mp_state.more s' = mp_state.more s"
  shows "ctx_at s' = ctx_at s" and "Threads_at s' = Threads_at s" and "work_at s' = work_at s"
  using assms by (cases s, cases s', simp)+

lemma keeps_workers_wf:
  assumes "keeps_jobs s s'" and "workers_wf n s"
  shows "workers_wf n s'"
proof -
  have same: "slot s' = slot s" "ctx_at s' = ctx_at s"
    using more_ctx [of s' s] assms(1) by (auto simp: keeps_jobs_def slot_def fun_eq_iff)
  have job: "\<exists>t'. thread_at s' p = Some t' \<and> Context t' = Context t" if "thread_at s p = Some t" for p t
    using assms(1) that unfolding keeps_jobs_def by blast
  have "slot_wf s' i" if "slot_wf s i" for i
    by (rule slot_wf_frame [OF that]) (simp_all add: same job)
  then show ?thesis using assms(2) by (simp add: workers_wf_def)
qed

lemma keeps_mftah: "mftah fw L c s = (st, s') \<Longrightarrow> keeps_jobs s s'"
  by (auto simp: mftah_def keeps_jobs_def service_def Let_def)

lemma queued_workers_wf:
  assumes "queued fw K w key iv s s'" and "workers_wf n s" and "ctx_at s (ret fw (calls s @ [AllocatePool 80])) = None" and "n \<le> 2 ^ 32"
    and "thread_index w < n" and "length key = 32" and "length iv = 16"
  shows "workers_wf n s'"
proof -
  obtain ctx c t where q: "ctx_at s ctx = None" "ctx_at s' = (ctx_at s)(ctx \<mapsto> c)" "thread_at s' = (thread_at s)(slot s (thread_index w) \<mapsto> t)"
    "Threads_at s' = Threads_at s" "Context t = ctx" "Thread c = slot s (thread_index w)" "WorkOrder c = None \<or> WorkOrder c = Some w"
    "Sha256Key c = key" "InitializationVector c = iv"
    using assms(1,3) by (auto simp: queued_def Let_def split: if_splits)
  have slot: "slot s' = slot s" using q(4) by (auto simp: slot_def)
  have "slot s i = slot s j \<longleftrightarrow> i = j" if "i < n" "j < n" for i j
    using slot_inj [of s i j] that assms(4) by auto
  note inj = this
  have "slot_wf s' i" if i: "i < n" for i
  proof (cases "i = thread_index w")
    case True
    then show ?thesis using q assms(6,7) by (auto simp: slot_wf_def ctx_wf_def slot)
  next
    case False
    show ?thesis
    proof (rule slot_wf_frame)
      show "slot_wf s i" using assms(2) i by (simp add: workers_wf_def)
    qed (use False inj [OF i assms(5)] q(1-3) slot in auto)
  qed
  then show ?thesis by (simp add: workers_wf_def)
qed

lemma Spawn_cases:
  assumes "SpawnDecryptionWorker fw L K protocol (Some w) key iv s = Some (st, s')"
  obtains "s' = s" | "keeps_jobs s s'" "\<not> IsThreadingEnabled s"
    | "queue_worker fw L K w key iv s = Some (st, s')" "thread_index w < MFTAH_MAX_THREAD_COUNT K" "IsThreadingEnabled s"
  using assms by (auto simp: SpawnDecryptionWorker_def PANIC_def dest: keeps_mftah split: if_splits option.splits)

lemma Spawn_workers_wf:
  assumes "SpawnDecryptionWorker fw L K protocol (Some w) key iv s = Some (st, s')" and "workers_wf (MFTAH_MAX_THREAD_COUNT K) s"
    and "ctx_at s (ret fw (calls s @ [AllocatePool 80])) = None" and "MFTAH_MAX_THREAD_COUNT K \<le> 2 ^ 32"
  shows "workers_wf (MFTAH_MAX_THREAD_COUNT K) s'"
  using assms(1)
proof (cases rule: Spawn_cases)
  case 3
  from queue_worker_queues [OF 3(1) refl] show ?thesis
    using queued_workers_wf [OF _ assms(2-4) 3(2)] by auto
qed (use assms(2) keeps_workers_wf in blast)+

lemma SaveThreadProgress_workers_wf:
  assumes "SaveThreadProgress cur extra s = Some s'" and "workers_wf n s"
  shows "workers_wf n s'"
proof (cases "s' = s")
  case False
  then obtain c k where c: "ctx_at s (extra - 8) = Some c" "s' = put_ctx (extra - 8) (c\<lparr>CurrentPlace := k\<rparr>) s"
    using assms(1) by (auto simp: SaveThreadProgress_def split: if_splits option.splits)
  then have same: "slot s' = slot s" "thread_at s' = thread_at s" "ctx_at s' = (ctx_at s)(extra - 8 \<mapsto> c\<lparr>CurrentPlace := k\<rparr>)"
    by (auto simp: put_ctx_def slot_def)
  have "slot_wf s' i" if "slot_wf s i" for i
    by (rule slot_wf_frame [OF that]) (use same c(1) in auto)
  then show ?thesis using assms(2) by (simp add: workers_wf_def)
qed (use assms(2) in simp)

lemma work_keeps: "work fw L ctx s = Some s' \<Longrightarrow> keeps_jobs s s'"
  by (auto simp: work_def PANIC_def split: option.splits if_splits prod.splits dest!: keeps_mftah intro: endsD [OF FinishThread_keeps])

text \<open>One step of the library's use of the hooks, on whatever processor; pools come from the firmware, which does not hand out a live object.\<close>

inductive hook_step :: "firmware \<Rightarrow> libs \<Rightarrow> hook_libs \<Rightarrow> 'a worker_state_scheme \<Rightarrow> 'a worker_state_scheme \<Rightarrow> bool" for fw L K where
  spawn: "SpawnDecryptionWorker fw L K protocol (Some w) key iv s = Some (st, s') \<Longrightarrow> ctx_at s (ret fw (calls s @ [AllocatePool 80])) = None
    \<Longrightarrow> hook_step fw L K s s'"
| start: "StartThread fw (slot s i) False s = Some (st, s') \<Longrightarrow> hook_step fw L K s s'"
| works: "work fw L ctx s = Some s' \<Longrightarrow> hook_step fw L K s s'"
| progress: "SaveThreadProgress cur extra s = Some s' \<Longrightarrow> hook_step fw L K s s'"

lemma hook_step_workers_wf:
  assumes "hook_step fw L K s s'" and "workers_wf (MFTAH_MAX_THREAD_COUNT K) s" and "MFTAH_MAX_THREAD_COUNT K \<le> 2 ^ 32"
  shows "workers_wf (MFTAH_MAX_THREAD_COUNT K) s'"
  using assms(1)
proof cases
  case (spawn protocol w key iv st)
  then show ?thesis using Spawn_workers_wf assms(2,3) by blast
next
  case (start i st)
  show ?thesis using endsD [OF StartThread_keeps [OF keeps_jobs_refl] start] keeps_workers_wf [OF _ assms(2)] by simp
next
  case (works ctx)
  show ?thesis by (rule keeps_workers_wf [OF work_keeps [OF works] assms(2)])
next
  case (progress cur extra)
  show ?thesis by (rule SaveThreadProgress_workers_wf [OF progress assms(2)])
qed

interpretation hooks: step_system "workers_wf (MFTAH_MAX_THREAD_COUNT K)" "hook_step fw L K"
    "\<lambda>s. MFTAH_MAX_THREAD_COUNT K \<le> 2 ^ 32 \<longrightarrow> workers_wf (MFTAH_MAX_THREAD_COUNT K) s" for fw L K
  by unfold_locales (auto intro: hook_step_workers_wf)

section \<open>Waiting for workers\<close>

text \<open>The slot has a worker; a slot is over if that worker has finished, or if there is none.\<close>

definition active :: "'a worker_state_scheme \<Rightarrow> nat \<Rightarrow> MFTAH_THREAD \<Rightarrow> DECRYPT_THREAD_CTX \<Rightarrow> bool" where
  "active s i t c \<longleftrightarrow> thread_at s (slot s i) = Some t \<and> Context t \<noteq> 0 \<and> ctx_at s (Context t) = Some c \<and> WorkOrder c \<noteq> None"

definition over :: "'a worker_state_scheme \<Rightarrow> nat \<Rightarrow> bool" where
  "over s i \<longleftrightarrow> (\<forall>t c. active s i t c \<longrightarrow> Finished t)"

text \<open>What every step of the workers does not take back.\<close>

definition stays :: "'a worker_state_scheme \<Rightarrow> 'a worker_state_scheme \<Rightarrow> bool" where
  "stays s s' \<longleftrightarrow> slot s' = slot s
     \<and> (\<forall>p t. thread_at s p = Some t \<longrightarrow> (\<exists>t'. thread_at s' p = Some t' \<and> Context t' = Context t \<and> (Finished t \<longrightarrow> Finished t')))
     \<and> (\<forall>p c. ctx_at s p = Some c \<longrightarrow> (\<exists>c'. ctx_at s' p = Some c' \<and> (WorkOrder c' = None \<longleftrightarrow> WorkOrder c = None)))"

lemma staysD:
  assumes "stays s s'"
  shows "slot s' = slot s"
    and "thread_at s p = Some t \<Longrightarrow> \<exists>t'. thread_at s' p = Some t' \<and> Context t' = Context t \<and> (Finished t \<longrightarrow> Finished t')"
    and "ctx_at s p = Some c \<Longrightarrow> \<exists>c'. ctx_at s' p = Some c' \<and> (WorkOrder c' = None \<longleftrightarrow> WorkOrder c = None)"
  using assms unfolding stays_def by blast+

lemma stays_refl [simp]: "stays s s"
  by (auto simp: stays_def)

lemma stays_trans:
  assumes "stays s t" and "stays t u"
  shows "stays s u"
proof -
  have a: "\<exists>x'. thread_at u p = Some x' \<and> Context x' = Context x \<and> (Finished x \<longrightarrow> Finished x')" if x: "thread_at s p = Some x" for p x
  proof -
    obtain y where y: "thread_at t p = Some y" "Context y = Context x" "Finished x \<longrightarrow> Finished y" using staysD(2) [OF assms(1) x] by blast
    obtain z where "thread_at u p = Some z" "Context z = Context y" "Finished y \<longrightarrow> Finished z" using staysD(2) [OF assms(2) y(1)] by blast
    then show ?thesis using y(2,3) by (intro exI [of _ z]) simp
  qed
  have b: "\<exists>c'. ctx_at u p = Some c' \<and> (WorkOrder c' = None \<longleftrightarrow> WorkOrder c = None)" if c: "ctx_at s p = Some c" for p c
  proof -
    obtain y where y: "ctx_at t p = Some y" "WorkOrder y = None \<longleftrightarrow> WorkOrder c = None" using staysD(3) [OF assms(1) c] by (elim exE conjE)
    obtain z where "ctx_at u p = Some z" "WorkOrder z = None \<longleftrightarrow> WorkOrder y = None" using staysD(3) [OF assms(2) y(1)] by (elim exE conjE)
    then show ?thesis using y(2) by (intro exI [of _ z] conjI) simp_all
  qed
  have "slot u = slot s" using staysD(1) [OF assms(1)] staysD(1) [OF assms(2)] by (rule trans [rotated])
  with a b show ?thesis unfolding stays_def by blast
qed

lemma keeps_jobs_stays:
  assumes "keeps_jobs s s'"
  shows "stays s s'"
proof -
  have same: "slot s' = slot s" "ctx_at s' = ctx_at s"
    using more_ctx [of s' s] assms by (auto simp: keeps_jobs_def slot_def fun_eq_iff)
  have "\<exists>t'. thread_at s' p = Some t' \<and> Context t' = Context t \<and> (Finished t \<longrightarrow> Finished t')" if "thread_at s p = Some t" for p t
    using assms that unfolding keeps_jobs_def by blast
  then show ?thesis unfolding stays_def same by blast
qed

lemma work_stays: "work fw L ctx s = Some s' \<Longrightarrow> stays s s'"
  by (rule keeps_jobs_stays [OF work_keeps])

lemma StartThread_stays: "StartThread fw p Wait s = Some (st, s') \<Longrightarrow> stays s s'"
  using endsD [OF StartThread_keeps [OF keeps_jobs_refl], of fw p Wait s "(st, s')"] by (auto intro: keeps_jobs_stays)

lemma SaveThreadProgress_stays: "SaveThreadProgress cur extra s = Some s' \<Longrightarrow> stays s s'"
  by (auto simp: SaveThreadProgress_def stays_def put_ctx_def slot_def fun_eq_iff split: if_splits option.splits)

lemma service_stays [simp]: "stays s (service c t) = stays s t"
  by (simp add: stays_def fun_eq_iff slot_def service_def)

lemma overI:
  assumes "thread_at s (slot s i) = Some t" and "Context t = 0 \<or> (\<exists>c. ctx_at s (Context t) = Some c \<and> WorkOrder c = None) \<or> Finished t"
  shows "over s i"
  using assms by (auto simp: over_def active_def)

lemma over_stays:
  assumes "over s i" and "stays s s'" and "thread_at s (slot s i) = Some t" and "Context t = 0 \<or> ctx_at s (Context t) \<noteq> None"
  shows "over s' i"
proof -
  obtain t' where t': "thread_at s' (slot s' i) = Some t'" "Context t' = Context t" "Finished t \<longrightarrow> Finished t'"
    using staysD(1) [OF assms(2)] staysD(2) [OF assms(2,3)] by auto
  show ?thesis
  proof (cases "Finished t \<or> Context t = 0")
    case True
    then show ?thesis using t' by (auto intro: overI)
  next
    case False
    then obtain c where c: "ctx_at s (Context t) = Some c" "WorkOrder c = None" using assms by (auto simp: over_def active_def)
    then show ?thesis using staysD(3) [OF assms(2) c(1)] t' by (auto intro: overI)
  qed
qed

lemma spin_pass_stays:
  assumes "\<And>i s. stays s (others i s)"
  shows "spin_pass fw others js C P s = Some (C', P', s') \<Longrightarrow> stays s s' \<and> (C' \<longrightarrow> C \<and> (\<forall>i \<in> set js. over s' i))"
proof (induction js arbitrary: C P s)
  case (Cons i js)
  let ?u = "others i s"
  have su: "stays s ?u" by (rule assms)
  obtain t where t: "thread_at ?u (slot ?u i) = Some t" using Cons.prems by (auto simp: Let_def split: bind_splits)
  show ?case
  proof (cases "Context t = 0 \<or> (\<exists>c. ctx_at ?u (Context t) = Some c \<and> WorkOrder c = None)")
    case True
    then have "spin_pass fw others js C P ?u = Some (C', P', s')" using Cons.prems t by (auto simp: Let_def split: if_splits)
    from Cons.IH [OF this] have IH: "stays ?u s'" "C' \<longrightarrow> C \<and> (\<forall>i \<in> set js. over s' i)" by auto
    moreover have "over s' i" by (rule over_stays [OF overI [OF t] IH(1) t]) (use True in auto)
    ultimately show ?thesis using stays_trans [OF su] by simp
  next
    case False
    then obtain c v where c: "ctx_at ?u (Context t) = Some c" "WorkOrder c \<noteq> None"
      and v: "(if \<not> Started t \<and> \<not> Finished t then map_option snd (StartThread fw (slot ?u i) False ?u) else Some ?u) = Some v"
      using Cons.prems t by (auto simp: Let_def split: bind_splits if_splits)
    let ?w = "others i v"
    have "stays ?u v" using v by (auto dest: StartThread_stays split: if_splits)
    then have sw: "stays s ?w" using su stays_trans [OF _ assms] stays_trans by blast
    obtain t' c' where t': "thread_at ?w (slot ?w i) = Some t'" "ctx_at ?w (Context t') = Some c'"
      and r: "spin_pass fw others js (C \<and> Finished t') (P + CurrentPlace c') ?w = Some (C', P', s')"
      using Cons.prems t c v False by (auto simp: Let_def split: bind_splits if_splits)
    from Cons.IH [OF r] have IH: "stays ?w s'" "C' \<longrightarrow> (C \<and> Finished t') \<and> (\<forall>i \<in> set js. over s' i)" by auto
    moreover have "over s' i" if "Finished t'" by (rule over_stays [OF overI [OF t'(1)] IH(1) t'(1)]) (use that t' in auto)
    ultimately show ?thesis using stays_trans [OF sw] by simp
  qed
qed simp

lemma spin_loop_ends:
  assumes "spin_loop fw others n T s = Some s'"
  shows "\<exists>u C P v. spin_pass fw others [0..<n] True 0 u = Some (C, P, v) \<and> s' = service (Stall 50000) v \<and> (C \<or> T \<le> P)"
proof (rule spin_loop.raw_induct [where P = "\<lambda>fw others n T s s'. \<exists>u C P v. spin_pass fw others [0..<n] True 0 u = Some (C, P, v)
      \<and> s' = service (Stall 50000) v \<and> (C \<or> T \<le> P)", OF _ assms], goal_cases)
  case (1 f fw others n T s s')
  then obtain C P v where p: "spin_pass fw others [0..<n] True 0 s = Some (C, P, v)"
    and r: "(if \<not> C \<and> P < T then f fw others n T (service (Stall 50000) v) else Some (service (Stall 50000) v)) = Some s'"
    by (auto simp: Let_def split: bind_splits)
  show ?case
  proof (cases "\<not> C \<and> P < T")
    case True
    then show ?thesis using 1(1) r by simp
  next
    case False
    then have "s' = service (Stall 50000) v" "C \<or> T \<le> P" using r by auto
    then show ?thesis using p by blast
  qed
qed

text \<open>A pass in which nobody else does anything and no worker waits to be started.\<close>

definition place :: "'a worker_state_scheme \<Rightarrow> nat \<Rightarrow> u64" where
  "place s i =
     (case thread_at s (slot s i) of None \<Rightarrow> 0
      | Some t \<Rightarrow> if Context t = 0 then 0
          else case ctx_at s (Context t) of None \<Rightarrow> 0 | Some c \<Rightarrow> if WorkOrder c = None then 0 else CurrentPlace c)"

definition idle :: "'a worker_state_scheme \<Rightarrow> nat \<Rightarrow> bool" where
  "idle s i \<longleftrightarrow> (\<exists>t. thread_at s (slot s i) = Some t
     \<and> (Context t = 0 \<or> (\<exists>c. ctx_at s (Context t) = Some c \<and> (WorkOrder c = None \<or> Started t \<or> Finished t))))"

lemma spin_pass_idle:
  assumes "\<forall>i \<in> set js. idle s i"
  shows "spin_pass fw (\<lambda>_ s. s) js C P s = Some (C \<and> (\<forall>i \<in> set js. over s i), P + sum_list (map (place s) js), s)"
  using assms
proof (induction js arbitrary: C P)
  case (Cons i js)
  then obtain t where t: "thread_at s (slot s i) = Some t"
    "Context t = 0 \<or> (\<exists>c. ctx_at s (Context t) = Some c \<and> (WorkOrder c = None \<or> Started t \<or> Finished t))"
    by (auto simp: idle_def)
  then show ?case using Cons
    by (auto simp: Let_def place_def over_def active_def add.assoc)
qed simp

lemma IsThreadingEnabled_eq:
  "mEfiMpServicesProtocol s' = mEfiMpServicesProtocol s \<Longrightarrow> MpCount s' = MpCount s \<Longrightarrow> IsThreadingEnabled s' = IsThreadingEnabled s"
  by (simp add: IsThreadingEnabled_def)

text \<open>Initialisation does not touch what decides on threading.\<close>

definition same_mp :: "'a mp_state_scheme \<Rightarrow> 'a mp_state_scheme \<Rightarrow> bool" where
  "same_mp s s' \<longleftrightarrow> mEfiMpServicesProtocol s' = mEfiMpServicesProtocol s \<and> MpCount s' = MpCount s"

lemma EnvironmentInitialize_same_mp: "ends (EnvironmentInitialize fw L s) (same_mp s)"
proof -
  have "same_mp s (snd (EntryGraphics fw s))" for s :: "'a boot_state_scheme"
    by (simp add: EntryGraphics_def Let_def same_mp_def service_def)
  moreover have "same_mp s (snd (AcpiLoadDriver fw s))" for s :: "'a boot_state_scheme"
    by (simp add: AcpiLoadDriver_def AcpiProtocolCheck_def Let_def same_mp_def service_def)
  moreover have "same_mp s (snd (RDEntryPoint fw h s))" for s :: "'a boot_state_scheme" and h
    by (simp add: RDEntryPoint_def Let_def same_mp_def service_def)
  moreover have "same_mp s (snd (AllocateZeroPool fw n s))" "same_mp s (snd (mftah fw L c s))" for s :: "'a boot_state_scheme" and n c
    by (simp_all add: AllocateZeroPool_def mftah_def Let_def same_mp_def service_def)
  ultimately have d: "EntryGraphics fw s = (st, s') \<Longrightarrow> same_mp s s'" "AcpiLoadDriver fw s = (st, s') \<Longrightarrow> same_mp s s'"
    "RDEntryPoint fw h s = (st, s') \<Longrightarrow> same_mp s s'" "AllocateZeroPool fw n s = (st, s') \<Longrightarrow> same_mp s s'" "mftah fw L c s = (st, s') \<Longrightarrow> same_mp s s'"
    for s s' :: "'a boot_state_scheme" and st h n c
    by (metis snd_conv)+
  show ?thesis
    unfolding EnvironmentInitialize_def
    by (intro vc) (auto dest!: d d [OF sym] simp: same_mp_def service_def)
qed

text \<open>The pool operations do not call the library.\<close>

definition no_mftah :: "efi_call \<Rightarrow> bool" where
  "no_mftah c \<longleftrightarrow> (case c of Mftah x \<Rightarrow> False | _ \<Rightarrow> True)"

lemma no_mftah_simps [simp]: "\<not> no_mftah (Mftah x)" "no_mftah (Mp m)" "no_mftah (AllocatePool n)" "no_mftah (FreePool p)"
  by (simp_all add: no_mftah_def)

lemma refresh_entries_no_mftah: "emits no_mftah cs (calls s) \<Longrightarrow> emits no_mftah cs (calls (snd (refresh_entries fw old js new s)))"
  by (induction js arbitrary: new s) (auto simp: Let_def)

lemma RefreshMPs_no_mftah: "emits no_mftah cs (calls s) \<Longrightarrow> ends (RefreshMPs fw s) (\<lambda>(st, s'). emits no_mftah cs (calls s'))"
  unfolding RefreshMPs_def
  by (intro vc) (auto dest!: arg_cong [where f = snd] intro!: emits_calls refresh_entries_no_mftah)

lemma FinishThread_no_mftah: "emits no_mftah cs (calls s) \<Longrightarrow> ends (FinishThread fw p s) (\<lambda>s'. emits no_mftah cs (calls s'))"
  unfolding FinishThread_def by (intro vc ends_map [OF RefreshMPs_no_mftah]) auto

lemma FinishThread_finishes:
  assumes "FinishThread fw p s = Some s'" and "p \<noteq> 0"
  shows "\<exists>t. thread_at s' p = Some t \<and> Finished t"
proof -
  obtain t where t: "thread_at s p = Some t" using assms by (auto simp: FinishThread_def split: option.splits)
  show ?thesis
  proof (cases "Finished t")
    case True
    then show ?thesis using assms t by (auto simp: FinishThread_def)
  next
    case False
    then obtain u st where u: "RefreshMPs fw u = Some (st, s')" "thread_at u p = Some (t\<lparr>Finished := True\<rparr>)"
      using assms t by (auto simp: FinishThread_def Let_def split: if_splits)
    from endsD [OF RefreshMPs_keeps [OF keeps_jobs_refl] u(1)] u(2) show ?thesis unfolding keeps_jobs_def by fastforce
  qed
qed

lemma work_result:
  assumes "work fw L (Context t) s = Some s'" and "active s i t c" and "ctx_wf (slot s i) i c" and "slot s i \<noteq> 0"
  shows "\<exists>w u. WorkOrder c = Some w \<and> thread_index w = i
    \<and> calls s' = calls s @ Mftah (Crypt w (Sha256Key c) (InitializationVector c) (Progress c)) # u \<and> list_all no_mftah u
    \<and> \<not> MFTAH_ERROR L (ret fw (calls s @ [Mftah (Crypt w (Sha256Key c) (InitializationVector c) (Progress c))])) \<and> over s' i"
proof -
  obtain w where w: "WorkOrder c = Some w" "thread_index w = i" using assms(2,3) by (auto simp: active_def ctx_wf_def)
  let ?c = "Mftah (Crypt w (Sha256Key c) (InitializationVector c) (Progress c))"
  obtain v where v: "FinishThread fw (slot s i) v = Some s'" "calls v = calls s @ [?c]" and ok: "\<not> MFTAH_ERROR L (ret fw (calls s @ [?c]))"
    using assms(1-3) w by (auto simp: work_def active_def ctx_wf_def PANIC_def mftah_def Let_def split: if_splits)
  have slot: "slot s' = slot s" using staysD(1) [OF work_stays [OF assms(1)]] .
  have "emits no_mftah (calls s @ [?c]) (calls s')" using endsD [OF FinishThread_no_mftah v(1)] v(2) by simp
  moreover obtain t' where "thread_at s' (slot s' i) = Some t'" "Finished t'" using FinishThread_finishes [OF v(1) assms(4)] slot by auto
  ultimately show ?thesis using w ok by (auto simp: emits_def intro: overI)
qed

section \<open>A machine for the witnesses\<close>

definition lab_fw :: firmware where
  "lab_fw = \<lparr>ret = \<lambda>t. case last t of AllocatePool n \<Rightarrow> 0x1000 * of_nat (length t) | Mftah c \<Rightarrow> 0 | _ \<Rightarrow> EFI_SUCCESS, out = \<lambda>_. 5, data = \<lambda>_. [],
     wide = \<lambda>_. [], handles = \<lambda>_ _. 0, map_size = \<lambda>_. 0, desc_size = \<lambda>_. 0, desc_at = \<lambda>_ _. \<lparr>PhysicalStart = 0, NumberOfPages = 0\<rparr>,
     private_data_size = 300\<rparr>"

definition lab_libs :: libs where
  "lab_libs = \<lparr>StrUpr = \<lambda>w. w, StrCmp = \<lambda>_ _. 0, StrnCmp = \<lambda>_ _ _. 1, MFTAH_ERROR = \<lambda>r. r \<noteq> 0, MFTAH_SUCCESS = 0,
     MFTAH_INVALID_PASSWORD = 1, mftah_payload_header__sizeof = 0, mftah_payload__sizeof = 64, mftah_protocol_size = 64,
     mftah_registration_size = 64, effect = \<lambda>_ m. m\<rparr>"

definition lab_hooks :: hook_libs where
  "lab_hooks = \<lparr>MFTAH_INVALID_PARAMETER = 2, MFTAH_THREAD_BUSY = 3, MFTAH_MAX_THREAD_COUNT = 1, work_order_size = 32, progress_size = 16\<rparr>"

definition lab_order :: work_order where
  "lab_order = \<lparr>thread_index = 0, location = 0x7000, order_length = 512, suppress_progress = False\<rparr>"

definition lab_thread :: MFTAH_THREAD where
  "lab_thread = \<lparr>AssignedProcessorNumber = 0, CompletionEvent = 0, Started = False, Finished = False, ExitStatus = 0, Method = 0, Context = 0\<rparr>"

text \<open>\<open>mp\<close> is the multiprocessor protocol, 0 if there is none; slot 0 holds the thread \<open>t\<close> with the context \<open>c\<close> at \<open>0x5000\<close>.\<close>

definition lab :: "u64 \<Rightarrow> MFTAH_THREAD \<Rightarrow> DECRYPT_THREAD_CTX option \<Rightarrow> worker_state" where
  "lab mp t c = \<lparr>calls = [], ram = \<lambda>_. 1, gAcpiTableProtocol = 0, ramdisks = \<lambda>_. None, ThreadMutex = False,
     mEfiMpServicesProtocol = mp, BspProcessorNumber = 0, MpCount = 0, MpListAt = 0, MpList = [], thread_at = [0x9000 \<mapsto> t], gImageHandle = 0,
     gOperatingPayload = \<lparr>Payload = 0, FromMultiSelect = False, Name = 0, VolumeHandle = 0, SharedMutex = 0\<rparr>,
     gRamdiskImage = 0, gRamdiskImageLength = 0, MFTAH = 0, Threads_at = 0x9000, work_at = 0xa000, ctx_at = (\<lambda>_. None)(0x5000 := c)\<rparr>"

definition lab_ctx :: "u64 \<Rightarrow> DECRYPT_THREAD_CTX" where
  "lab_ctx k = \<lparr>Thread = 0x9000, CurrentPlace = k, WorkOrder = Some lab_order, Progress = None, Sha256Key = replicate 32 1,
     InitializationVector = replicate 16 1\<rparr>"

lemmas lab_defs = lab_fw_def lab_libs_def lab_hooks_def lab_order_def lab_thread_def lab_def lab_ctx_def

lemma lab_queues:
  "\<exists>s'. SpawnDecryptionWorker lab_fw lab_libs lab_hooks 1 (Some lab_order) 0x6000 0x6100 (lab 1 lab_thread None) = Some (0, s')"
  by (simp add: SpawnDecryptionWorker_def queue_worker_def CreateThread_def AllocateZeroPool_def IsThreadingEnabled_def slot_def put_ctx_def
      put_thread_def service_def Let_def lab_defs)

lemma lab_fresh: "fresh_pool (ret lab_fw (calls (lab 1 lab_thread None) @ [AllocatePool 80])) 0x6000 0x6100 (lab 1 lab_thread None)"
  by (auto simp: fresh_pool_def lab_defs in_range_def word_less_nat_alt unat_word_ariths unat_of_nat_u64)

section \<open>Properties\<close>

text \<open>The loader as it is built decrypts on the processor it boots on: after its initialisation threading is off, so a work order is
  decrypted by the call itself, with the bytes of its key and vector, and there is nothing to wait for.\<close>

theorem EnvironmentInitialize_synchronous:
  assumes "EnvironmentInitialize fw L s = Some s'" and "mEfiMpServicesProtocol s = 0" and "MpCount s = 0"
  shows "SpawnDecryptionWorker fw L K protocol (Some w) key iv s' =
      (if protocol = 0 \<or> key = 0 \<or> iv = 0 then Some (MFTAH_INVALID_PARAMETER K, s')
       else if thread_index w \<ge> MFTAH_MAX_THREAD_COUNT K then None
       else if order_length w = 0 then Some (MFTAH_SUCCESS L, s')
       else Some (mftah fw L (Crypt w (mem_bytes (ram s') key 32) (mem_bytes (ram s') iv 16) (Some \<lparr>hook = progress_hook_of False w, hook_context = 0\<rparr>)) s'))
    \<and> UefiSpin fw K others n s' = Some s'"
proof -
  have "\<not> IsThreadingEnabled s'"
    using endsD [OF EnvironmentInitialize_same_mp assms(1)] assms(2,3) by (simp add: same_mp_def IsThreadingEnabled_def)
  then show ?thesis by (simp add: SpawnDecryptionWorker_def UefiSpin_def PANIC_def)
qed

theorem EnvironmentInitialize_synchronous_witness:
  "\<exists>s'. EnvironmentInitialize lab_fw lab_libs (lab 0 lab_thread None) = Some s'
    \<and> SpawnDecryptionWorker lab_fw lab_libs lab_hooks 1 (Some lab_order) 0x6000 0x6100 s'
      = Some (mftah lab_fw lab_libs (Crypt lab_order (mem_bytes (ram s') 0x6000 32) (mem_bytes (ram s') 0x6100 16) (Some \<lparr>hook = PrintsProgress, hook_context = 0\<rparr>)) s')"
proof -
  have "\<exists>s'. EnvironmentInitialize lab_fw lab_libs (lab 0 lab_thread None) = Some s'"
    by (simp add: EnvironmentInitialize_def EntryGraphics_def AcpiLoadDriver_def AcpiProtocolCheck_def RDEntryPoint_def AllocateZeroPool_def
        mftah_def service_def Let_def lab_defs)
  then obtain s' where s': "EnvironmentInitialize lab_fw lab_libs (lab 0 lab_thread None) = Some s'" ..
  show ?thesis using EnvironmentInitialize_synchronous [OF s', where w = lab_order and K = lab_hooks and protocol = 1 and key = "0x6000" and iv = "0x6100"] s'
    by (simp add: lab_def lab_order_def lab_hooks_def progress_hook_of_def)
qed

text \<open>A worker that is queued holds the order it was queued for, in the slot of its index, with the bytes of its key and its vector; it is not
  started, and every other thread and context is as before. The pool for the context is fresh, as the firmware promises.\<close>

theorem SpawnDecryptionWorker_queues:
  assumes "SpawnDecryptionWorker fw L K protocol (Some w) key iv s = Some (MFTAH_SUCCESS L, s')"
    and "IsThreadingEnabled s" and "order_length w \<noteq> 0" and "fresh_pool (ret fw (calls s @ [AllocatePool 80])) key iv s"
    and "MFTAH_INVALID_PARAMETER K \<noteq> MFTAH_SUCCESS L" and "MFTAH_THREAD_BUSY K \<noteq> MFTAH_SUCCESS L"
  shows "queued fw K w (mem_bytes (ram s) key 32) (mem_bytes (ram s) iv 16) s s'"
proof -
  have "queue_worker fw L K w key iv s = Some (MFTAH_SUCCESS L, s')"
    using assms by (auto simp: SpawnDecryptionWorker_def PANIC_def split: if_splits option.splits)
  from queue_worker_queues [OF this refl] show ?thesis using fresh_pool_bytes [OF assms(4) refl] by simp
qed

theorem SpawnDecryptionWorker_queues_witness:
  "\<exists>s'. SpawnDecryptionWorker lab_fw lab_libs lab_hooks 1 (Some lab_order) 0x6000 0x6100 (lab 1 lab_thread None) = Some (0, s')
    \<and> queued lab_fw lab_hooks lab_order (replicate 32 1) (replicate 16 1) (lab 1 lab_thread None) s'"
proof -
  obtain s' where run: "SpawnDecryptionWorker lab_fw lab_libs lab_hooks 1 (Some lab_order) 0x6000 0x6100 (lab 1 lab_thread None) = Some (0, s')"
    using lab_queues by blast
  have m: "mem_bytes (ram (lab 1 lab_thread None)) a n = replicate n 1" for a n
    by (simp add: lab_def mem_bytes_def map_replicate_trivial)
  show ?thesis
    using SpawnDecryptionWorker_queues [of lab_fw lab_libs lab_hooks 1 lab_order "0x6000" "0x6100" "lab 1 lab_thread None" s'] run lab_fresh
    by (simp add: m IsThreadingEnabled_def lab_hooks_def lab_libs_def lab_order_def) (simp add: lab_def)
qed

text \<open>C38: Whatever the library does with the hooks, on whatever processors, the objects of the workers stay well typed: every slot is a thread, and a
  context that is set points back to its slot, holds 32 bytes of key and 16 of vector, and an order for this slot.\<close>

theorem hooks_keep_workers_wf:
  assumes "(hook_step fw L K)\<^sup>*\<^sup>* s s'" and "workers_wf (MFTAH_MAX_THREAD_COUNT K) s" and "MFTAH_MAX_THREAD_COUNT K \<le> 2 ^ 32"
  shows "workers_wf (MFTAH_MAX_THREAD_COUNT K) s'"
  using hooks.reached [OF assms(2,1)] assms(3) by blast

theorem hooks_keep_workers_wf_witness:
  "\<exists>s'. (hook_step lab_fw lab_libs lab_hooks)\<^sup>*\<^sup>* (lab 1 lab_thread None) s' \<and> s' \<noteq> lab 1 lab_thread None \<and> workers_wf 1 s'"
proof -
  obtain s' where run: "SpawnDecryptionWorker lab_fw lab_libs lab_hooks 1 (Some lab_order) 0x6000 0x6100 (lab 1 lab_thread None) = Some (0, s')"
    using lab_queues by blast
  have step: "(hook_step lab_fw lab_libs lab_hooks)\<^sup>*\<^sup>* (lab 1 lab_thread None) s'"
    by (rule r_into_rtranclp, rule hook_step.spawn [OF run]) (simp add: lab_def lab_fw_def)
  have "workers_wf 1 (lab 1 lab_thread None)" by (simp add: workers_wf_def slot_wf_def slot_def lab_def lab_thread_def)
  then have "workers_wf 1 s'" using hooks_keep_workers_wf [OF step] by (simp add: lab_hooks_def)
  moreover have "calls s' \<noteq> []" using queue_worker_queues [OF _ refl, of lab_fw lab_libs lab_hooks lab_order _ _ _ 0 s'] run
    by (auto simp: SpawnDecryptionWorker_def queued_def Let_def IsThreadingEnabled_def lab_defs split: if_splits)
  ultimately show ?thesis using step by (auto simp: lab_def)
qed

text \<open>C39: A worker that returns asked the library to decrypt the order of its slot, the whole order with its location and length, with the key and
  vector it was queued with and its progress object. The library answered without an error, no other call of the library was made, and the slot is over.\<close>

theorem work_decrypts_slot:
  assumes "work fw L (Context t) s = Some s'" and "workers_wf n s" and "active s i t c" and "i < n" and "slot s i \<noteq> 0"
  shows "\<exists>w u. WorkOrder c = Some w \<and> thread_index w = i
    \<and> calls s' = calls s @ Mftah (Crypt w (Sha256Key c) (InitializationVector c) (Progress c)) # u \<and> list_all no_mftah u
    \<and> \<not> MFTAH_ERROR L (ret fw (calls s @ [Mftah (Crypt w (Sha256Key c) (InitializationVector c) (Progress c))])) \<and> over s' i"
proof (rule work_result [OF assms(1,3) _ assms(5)])
  show "ctx_wf (slot s i) i c" using assms(2-4) by (auto simp: workers_wf_def slot_wf_def active_def)
qed

theorem work_decrypts_slot_witness:
  "\<exists>s' u. work lab_fw lab_libs 0x5000 (lab 1 (lab_thread\<lparr>Context := 0x5000, Started := True\<rparr>) (Some (lab_ctx 0))) = Some s'
    \<and> calls s' = Mftah (Crypt lab_order (replicate 32 1) (replicate 16 1) None) # u \<and> list_all no_mftah u \<and> over s' 0"
proof -
  let ?t = "lab_thread\<lparr>Context := 0x5000, Started := True\<rparr>" and ?c = "lab_ctx 0"
  let ?s = "lab 1 ?t (Some ?c)"
  have "\<exists>s'. work lab_fw lab_libs (Context ?t) ?s = Some s'"
    by (simp add: work_def mftah_def FinishThread_def RefreshMPs_def put_thread_def service_def Let_def lab_defs)
  then obtain s' where run: "work lab_fw lab_libs (Context ?t) ?s = Some s'" ..
  have "workers_wf 1 ?s" "active ?s 0 ?t ?c" "slot ?s 0 \<noteq> 0"
    by (simp_all add: workers_wf_def slot_wf_def ctx_wf_def active_def slot_def lab_defs)
  from work_decrypts_slot [OF run this(1,2) _ this(3)] show ?thesis using run by (auto simp: lab_defs)
qed

text \<open>If the clone of the work order cannot be allocated, queueing still reports success, but the worker has no order: its slot counts as
  over and waiting passes it by, so its part of the payload is never decrypted.\<close>

theorem SpawnDecryptionWorker_loses_order:
  assumes "SpawnDecryptionWorker fw L K protocol (Some w) key iv s = Some (MFTAH_SUCCESS L, s')"
    and "IsThreadingEnabled s" and "order_length w \<noteq> 0" and "MFTAH_INVALID_PARAMETER K \<noteq> MFTAH_SUCCESS L" and "MFTAH_THREAD_BUSY K \<noteq> MFTAH_SUCCESS L"
    and "ret fw (calls s @ [AllocatePool 80, AllocatePool (work_order_size K)]) = 0"
  shows "over s' (thread_index w) \<and> idle s' (thread_index w) \<and> place s' (thread_index w) = 0"
proof -
  have "queue_worker fw L K w key iv s = Some (MFTAH_SUCCESS L, s')"
    using assms by (auto simp: SpawnDecryptionWorker_def PANIC_def split: if_splits option.splits)
  from queue_worker_queues [OF this refl] assms(6) obtain c t where
    "thread_at s' (slot s (thread_index w)) = Some t" "ctx_at s' (Context t) = Some c" "WorkOrder c = None" "Threads_at s' = Threads_at s"
    by (auto simp: queued_def Let_def)
  then show ?thesis by (auto simp: over_def active_def idle_def place_def slot_def)
qed

theorem SpawnDecryptionWorker_loses_order_witness:
  "\<exists>s'. SpawnDecryptionWorker (lab_fw\<lparr>ret := \<lambda>t. if length t = 2 then 0 else 0x1000\<rparr>) (lab_libs\<lparr>MFTAH_SUCCESS := 1\<rparr>) lab_hooks 1 (Some lab_order) 0x6000 0x6100
    (lab 1 lab_thread None) = Some (1, s') \<and> over s' 0"
proof -
  let ?fw = "lab_fw\<lparr>ret := \<lambda>t. if length t = 2 then 0 else 0x1000\<rparr>" and ?L = "lab_libs\<lparr>MFTAH_SUCCESS := 1\<rparr>" and ?s = "lab 1 lab_thread None"
  have "\<exists>s'. SpawnDecryptionWorker ?fw ?L lab_hooks 1 (Some lab_order) 0x6000 0x6100 ?s = Some (1, s')"
    by (simp add: SpawnDecryptionWorker_def queue_worker_def CreateThread_def AllocateZeroPool_def IsThreadingEnabled_def slot_def put_ctx_def
        put_thread_def service_def Let_def EFI_ERROR_def lab_defs)
  then obtain s' where run: "SpawnDecryptionWorker ?fw ?L lab_hooks 1 (Some lab_order) 0x6000 0x6100 ?s = Some (1, s')" ..
  have len: "work_order_size lab_hooks = 32" "calls ?s = []" by (simp_all add: lab_defs)
  from SpawnDecryptionWorker_loses_order [of ?fw ?L lab_hooks 1 lab_order "0x6000" "0x6100" ?s s'] run
  show ?thesis by (auto simp: IsThreadingEnabled_def lab_defs)
qed

text \<open>When waiting ends, every worker has finished, or else the progress the contexts report has reached the number of bytes queued. The steps
  of the other processors must not take back a thread that has finished, a context or its order; the hooks' own steps never do.\<close>

theorem UefiSpin_returns:
  assumes "UefiSpin fw K others T s = Some s'" and "IsThreadingEnabled s" and "\<And>i s. stays s (others i s)"
  shows "(\<forall>i < MFTAH_MAX_THREAD_COUNT K. over s' i)
    \<or> (\<exists>u P v. spin_pass fw others [0..<MFTAH_MAX_THREAD_COUNT K] True 0 u = Some (False, P, v) \<and> s' = service (Stall 50000) v \<and> T \<le> P)"
proof -
  have "spin_loop fw others (MFTAH_MAX_THREAD_COUNT K) T s = Some s'"
    using assms(1,2) by (simp add: UefiSpin_def PANIC_def split: if_splits)
  then obtain u C P v where p: "spin_pass fw others [0..<MFTAH_MAX_THREAD_COUNT K] True 0 u = Some (C, P, v)"
    "s' = service (Stall 50000) v" "C \<or> T \<le> P"
    using spin_loop_ends by blast
  have "over s' i \<longleftrightarrow> over v i" for i unfolding p(2) by (simp add: over_def active_def service_def slot_def)
  then show ?thesis using p spin_pass_stays [OF assms(3) p(1)] by (cases C) auto
qed

theorem UefiSpin_returns_witness:
  "\<exists>s'. UefiSpin lab_fw lab_hooks (\<lambda>_ s. s) 512 (lab 1 (lab_thread\<lparr>Context := 0x5000, Started := True, Finished := True\<rparr>) (Some (lab_ctx 512))) = Some s'
    \<and> (over s' 0 \<or> (\<exists>u P v. spin_pass lab_fw (\<lambda>_ s. s) [0..<1] True 0 u = Some (False, P, v) \<and> s' = service (Stall 50000) v \<and> 512 \<le> P))"
proof -
  let ?s = "lab 1 (lab_thread\<lparr>Context := 0x5000, Started := True, Finished := True\<rparr>) (Some (lab_ctx 512))"
  have idle: "idle ?s 0" "over ?s 0" "place ?s 0 = 512" by (simp_all add: idle_def over_def active_def place_def slot_def lab_defs)
  have pass: "spin_pass lab_fw (\<lambda>_ s. s) [0..<1] True 0 ?s = Some (True, 512, ?s)"
    using spin_pass_idle [of "[0..<1]" ?s lab_fw True 0] idle by simp
  have run: "UefiSpin lab_fw lab_hooks (\<lambda>_ s. s) 512 ?s = Some (service (Stall 50000) ?s)"
    by (subst UefiSpin_def, subst spin_loop.simps) (use pass in \<open>simp add: Let_def IsThreadingEnabled_def lab_hooks_def lab_def\<close>)
  show ?thesis using UefiSpin_returns [OF run] run by (simp add: IsThreadingEnabled_def lab_hooks_def) (simp add: lab_def)
qed

text \<open>Waiting ends as soon as the reported progress reaches the total, although workers may still be running: then their threads are left
  as they are.\<close>

theorem UefiSpin_leaves_running:
  assumes "IsThreadingEnabled s" and "T \<noteq> 0" and "\<forall>i < MFTAH_MAX_THREAD_COUNT K. idle s i"
    and "T \<le> sum_list (map (place s) [0..<MFTAH_MAX_THREAD_COUNT K])"
  shows "UefiSpin fw K (\<lambda>_ s. s) T s = Some (service (Stall 50000) s)"
  using assms spin_pass_idle [of "[0..<MFTAH_MAX_THREAD_COUNT K]" s fw True 0]
  by (subst UefiSpin_def, subst spin_loop.simps) (auto simp: Let_def dest: leD)

theorem UefiSpin_leaves_running_witness:
  "let s = lab 1 (lab_thread\<lparr>Context := 0x5000, Started := True\<rparr>) (Some (lab_ctx 512))
   in UefiSpin lab_fw lab_hooks (\<lambda>_ s. s) 512 s = Some (service (Stall 50000) s) \<and> \<not> over s 0"
  using UefiSpin_leaves_running [of "lab 1 (lab_thread\<lparr>Context := 0x5000, Started := True\<rparr>) (Some (lab_ctx 512))" 512 lab_hooks lab_fw]
  by (simp add: IsThreadingEnabled_def idle_def place_def over_def active_def slot_def lab_defs)

end
