(* ===== verification/Wrappers.thy ===== *)
theory Wrappers
  imports Libs
begin

text \<open>
  \<open>src/src/boot/mftah_uefi/wrappers.c\<close>: the functions of the firmware under the names the \<open>MFTAH\<close> library knows. Most pass their arguments
  on; \<open>MemMove\<close> is a loop of its own, and a pool is resized by allocating another. Printing is not modelled.
\<close>

section \<open>Pools\<close>

definition MftahUefi__wrapper__AllocateZeroPool :: "firmware \<Rightarrow> u64 \<Rightarrow> u64 \<Rightarrow> 'a uefi_scheme \<Rightarrow> u64 \<times> 'a uefi_scheme" where
  "MftahUefi__wrapper__AllocateZeroPool fw Count Length s = AllocateZeroPool fw (Count * Length) s"

definition MftahUefi__wrapper__AllocatePool :: "firmware \<Rightarrow> u64 \<Rightarrow> 'a uefi_scheme \<Rightarrow> u64 \<times> 'a uefi_scheme" where
  "MftahUefi__wrapper__AllocatePool fw Length s = (let s = service (AllocatePool Length) s in (ret fw (calls s), s))"

definition MftahUefi__wrapper__FreePool :: "u64 \<Rightarrow> 'a uefi_scheme \<Rightarrow> 'a uefi_scheme" where
  "MftahUefi__wrapper__FreePool Pointer s = service (FreePool Pointer) s"

definition MftahUefi__wrapper__ReallocatePool :: "firmware \<Rightarrow> u64 \<Rightarrow> u64 \<Rightarrow> 'a uefi_scheme \<Rightarrow> u64 \<times> 'a uefi_scheme" where
  "MftahUefi__wrapper__ReallocatePool fw At ToSize s =
     (let s = service (AllocatePool ToSize) s; NewPool = ret fw (calls s)
      in if NewPool = 0 then (0, s)
      else
      let s = s\<lparr>ram := CopyMem NewPool At ToSize (ram s)\<rparr>;
          s = service (FreePool At) s
      in (NewPool, s))"

section \<open>Memory\<close>

text \<open>The loop that moves \<open>n\<close> bytes one by one; it leaves the advanced destination.\<close>

primrec move_loop :: "nat \<Rightarrow> u64 \<Rightarrow> u64 \<Rightarrow> memory \<Rightarrow> u64 \<times> memory" where
  "move_loop 0 Destination Source m = (Destination, m)"
| "move_loop (Suc n) Destination Source m =
     (let SourceCopy = m Source in move_loop n (Destination + 1) (Source + 1) (m(Destination := SourceCopy)))"

definition MftahUefi__wrapper__MemMove :: "u64 \<Rightarrow> u64 \<Rightarrow> u64 \<Rightarrow> 'a uefi_scheme \<Rightarrow> u64 \<times> 'a uefi_scheme" where
  "MftahUefi__wrapper__MemMove Destination Source Length s =
     (let (p, m) = move_loop (unat Length) Destination Source (ram s) in (p, s\<lparr>ram := m\<rparr>))"

definition MftahUefi__wrapper__SetMem :: "u64 \<Rightarrow> u32 \<Rightarrow> u64 \<Rightarrow> 'a uefi_scheme \<Rightarrow> u64 \<times> 'a uefi_scheme" where
  "MftahUefi__wrapper__SetMem Destination Value Size s = (0, s\<lparr>ram := SetMem Destination Size (ucast Value) (ram s)\<rparr>)"

definition MftahUefi__wrapper__CopyMem :: "u64 \<Rightarrow> u64 \<Rightarrow> u64 \<Rightarrow> 'a uefi_scheme \<Rightarrow> u64 \<times> 'a uefi_scheme" where
  "MftahUefi__wrapper__CopyMem Destination Source Size s = (0, s\<lparr>ram := CopyMem Destination Source Size (ram s)\<rparr>)"

text \<open>The comparison is the firmware library's; its result, of machine size, is cut to 32 bits.\<close>

definition MftahUefi__wrapper__CompareMem :: "(u64 \<Rightarrow> u64 \<Rightarrow> u64 \<Rightarrow> memory \<Rightarrow> u64) \<Rightarrow> u64 \<Rightarrow> u64 \<Rightarrow> u64 \<Rightarrow> 'a uefi_scheme \<Rightarrow> u32" where
  "MftahUefi__wrapper__CompareMem CompareMem p q Length s = ucast (CompareMem p q Length (ram s))"

section \<open>Moving\<close>

text \<open>Byte \<open>i\<close> that arrives is byte \<open>i\<close> of the source, unless the destination starts \<open>k\<close> bytes into the source: then it is byte \<open>i mod k\<close>.\<close>

definition arrives :: "u64 \<Rightarrow> u64 \<Rightarrow> nat \<Rightarrow> nat" where
  "arrives d s i = (if d = s then i else i mod unat (d - s))"

lemma move_loop_ends: "fst (move_loop n d s m) = d + of_nat n"
  by (induction n arbitrary: d s m) (simp_all add: Let_def algebra_simps)

lemma move_loop_snoc:
  "snd (move_loop (Suc n) d s m) = (snd (move_loop n d s m))(d + of_nat n := snd (move_loop n d s m) (s + of_nat n))"
proof (induction n arbitrary: d s m)
  case (Suc n)
  let ?m = "m(d := m s)"
  have "snd (move_loop (Suc (Suc n)) d s m) = snd (move_loop (Suc n) (d + 1) (s + 1) ?m)" by (subst move_loop.simps(2)) (simp only: Let_def)
  also have "\<dots> = (snd (move_loop n (d + 1) (s + 1) ?m))(d + 1 + of_nat n := snd (move_loop n (d + 1) (s + 1) ?m) (s + 1 + of_nat n))"
    by (rule Suc)
  finally show ?case by (simp add: Let_def add.assoc del: fun_upd_apply)
qed simp

lemma overlap_distance:
  fixes d s :: u64
  assumes "n < 2 ^ 64"
  shows "unat (s + of_nat n - d) < n \<longleftrightarrow> d \<noteq> s \<and> unat (d - s) \<le> n"
    and "d \<noteq> s \<Longrightarrow> unat (d - s) \<le> n \<Longrightarrow> unat (s + of_nat n - d) = n - unat (d - s)"
proof -
  let ?k = "d - s"
  have e: "s + of_nat n - d = of_nat n - ?k" by simp
  have n: "unat (of_nat n :: u64) = n" using assms by (intro unat_of_nat_u64) simp
  have k: "unat ?k < 2 ^ 64" using unsigned_less [of ?k, where ?'a = nat] by simp
  have z: "unat ?k = 0 \<longleftrightarrow> d = s" by (simp add: unat_eq_0)
  have "unat (of_nat n - ?k) = (if unat ?k \<le> n then n - unat ?k else n + 2 ^ 64 - unat ?k)"
    by (simp only: unat_sub_if_size n word_size) simp
  then show "unat (s + of_nat n - d) < n \<longleftrightarrow> d \<noteq> s \<and> unat (d - s) \<le> n"
    and "d \<noteq> s \<Longrightarrow> unat (d - s) \<le> n \<Longrightarrow> unat (s + of_nat n - d) = n - unat (d - s)"
    unfolding e using k z by (auto split: if_splits)
qed

lemma move_loop_result:
  assumes "n \<le> 2 ^ 64"
  shows "snd (move_loop n d s m) x = (if unat (x - d) < n then m (s + of_nat (arrives d s (unat (x - d)))) else m x)"
  using assms
proof (induction n arbitrary: x)
  case (Suc n)
  then have IH: "snd (move_loop n d s m) y = (if unat (y - d) < n then m (s + of_nat (arrives d s (unat (y - d)))) else m y)" for y by simp
  have n: "n < 2 ^ 64" "unat (of_nat n :: u64) = n" using Suc.prems unat_of_nat_u64 [of n] by simp_all
  show ?case
  proof (cases "x = d + of_nat n")
    case True
    have "snd (move_loop (Suc n) d s m) x = snd (move_loop n d s m) (s + of_nat n)" by (simp add: move_loop_snoc True del: move_loop.simps)
    also have "\<dots> = m (s + of_nat (arrives d s n))"
    proof (cases "d \<noteq> s \<and> unat (d - s) \<le> n")
      case True
      then have dist: "unat (s + of_nat n - d) = n - unat (d - s)" "unat (s + of_nat n - d) < n"
        using overlap_distance [OF n(1), where d = d and s = s] by blast+
      show ?thesis using True by (simp only: IH dist(2) if_True) (simp add: dist(1) arrives_def le_mod_geq)
    next
      case False
      then have "\<not> unat (s + of_nat n - d) < n" using overlap_distance(1) [OF n(1), where d = d and s = s] by blast
      moreover have "arrives d s n = n" using False by (auto simp: arrives_def)
      ultimately show ?thesis by (simp only: IH if_False)
    qed
    finally show ?thesis using True n(2) by simp
  next
    case False
    have "unat (x - d) \<noteq> n"
    proof
      assume "unat (x - d) = n"
      then have "x - d = of_nat n" by (metis word_nat_cases word_of_nat_eq_iff unsigned_of_nat of_nat_unat ucast_id)
      then show False using False by (simp add: algebra_simps)
    qed
    then show ?thesis using False by (simp add: move_loop_snoc IH less_Suc_eq del: move_loop.simps)
  qed
qed simp

section \<open>Properties\<close>

text \<open>C40: The byte loop returns the end of the destination, not its start, and changes the destination only. Where the destination starts \<open>k\<close>
  bytes into the source, less than the length, the first \<open>k\<close> bytes come again and again; otherwise every byte arrives, as in a true move.\<close>

theorem MemMove_result:
  "MftahUefi__wrapper__MemMove d p n s = (d + n, s\<lparr>ram := \<lambda>x.
     if in_range d n x then ram s (p + (if d = p \<or> d - p \<ge> n then x - d else of_nat (unat (x - d) mod unat (d - p)))) else ram s x\<rparr>)"
proof -
  have "snd (move_loop (unat n) d p (ram s)) x =
      (if in_range d n x then ram s (p + (if d = p \<or> d - p \<ge> n then x - d else of_nat (unat (x - d) mod unat (d - p)))) else ram s x)" for x
  proof -
    have le: "unat n \<le> 2 ^ 64" using unsigned_less [of n, where ?'a = nat] by simp
    have "arrives d p (unat (x - d)) = unat (x - d)" if "d = p \<or> d - p \<ge> n" "x - d < n"
    proof (cases "d = p")
      case False
      then have "unat (x - d) < unat (d - p)" using that by (metis less_le_trans unat_mono)
      then show ?thesis using False by (simp add: arrives_def)
    qed (simp add: arrives_def)
    then show ?thesis by (simp add: move_loop_result [OF le] in_range_def word_less_nat_alt [symmetric]) (simp add: arrives_def)
  qed
  then have "snd (move_loop (unat n) d p (ram s)) = (\<lambda>x. if in_range d n x
      then ram s (p + (if d = p \<or> d - p \<ge> n then x - d else of_nat (unat (x - d) mod unat (d - p)))) else ram s x)" by (rule ext)
  moreover have "fst (move_loop (unat n) d p (ram s)) = d + n" by (simp add: move_loop_ends)
  ultimately show ?thesis unfolding MftahUefi__wrapper__MemMove_def by (simp only: case_prod_unfold Let_def)
qed

end
