(* ===== verification/Layout.thy ===== *)
theory Layout
  imports Prelude
begin

text \<open>
  The declarations of C structures and where the compiler puts their members: a member goes to the next multiple of its alignment, or directly
  behind its predecessor if the structure is packed, and a structure is padded to a multiple of its own alignment. The theories
  \<open>Multiboot_Layout\<close> and \<open>Loader_Layout\<close> hold the declarations of the headers.
\<close>

section \<open>Types\<close>

text \<open>A scalar of the given size, which is its alignment too; an array, where a flexible array member has no elements; a structure, packed or
  not; a union.\<close>

datatype ctype =
    Scalar nat
  | Arr ctype nat
  | Struct bool "(string \<times> ctype) list"
  | Union "(string \<times> ctype) list"

text \<open>The scalars of the 64-bit target.\<close>

abbreviation "UINT8 \<equiv> Scalar 1"
abbreviation "UINT16 \<equiv> Scalar 2"
abbreviation "UINT32 \<equiv> Scalar 4"
abbreviation "UINT64 \<equiv> Scalar 8"
abbreviation "pointer \<equiv> Scalar 8"

definition align_up :: "nat \<Rightarrow> nat \<Rightarrow> nat" where
  "align_up n a = (n + a - 1) div a * a"

text \<open>The place of the next member, which is given by its size and its alignment.\<close>

definition next_place :: "bool \<Rightarrow> nat \<Rightarrow> nat \<times> nat \<Rightarrow> nat" where
  "next_place packed n x = (if packed then n else align_up n (snd x))"

primrec offsets :: "bool \<Rightarrow> nat \<Rightarrow> (nat \<times> nat) list \<Rightarrow> nat list" where
  "offsets packed n [] = []"
| "offsets packed n (x # xs) = next_place packed n x # offsets packed (next_place packed n x + fst x) xs"

primrec extent :: "bool \<Rightarrow> nat \<Rightarrow> (nat \<times> nat) list \<Rightarrow> nat" where
  "extent packed n [] = n"
| "extent packed n (x # xs) = extent packed (next_place packed n x + fst x) xs"

definition greatest :: "nat list \<Rightarrow> nat \<Rightarrow> nat" where
  "greatest ns n = foldr max ns n"

text \<open>Size and alignment.\<close>

fun shape :: "ctype \<Rightarrow> nat \<times> nat" where
  "shape (Scalar n) = (n, n)"
| "shape (Arr t n) = (n * fst (shape t), snd (shape t))"
| "shape (Struct packed fs) =
     (let xs = map (\<lambda>f. shape (snd f)) fs; a = (if packed then 1 else greatest (map snd xs) 1)
      in (align_up (extent packed 0 xs) a, a))"
| "shape (Union fs) =
     (let xs = map (\<lambda>f. shape (snd f)) fs; a = greatest (map snd xs) 1
      in (align_up (greatest (map fst xs) 0) a, a))"

definition sizeof :: "ctype \<Rightarrow> nat" where "sizeof t = fst (shape t)"
definition alignof :: "ctype \<Rightarrow> nat" where "alignof t = snd (shape t)"

text \<open>A member of a structure or union, and what a path of member names leads to: an offset and a type.\<close>

fun member_at :: "ctype \<Rightarrow> string \<Rightarrow> (nat \<times> ctype) option" where
  "member_at (Struct packed fs) f =
     map_of (zip (map fst fs) (zip (offsets packed 0 (map (\<lambda>f. shape (snd f)) fs)) (map snd fs))) f"
| "member_at (Union fs) f = map_option (Pair 0) (map_of fs f)"
| "member_at _ f = None"

fun path_at :: "ctype \<Rightarrow> string list \<Rightarrow> (nat \<times> ctype) option" where
  "path_at t [] = Some (0, t)"
| "path_at t (f # fs) =
     (case member_at t f of None \<Rightarrow> None
      | Some (n, u) \<Rightarrow> map_option (\<lambda>(k, v). (n + k, v)) (path_at u fs))"

definition offsetof :: "ctype \<Rightarrow> string list \<Rightarrow> nat option" where
  "offsetof t fs = map_option fst (path_at t fs)"

section \<open>What the layout guarantees\<close>

text \<open>Scalars have a size.\<close>

fun proper :: "ctype \<Rightarrow> bool" where
  "proper (Scalar n) \<longleftrightarrow> 0 < n"
| "proper (Arr t n) \<longleftrightarrow> proper t"
| "proper (Struct packed fs) \<longleftrightarrow> (\<forall>f \<in> set fs. proper (snd f))"
| "proper (Union fs) \<longleftrightarrow> (\<forall>f \<in> set fs. proper (snd f))"

lemma align_up_ge: "0 < a \<Longrightarrow> n \<le> align_up n a"
  unfolding align_up_def using div_mult_mod_eq [of "n + a - 1" a] mod_less_divisor [of a "n + a - 1"] by linarith

lemma align_up_dvd [simp]: "a dvd align_up n a"
  by (simp add: align_up_def)

lemma align_up_one [simp]: "align_up n 1 = n" "align_up n (Suc 0) = n"
  by (simp_all add: align_up_def)

lemma greatest_ge: "n \<le> greatest ns n" "k \<in> set ns \<Longrightarrow> k \<le> greatest ns n"
  by (induction ns) (auto simp: greatest_def le_max_iff_disj)

lemma greatest_pos [simp]: "0 < n \<Longrightarrow> 0 < greatest ns n"
  using greatest_ge(1) [of n ns] by simp

lemma alignof_pos: "proper t \<Longrightarrow> 0 < alignof t"
  by (induction t rule: proper.induct)
     (auto simp: alignof_def Let_def)

lemma length_offsets [simp]: "length (offsets packed n xs) = length xs"
  by (induction xs arbitrary: n) simp_all

lemma next_place_ge: "packed \<or> 0 < snd x \<Longrightarrow> n \<le> next_place packed n x"
  by (auto simp: next_place_def align_up_ge)

lemma extent_ge: "packed \<or> (\<forall>x \<in> set xs. 0 < snd x) \<Longrightarrow> n \<le> extent packed n xs"
proof (induction xs arbitrary: n)
  case (Cons x xs)
  then show ?case using next_place_ge [of packed x n] Cons.IH [of "next_place packed n x + fst x"] by fastforce
qed simp

lemma offsets_ge:
  "packed \<or> (\<forall>x \<in> set xs. 0 < snd x) \<Longrightarrow> j < length xs \<Longrightarrow> n \<le> offsets packed n xs ! j"
proof (induction xs arbitrary: n j)
  case (Cons x xs)
  have "n \<le> next_place packed n x" using Cons.prems(1) by (intro next_place_ge) auto
  moreover have "next_place packed n x + fst x \<le> offsets packed (next_place packed n x + fst x) xs ! k" if "k < length xs" for k
    using Cons that by auto
  ultimately show ?case using Cons.prems(2) by (cases j) (auto dest: add_leD1 order_trans)
qed simp

lemma offsets_apart:
  "packed \<or> (\<forall>x \<in> set xs. 0 < snd x) \<Longrightarrow> i < j \<Longrightarrow> j < length xs \<Longrightarrow> offsets packed n xs ! i + fst (xs ! i) \<le> offsets packed n xs ! j"
proof (induction xs arbitrary: n i j)
  case (Cons x xs)
  then obtain k where k: "j = Suc k" "k < length xs" by (cases j) auto
  show ?case
  proof (cases i)
    case 0
    then show ?thesis using Cons.prems(1) k offsets_ge [of packed xs k "next_place packed n x + fst x"] by auto
  next
    case (Suc i')
    then show ?thesis using Cons.prems Cons.IH [of i' k] k by auto
  qed
qed simp

lemma offsets_inside:
  "packed \<or> (\<forall>x \<in> set xs. 0 < snd x) \<Longrightarrow> j < length xs \<Longrightarrow> offsets packed n xs ! j + fst (xs ! j) \<le> extent packed n xs"
proof (induction xs arbitrary: n j)
  case (Cons x xs)
  show ?case
  proof (cases j)
    case 0
    then show ?thesis using Cons.prems(1) extent_ge [of packed xs "next_place packed n x + fst x"] by auto
  next
    case (Suc k)
    then show ?thesis using Cons by auto
  qed
qed simp

lemma offsets_aligned: "j < length xs \<Longrightarrow> snd (xs ! j) dvd offsets False n xs ! j"
  by (induction xs arbitrary: n j) (auto simp: next_place_def nth_Cons' gr0_conv_Suc)

text \<open>The members of a structure lie inside it, one behind the other, and at multiples of their alignments unless it is packed.\<close>

lemma struct_members:
  assumes "proper (Struct packed fs)" and "j < length fs"
  defines "offs \<equiv> offsets packed 0 (map (\<lambda>f. shape (snd f)) fs)"
  shows "i < j \<Longrightarrow> offs ! i + sizeof (snd (fs ! i)) \<le> offs ! j"
    and "offs ! j + sizeof (snd (fs ! j)) \<le> sizeof (Struct packed fs)"
    and "\<not> packed \<Longrightarrow> alignof (snd (fs ! j)) dvd offs ! j"
proof -
  let ?xs = "map (\<lambda>f. shape (snd f)) fs"
  have pos: "\<forall>x \<in> set ?xs. 0 < snd x" using assms(1) alignof_pos by (auto simp: alignof_def)
  show "offs ! i + sizeof (snd (fs ! i)) \<le> offs ! j" if "i < j"
    using offsets_apart [of packed ?xs i j 0] pos that assms(2) by (simp add: offs_def sizeof_def)
  have "offs ! j + sizeof (snd (fs ! j)) \<le> extent packed 0 ?xs"
    using offsets_inside [of packed ?xs j 0] pos assms(2) by (simp add: offs_def sizeof_def)
  also have "\<dots> \<le> sizeof (Struct packed fs)"
    by (auto simp: sizeof_def Let_def intro: align_up_ge)
  finally show "offs ! j + sizeof (snd (fs ! j)) \<le> sizeof (Struct packed fs)" .
  show "alignof (snd (fs ! j)) dvd offs ! j" if "\<not> packed"
    using offsets_aligned [of j ?xs 0] assms(2) that by (simp add: offs_def alignof_def)
qed

section \<open>Numbers in memory\<close>

text \<open>The value of a little-endian number, and the number a path leads to in the object at \<open>p\<close>.\<close>

primrec le_value :: "bytes \<Rightarrow> nat" where
  "le_value [] = 0"
| "le_value (b # bs) = unat b + 256 * le_value bs"

lemma le_value_less: "le_value bs < 256 ^ length bs"
proof (induction bs)
  case (Cons b bs)
  have "unat b < 256" using unsigned_less [of b] by simp
  then show ?case using Cons by simp
qed simp

definition member_value :: "(nat \<Rightarrow> u8) \<Rightarrow> nat \<Rightarrow> ctype \<Rightarrow> string list \<Rightarrow> nat option" where
  "member_value m p t fs = map_option (\<lambda>(n, u). le_value (map (\<lambda>i. m (p + n + i)) [0..<sizeof u])) (path_at t fs)"

text \<open>The bytes a path leads to in an object that is given by its bytes.\<close>

definition member_bytes :: "bytes \<Rightarrow> ctype \<Rightarrow> string list \<Rightarrow> bytes option" where
  "member_bytes bs t fs = map_option (\<lambda>(n, u). take (sizeof u) (drop n bs)) (path_at t fs)"

lemmas layout_simps = sizeof_def alignof_def offsetof_def Let_def greatest_def align_up_def next_place_def

end
