(* ===== verification/Multiboot_Layout.thy ===== *)
theory Multiboot_Layout
  imports Kernel Layout
begin

text \<open>
  The declarations of \<open>src/src/include/kernel/multiboot.h\<close> as layouts, the image of the kernel's Multiboot2 header in memory, and
  what the accessors of \<open>Multiboot\<close> and \<open>Kernel\<close> have to do with them.
\<close>

section \<open>Enumerations\<close>

datatype multiboot_tag_type =
    MB_END | MB_INFO_REQ | MB_ADDR | MB_ENTRY | MB_FLAGS | MB_FRAMEBUFFER | MB_MOD_ALIGN | MB_EFI_BS | MB_I386_ENTRY
  | MB_AMD64_ENTRY | MB_RELOCATABLE

text \<open>The enumerators in the order of the declaration, which is that of their values.\<close>

instantiation multiboot_tag_type :: enum
begin

definition enum_multiboot_tag_type :: "multiboot_tag_type list" where
  "enum_multiboot_tag_type =
     [MB_END, MB_INFO_REQ, MB_ADDR, MB_ENTRY, MB_FLAGS, MB_FRAMEBUFFER, MB_MOD_ALIGN, MB_EFI_BS, MB_I386_ENTRY, MB_AMD64_ENTRY,
      MB_RELOCATABLE]"

definition enum_all_multiboot_tag_type :: "(multiboot_tag_type \<Rightarrow> bool) \<Rightarrow> bool" where
  "enum_all_multiboot_tag_type P \<longleftrightarrow> list_all P (enum_class.enum :: multiboot_tag_type list)"

definition enum_ex_multiboot_tag_type :: "(multiboot_tag_type \<Rightarrow> bool) \<Rightarrow> bool" where
  "enum_ex_multiboot_tag_type P \<longleftrightarrow> list_ex P (enum_class.enum :: multiboot_tag_type list)"

instance
proof
  show univ: "UNIV = set (enum_class.enum :: multiboot_tag_type list)"
    using multiboot_tag_type.exhaust by (auto simp: enum_multiboot_tag_type_def)
  show "distinct (enum_class.enum :: multiboot_tag_type list)" by (simp add: enum_multiboot_tag_type_def)
  fix P :: "multiboot_tag_type \<Rightarrow> bool"
  show "enum_class.enum_all P \<longleftrightarrow> Ball UNIV P" and "enum_class.enum_ex P \<longleftrightarrow> Bex UNIV P"
    by (simp_all add: univ enum_all_multiboot_tag_type_def enum_ex_multiboot_tag_type_def list_all_iff list_ex_iff)
qed

end

instantiation multiboot_info_tag_type :: enum
begin

definition enum_multiboot_info_tag_type :: "multiboot_info_tag_type list" where
  "enum_multiboot_info_tag_type =
     [MBI_END, MBI_CMD_LINE, MBI_LOADER_NAME, MBI_MODULES, MBI_BASIC_MEM, MBI_BIOS_BOOT_DEV, MBI_MEMORY_MAP, MBI_VBE_INFO,
      MBI_FRAMEBUFFER, MBI_ELF_SYMBOLS, MBI_APM, MBI_EFI_ST_32, MBI_EFI_ST_64, MBI_SMBIOS, MBI_ACPI_10, MBI_ACPI_20, MBI_NET,
      MBI_EFI_MEMORY_MAP, MBI_NO_EXIT_BOOT_SVCS, MBI_IMG_HND_32, MBI_IMG_HND_64, MBI_IMG_LOAD_BASE]"

definition enum_all_multiboot_info_tag_type :: "(multiboot_info_tag_type \<Rightarrow> bool) \<Rightarrow> bool" where
  "enum_all_multiboot_info_tag_type P \<longleftrightarrow> list_all P (enum_class.enum :: multiboot_info_tag_type list)"

definition enum_ex_multiboot_info_tag_type :: "(multiboot_info_tag_type \<Rightarrow> bool) \<Rightarrow> bool" where
  "enum_ex_multiboot_info_tag_type P \<longleftrightarrow> list_ex P (enum_class.enum :: multiboot_info_tag_type list)"

instance
proof
  show univ: "UNIV = set (enum_class.enum :: multiboot_info_tag_type list)"
    using multiboot_info_tag_type.exhaust by (auto simp: enum_multiboot_info_tag_type_def)
  show "distinct (enum_class.enum :: multiboot_info_tag_type list)" by (simp add: enum_multiboot_info_tag_type_def)
  fix P :: "multiboot_info_tag_type \<Rightarrow> bool"
  show "enum_class.enum_all P \<longleftrightarrow> Ball UNIV P" and "enum_class.enum_ex P \<longleftrightarrow> Bex UNIV P"
    by (simp_all add: univ enum_all_multiboot_info_tag_type_def enum_ex_multiboot_info_tag_type_def list_all_iff list_ex_iff)
qed

end

text \<open>The value of an enumerator: its place in the declaration, as C numbers them from 0 on.\<close>

definition enum_value :: "'a::enum \<Rightarrow> nat" where
  "enum_value x = length (takeWhile (\<lambda>y. y \<noteq> x) enum_class.enum)"

section \<open>Declarations\<close>

text \<open>The header that a kernel holds, and its tags.\<close>

definition multiboot_header :: ctype where
  "multiboot_header =
     Struct False [(''magic'', UINT32), (''architecture'', UINT32), (''header_length'', UINT32), (''checksum'', UINT32)]"

definition multiboot_tag_header :: ctype where
  "multiboot_tag_header =
     Struct False [(''type'', UINT16), (''flags'', UINT16), (''size'', UINT32)]"

definition multiboot_tag_boolean :: ctype where
  "multiboot_tag_boolean =
     Struct False [(''header'', multiboot_tag_header)]"

definition multiboot_tag_info_request :: ctype where
  "multiboot_tag_info_request =
     Struct False [(''header'', multiboot_tag_header), (''requested_info_tag_types'', Arr UINT32 0)]"

definition multiboot_tag_address :: ctype where
  "multiboot_tag_address =
     Struct False [(''header'', multiboot_tag_header), (''header_phys_addr'', UINT32), (''text_load_phys_addr'', UINT32),
      (''load_end_phys_addr'', UINT32), (''bss_end_phys_addr'', UINT32)]"

definition multiboot_tag_entry :: ctype where
  "multiboot_tag_entry =
     Struct False [(''header'', multiboot_tag_header), (''entry_phys_addr'', UINT32)]"

definition multiboot_tag_flags :: ctype where
  "multiboot_tag_flags =
     Struct False [(''header'', multiboot_tag_header), (''flags'', UINT32)]"

definition multiboot_tag_framebuffer :: ctype where
  "multiboot_tag_framebuffer =
     Struct False [(''header'', multiboot_tag_header), (''width'', UINT32), (''height'', UINT32), (''depth'', UINT32)]"

definition multiboot_tag_relocatable :: ctype where
  "multiboot_tag_relocatable =
     Struct False [(''header'', multiboot_tag_header), (''min_phys_addr'', UINT32), (''max_phys_addr'', UINT32), (''align'', UINT32),
      (''preference'', UINT32)]"

definition multiboot_info_header :: ctype where
  "multiboot_info_header =
     Struct False [(''total_size'', UINT32), (''reserved'', UINT32)]"

definition multiboot_info_tag_header :: ctype where
  "multiboot_info_tag_header =
     Struct False [(''type'', UINT32), (''size'', UINT32)]"

definition multiboot_info_tag_pointer_32 :: ctype where
  "multiboot_info_tag_pointer_32 =
     Struct False [(''header'', multiboot_info_tag_header), (''physical_address'', UINT32)]"

definition multiboot_info_tag_pointer_64 :: ctype where
  "multiboot_info_tag_pointer_64 =
     Struct False [(''header'', multiboot_info_tag_header), (''physical_address'', UINT64)]"

definition multiboot_info_tag_boolean :: ctype where
  "multiboot_info_tag_boolean =
     Struct False [(''header'', multiboot_info_tag_header)]"

definition multiboot_info_tag_cmdline :: ctype where
  "multiboot_info_tag_cmdline =
     Struct False [(''header'', multiboot_info_tag_header), (''command_line_string_data'', Arr UINT8 0)]"

definition multiboot_info_tag_loader_name :: ctype where
  "multiboot_info_tag_loader_name =
     Struct False [(''Header'', multiboot_info_tag_header), (''BootLoaderNameStringData'', Arr UINT8 0)]"

definition MultibootInfoTagModule :: ctype where
  "MultibootInfoTagModule =
     Struct False [(''Header'', multiboot_info_tag_header), (''ModulePhysAddrStart'', UINT32), (''ModulePhysAddrEnd'', UINT32),
      (''ModuleStringData'', Arr UINT8 0)]"

definition MultibootInfoTagBasicMemoryInfo :: ctype where
  "MultibootInfoTagBasicMemoryInfo =
     Struct False [(''Header'', multiboot_info_tag_header), (''MemoryLower'', UINT32), (''MemoryUpper'', UINT32)]"

definition MultibootInfoTagBiosBootDevice :: ctype where
  "MultibootInfoTagBiosBootDevice =
     Struct False [(''Header'', multiboot_info_tag_header), (''BiosDeviceNumber'', UINT32), (''Parition'', UINT32),
      (''SubPartition'', UINT32)]"

definition multiboot_memory_map_entry :: ctype where
  "multiboot_memory_map_entry =
     Struct False [(''Base'', UINT64), (''Length'', UINT64), (''Type'', UINT32), (''Reserved'', UINT32)]"

definition multiboot_info_tag_memory_map :: ctype where
  "multiboot_info_tag_memory_map =
     Struct False [(''Header'', multiboot_info_tag_header), (''EntrySize'', UINT32), (''EntryVersion'', UINT32)]"

definition MultibootInfoTagVbeInfo :: ctype where
  "MultibootInfoTagVbeInfo =
     Struct False [(''Header'', multiboot_info_tag_header), (''VbeMode'', UINT16), (''VbeIfaceSegment'', UINT16),
      (''VbeIfaceOffset'', UINT16), (''VbeIfaceLength'', UINT16), (''VbeControlInfo'', Arr UINT8 512), (''VbeModeInfo'', Arr UINT8 256)]"

definition MultibootColor :: ctype where
  "MultibootColor =
     Struct False [(''Red'', UINT8), (''Green'', UINT8), (''Blue'', UINT8)]"

definition multiboot_info_tag_framebuffer :: ctype where
  "multiboot_info_tag_framebuffer = Struct False
     [(''Header'', multiboot_info_tag_header),
      (''FramebufferPhysAddr'', UINT64), (''Pitch'', UINT32), (''Width'', UINT32), (''Height'', UINT32), (''BitsPerPixel'', UINT8),
      (''Type'', UINT8), (''Reserved'', UINT16),
      ('''', Union
        [('''', Struct False [(''NumberOfColors'', UINT32), (''Colors'', Arr MultibootColor 0)]),
         ('''', Struct False
           [(''RedFieldPosition'', UINT8), (''RedMaskSize'', UINT8),
            (''GreenFieldPosition'', UINT8), (''GreenMaskSize'', UINT8), (''BlueFieldPosition'', UINT8), (''BlueMaskSize'', UINT8)])])]"

definition MultibootInfoTagElfSymbols :: ctype where
  "MultibootInfoTagElfSymbols =
     Struct False [(''Header'', multiboot_info_tag_header), (''NumberOfSections'', UINT16), (''EntrySize'', UINT16),
      (''SectionHeaderIndex'', UINT16), (''Reserved'', UINT16), (''SectionHeaders'', Arr UINT8 0)]"

definition MultibootInfoTagApm :: ctype where
  "MultibootInfoTagApm =
     Struct False [(''Header'', multiboot_info_tag_header), (''Version'', UINT16), (''CodeSegment'', UINT16), (''Offset'', UINT32),
      (''CodeSegment16'', UINT16), (''DataSegment16'', UINT16), (''Flags'', UINT16), (''CodeSegmentLength'', UINT16),
      (''CodeSegment16Length'', UINT16), (''DataSegment16Length'', UINT16)]"

definition MultibootInfoTagSmbios :: ctype where
  "MultibootInfoTagSmbios =
     Struct False [(''Header'', multiboot_info_tag_header), (''Major'', UINT8), (''Minor'', UINT8), (''Reserved'', Arr UINT8 6),
      (''Tables'', Arr UINT8 0)]"

definition MultibootInfoTagAcpi10 :: ctype where
  "MultibootInfoTagAcpi10 =
     Struct False [(''Header'', multiboot_info_tag_header), (''Rsdp10'', Arr UINT8 0)]"

definition MultibootInfoTagAcpi20 :: ctype where
  "MultibootInfoTagAcpi20 =
     Struct False [(''Header'', multiboot_info_tag_header), (''Rsdp20'', Arr UINT8 0)]"

definition MultibootInfoTagNetwork :: ctype where
  "MultibootInfoTagNetwork =
     Struct False [(''Header'', multiboot_info_tag_header), (''DhcpAck'', Arr UINT8 0)]"

definition multiboot_info_tag_efi_memory_map :: ctype where
  "multiboot_info_tag_efi_memory_map =
     Struct False [(''Header'', multiboot_info_tag_header), (''DescriptorSize'', UINT32), (''DescriptorVersion'', UINT32),
      (''EfiMemoryMap'', Arr UINT8 0)]"

text \<open>All of them.\<close>

definition multiboot_types :: "ctype list" where
  "multiboot_types =
     [multiboot_header, multiboot_tag_header, multiboot_tag_boolean, multiboot_tag_info_request, multiboot_tag_address,
      multiboot_tag_entry, multiboot_tag_flags, multiboot_tag_framebuffer, multiboot_tag_relocatable, multiboot_info_header,
      multiboot_info_tag_header, multiboot_info_tag_pointer_32, multiboot_info_tag_pointer_64, multiboot_info_tag_boolean,
      multiboot_info_tag_cmdline, multiboot_info_tag_loader_name, MultibootInfoTagModule, MultibootInfoTagBasicMemoryInfo,
      MultibootInfoTagBiosBootDevice, multiboot_memory_map_entry, multiboot_info_tag_memory_map, MultibootInfoTagVbeInfo,
      MultibootColor, multiboot_info_tag_framebuffer, MultibootInfoTagElfSymbols, MultibootInfoTagApm, MultibootInfoTagSmbios,
      MultibootInfoTagAcpi10, MultibootInfoTagAcpi20, MultibootInfoTagNetwork, multiboot_info_tag_efi_memory_map]"

lemmas multiboot_defs =
  multiboot_header_def multiboot_tag_header_def multiboot_tag_boolean_def multiboot_tag_info_request_def multiboot_tag_address_def
  multiboot_tag_entry_def multiboot_tag_flags_def multiboot_tag_framebuffer_def multiboot_tag_relocatable_def
  multiboot_info_header_def multiboot_info_tag_header_def multiboot_info_tag_pointer_32_def multiboot_info_tag_pointer_64_def
  multiboot_info_tag_boolean_def multiboot_info_tag_cmdline_def multiboot_info_tag_loader_name_def MultibootInfoTagModule_def
  MultibootInfoTagBasicMemoryInfo_def MultibootInfoTagBiosBootDevice_def multiboot_memory_map_entry_def
  multiboot_info_tag_memory_map_def MultibootInfoTagVbeInfo_def MultibootColor_def multiboot_info_tag_framebuffer_def
  MultibootInfoTagElfSymbols_def MultibootInfoTagApm_def MultibootInfoTagSmbios_def MultibootInfoTagAcpi10_def
  MultibootInfoTagAcpi20_def MultibootInfoTagNetwork_def multiboot_info_tag_efi_memory_map_def

text \<open>The header in \<open>K/core/main.c\<close>, declared under \<open>pack(1)\<close>.\<close>

definition crows_multiboot2_header_type :: ctype where
  "crows_multiboot2_header_type =
     Struct True [(''header'', multiboot_header), (''requests_header'', multiboot_tag_header), (''requested_info_tag_types'', Arr UINT32 5)]"

text \<open>The constant the size of the information block is compared with.\<close>

definition expected_minimum_multiboot_info_size :: nat where
  "expected_minimum_multiboot_info_size =
     sizeof multiboot_info_header + sizeof multiboot_info_tag_cmdline + sizeof multiboot_info_tag_loader_name
     + sizeof multiboot_info_tag_framebuffer + sizeof multiboot_info_tag_pointer_64 + sizeof multiboot_info_tag_efi_memory_map"

section \<open>Numbers\<close>

lemma unat_of_nat_u32: "n < 2 ^ 32 \<Longrightarrow> unat (of_nat n :: u32) = n"
  by (simp add: unat_of_nat)

lemma le_value_append: "le_value (xs @ ys) = le_value xs + 256 ^ length xs * le_value ys"
  by (induction xs) (simp_all add: algebra_simps)

lemma upt_bytes: "[0..<4] = [0, 1, 2, 3 :: nat]" "[0..<8] = [0, 1, 2, 3, 4, 5, 6, 7 :: nat]" "[0..<2] = [0, 1 :: nat]"
  by (simp_all add: upt_rec)

text \<open>The words the kernel reads are the values of the bytes in memory.\<close>

lemma rd32_value: "unat (rd32 m p) = le_value (map (\<lambda>i. m (p + i)) [0..<4])"
proof -
  let ?a = "\<lambda>i. push_bit (8 * i) (ucast (m (p + i))) :: u32" and ?v = "le_value (map (\<lambda>i. m (p + i)) [0..<4])"
  have less: "bit (m q) n \<Longrightarrow> n < 8" for q n using bit_imp_le_length [of "m q" n] by simp
  have "(?a 0 OR ?a 1) AND ?a 2 = 0" and "(?a 0 OR ?a 1 OR ?a 2) AND ?a 3 = 0" and "?a 0 AND ?a 1 = 0"
    by (auto simp: bit_eq_iff bit_simps dest: less)
  then have "rd32 m p = ?a 0 + ?a 1 + ?a 2 + ?a 3"
    by (simp add: rd32_def disjunctive_add_eq_or or.assoc)
  also have "\<dots> = of_nat ?v"
    by (simp add: upt_bytes push_bit_eq_mult algebra_simps)
  finally have "rd32 m p = of_nat ?v" .
  moreover have "?v < 2 ^ 32" using le_value_less [of "map (\<lambda>i. m (p + i)) [0..<4]"] by simp
  ultimately show ?thesis by (simp only: unat_of_nat_u32)
qed

lemma rd64_value: "unat (rd64 m p) = le_value (map (\<lambda>i. m (p + i)) [0..<8])"
proof -
  let ?a = "ucast (rd32 m p) :: u64" and ?b = "push_bit 32 (ucast (rd32 m (p + 4))) :: u64" and ?v = "le_value (map (\<lambda>i. m (p + i)) [0..<8])"
  have less: "bit (rd32 m q) n \<Longrightarrow> n < 32" for q n using bit_imp_le_length [of "rd32 m q" n] by simp
  have "?a AND ?b = 0" by (auto simp: bit_eq_iff bit_simps dest: less)
  then have "rd64 m p = ?a + ?b" by (simp add: rd64_def disjunctive_add_eq_or)
  also have "\<dots> = of_nat (unat (rd32 m p) + 2 ^ 32 * unat (rd32 m (p + 4)))"
    by (simp add: push_bit_eq_mult)
  also have "unat (rd32 m p) + 2 ^ 32 * unat (rd32 m (p + 4)) = ?v"
    by (simp add: rd32_value upt_bytes add.assoc)
  finally have "rd64 m p = of_nat ?v" .
  moreover have "?v < 2 ^ 64" using le_value_less [of "map (\<lambda>i. m (p + i)) [0..<8]"] by simp
  ultimately show ?thesis by (simp only: unat_of_nat_u64)
qed

lemma written_bytes:
  "n + k \<le> length xs \<Longrightarrow> map (\<lambda>i. write_bytes p xs m (p + n + i)) [0..<k] = take k (drop n xs)"
  by (rule nth_equalityI) (simp_all add: write_bytes_def add.assoc)

text \<open>What is read from bytes that were written at \<open>p\<close>.\<close>

lemma member_value_written:
  assumes "path_at t fs = Some (n, u)" and "n + sizeof u \<le> length xs"
  shows "member_value (write_bytes p xs m) p t fs = Some (le_value (take (sizeof u) (drop n xs)))"
  by (simp add: member_value_def assms(1) written_bytes [OF assms(2)])

section \<open>The header as a loader sees it\<close>

definition header_image :: "crows_multiboot2_header \<Rightarrow> bytes" where
  "header_image h =
     le32 (magic h) @ le32 (architecture h) @ le32 (header_length h) @ le32 (checksum h)
     @ le16 (req_type h) @ le16 (req_flags h) @ le32 (req_size h) @ concat (map le32 (requested_info_tag_types h))"

text \<open>A structure whose members follow one another without gaps, as a packed one would have them.\<close>

fun unpadded :: "ctype \<Rightarrow> bool" where
  "unpadded (Struct packed fs) \<longleftrightarrow> (let xs = map (\<lambda>f. shape (snd f)) fs in offsets packed 0 xs = offsets True 0 xs)"
| "unpadded t \<longleftrightarrow> True"

section \<open>Properties\<close>

text \<open>The codes the tag search compares are the values of the enumeration, and the request in the header is of the type \<open>MB_INFO_REQ\<close>.\<close>

theorem tag_code_value: "unat (tag_code t) = enum_value t \<and> unat (req_type multiboot2_header) = enum_value MB_INFO_REQ"
  by (cases t) (simp_all add: enum_value_def enum_multiboot_info_tag_type_def enum_multiboot_tag_type_def multiboot2_header_def)

text \<open>The structures are not declared packed, but the format has no gaps between fields: the compiler puts none between the members either.\<close>

theorem multiboot_types_unpadded: "list_all (\<lambda>t. proper t \<and> unpadded t) multiboot_types"
  by (simp add: multiboot_types_def multiboot_defs layout_simps)

text \<open>What the kernel reads are the members its source names.\<close>

theorem kernel_reads_members:
  "member_value m p multiboot_info_header [''total_size''] = Some (unat (rd32 m p))
   \<and> member_value m p multiboot_info_tag_header [''type''] = Some (unat (tag_type m p))
   \<and> member_value m p multiboot_info_tag_header [''size''] = Some (unat (tag_size m p))
   \<and> member_value m p multiboot_info_tag_memory_map [''Header'', ''size''] = Some (unat (tag_size m p))
   \<and> member_value m p multiboot_info_tag_memory_map [''EntrySize''] = Some (unat (EntrySize m p))
   \<and> member_value m p multiboot_memory_map_entry [''Base''] = Some (unat (entry_Base m p))
   \<and> member_value m p multiboot_memory_map_entry [''Length''] = Some (unat (entry_Length m p))
   \<and> member_value m p multiboot_memory_map_entry [''Type''] = Some (unat (entry_Type m p))
   \<and> sizeof multiboot_info_header = 8 \<and> sizeof multiboot_info_tag_memory_map = 16 \<and> offsetof multiboot_memory_map_entry [''Type''] = Some 16
   \<and> expected_minimum_multiboot_info_size = 96"
  by (simp add: member_value_def multiboot_defs layout_simps expected_minimum_multiboot_info_size_def tag_type_def tag_size_def EntrySize_def
      entry_Base_def entry_Length_def entry_Type_def rd32_value rd64_value)

text \<open>Marking an entry as reserved changes its type and none of its other members.\<close>

theorem reserving_entry:
  "member_value (wr32 (p + 16) 2 m) p multiboot_memory_map_entry [f] =
     (if f = ''Type'' then Some 2 else member_value m p multiboot_memory_map_entry [f])"
  by (simp add: member_value_def multiboot_defs layout_simps wr32_def upt_bytes)

lemma header_image_bytes:
  "header_image multiboot2_header =
     [0xd6, 0x50, 0x52, 0xe8, 0, 0, 0, 0, 44, 0, 0, 0, 0xfe, 0xae, 0xad, 0x17, 1, 0, 0, 0, 28, 0, 0, 0,
      1, 0, 0, 0, 2, 0, 0, 0, 8, 0, 0, 0, 6, 0, 0, 0, 12, 0, 0, 0]"
  by (simp add: header_image_def multiboot2_header_def le32_def be32_def le16_def MULTIBOOT_MAGIC_HEADER_def)

lemma header_paths:
  "path_at crows_multiboot2_header_type [''header'', ''magic''] = Some (0, UINT32)"
  "path_at crows_multiboot2_header_type [''header'', ''architecture''] = Some (4, UINT32)"
  "path_at crows_multiboot2_header_type [''header'', ''header_length''] = Some (8, UINT32)"
  "path_at crows_multiboot2_header_type [''header'', ''checksum''] = Some (12, UINT32)"
  "path_at crows_multiboot2_header_type [''requests_header'', ''type''] = Some (16, UINT16)"
  "path_at crows_multiboot2_header_type [''requests_header'', ''size''] = Some (20, UINT32)"
  "sizeof crows_multiboot2_header_type = 44" "sizeof multiboot_header = 16" "sizeof multiboot_tag_header = 8" "sizeof (Scalar k) = k"
  by (simp_all add: crows_multiboot2_header_type_def multiboot_defs layout_simps)

lemma rd32_written:
  assumes "n + 4 \<le> length xs"
  shows "unat (rd32 (write_bytes p xs m) (p + n)) = le_value (take 4 (drop n xs))"
  using written_bytes [OF assms, of p m] by (simp only: rd32_value)

text \<open>C25: The header in the kernel's image has the size it states, its first four words sum to 0 modulo 2^32, and it makes one request, for the five
  information tags, in a tag of the size it states.\<close>

theorem multiboot2_header_image:
  "let img = header_image multiboot2_header; v = member_value (write_bytes p img m) p crows_multiboot2_header_type
   in length img = sizeof crows_multiboot2_header_type
    \<and> v [''header'', ''magic''] = Some 0xe85250d6 \<and> v [''header'', ''architecture''] = Some 0
    \<and> v [''header'', ''header_length''] = Some (length img)
    \<and> (\<exists>c. v [''header'', ''checksum''] = Some c \<and> (0xe85250d6 + 0 + length img + c) mod 2 ^ 32 = 0)
    \<and> v [''requests_header'', ''type''] = Some (enum_value MB_INFO_REQ)
    \<and> v [''requests_header'', ''size''] = Some (sizeof multiboot_tag_header + 5 * sizeof UINT32)
    \<and> map (\<lambda>i. unat (rd32 (write_bytes p img m) (p + sizeof multiboot_header + sizeof multiboot_tag_header + 4 * i))) [0..<5]
      = map enum_value [MBI_CMD_LINE, MBI_LOADER_NAME, MBI_FRAMEBUFFER, MBI_MEMORY_MAP, MBI_EFI_ST_64]"
proof -
  have words: "map (\<lambda>i. unat (rd32 (write_bytes p (header_image multiboot2_header) m) (p + (24 + 4 * i)))) [0..<5] = [1, 2, 8, 6, 12]"
    by (simp only: header_image_bytes) (simp add: upt_rec rd32_written del: add_Suc_right)
  show ?thesis unfolding Let_def using words
    by (simp add: header_image_bytes header_paths member_value_written [OF header_paths(1)] member_value_written [OF header_paths(2)]
        member_value_written [OF header_paths(3)] member_value_written [OF header_paths(4)] member_value_written [OF header_paths(5)]
        member_value_written [OF header_paths(6)] enum_value_def enum_multiboot_tag_type_def enum_multiboot_info_tag_type_def add.assoc)
qed

end
