(* ===== verification/Loader_Layout.thy ===== *)
theory Loader_Layout
  imports Decryption Sha256 Aes Layout
begin

text \<open>
  The structures of the boot loader's headers (\<open>drivers/acpi.h\<close>, \<open>drivers/ramdisk.h\<close>, \<open>drivers/threading.h\<close>, \<open>core/mftah_uefi.h\<close>,
  \<open>crypto/sha256.h\<close>, \<open>crypto/aes.h\<close> below \<open>src/src/include/boot/mftah_uefi\<close>) as layouts, and what the bytes the loader builds have to do
  with them. Types that the headers take from \<open>gnu-efi\<close> are arguments.
\<close>

section \<open>ACPI tables\<close>

definition EFI_ACPI_DESCRIPTION_HEADER :: ctype where
  "EFI_ACPI_DESCRIPTION_HEADER =
     Struct True [(''Signature'', UINT32), (''Length'', UINT32), (''Revision'', UINT8), (''Checksum'', UINT8), (''OemId'', Arr UINT8 6),
      (''OemTableId'', UINT64), (''OemRevision'', UINT32), (''CreatorId'', UINT32), (''CreatorRevision'', UINT32)]"

definition EFI_ACPI_6_4_NVDIMM_FIRMWARE_INTERFACE_TABLE :: ctype where
  "EFI_ACPI_6_4_NVDIMM_FIRMWARE_INTERFACE_TABLE = Struct True [(''Header'', EFI_ACPI_DESCRIPTION_HEADER), (''Reserved'', UINT32)]"

definition EFI_ACPI_6_4_NFIT_SYSTEM_PHYSICAL_ADDRESS_RANGE_STRUCTURE :: "ctype \<Rightarrow> ctype" where
  "EFI_ACPI_6_4_NFIT_SYSTEM_PHYSICAL_ADDRESS_RANGE_STRUCTURE EFI_GUID =
     Struct True [(''Type'', UINT16), (''Length'', UINT16), (''SPARangeStructureIndex'', UINT16), (''Flags'', UINT16),
      (''Reserved_8'', UINT32), (''ProximityDomain'', UINT32), (''AddressRangeTypeGUID'', EFI_GUID),
      (''SystemPhysicalAddressRangeBase'', UINT64), (''SystemPhysicalAddressRangeLength'', UINT64),
      (''AddressRangeMemoryMappingAttribute'', UINT64)]"

definition EFI_ACPI_TABLE_PROTOCOL :: ctype where
  "EFI_ACPI_TABLE_PROTOCOL = Struct False [(''InstallAcpiTable'', pointer), (''UninstallAcpiTable'', pointer)]"

section \<open>The RAM disk driver\<close>

definition EFI_RAM_DISK_PROTOCOL :: ctype where
  "EFI_RAM_DISK_PROTOCOL = Struct False [(''Register'', pointer), (''Unregister'', pointer)]"

definition MEDIA_RAMDISK_DEVICE_PATH :: "ctype \<Rightarrow> ctype \<Rightarrow> ctype" where
  "MEDIA_RAMDISK_DEVICE_PATH EFI_DEVICE_PATH_PROTOCOL EFI_GUID =
     Struct True [(''Header'', EFI_DEVICE_PATH_PROTOCOL), (''StartingAddr'', Arr UINT32 2), (''EndingAddr'', Arr UINT32 2),
      (''TypeGuid'', EFI_GUID), (''Instance'', UINT16)]"

definition RAMDISK_PRIVATE_DATA_type :: "ctype \<Rightarrow> ctype \<Rightarrow> ctype \<Rightarrow> ctype \<Rightarrow> ctype" where
  "RAMDISK_PRIVATE_DATA_type EFI_BLOCK_IO_PROTOCOL EFI_BLOCK_IO2_PROTOCOL EFI_BLOCK_IO_MEDIA EFI_GUID =
     Struct True [(''Signature'', UINT64), (''Handle'', pointer), (''BlockIo'', EFI_BLOCK_IO_PROTOCOL),
      (''BlockIo2'', EFI_BLOCK_IO2_PROTOCOL), (''Media'', EFI_BLOCK_IO_MEDIA), (''DevicePath'', pointer), (''StartingAddr'', UINT64),
      (''Size'', UINT64), (''TypeGuid'', EFI_GUID), (''InstanceNumber'', UINT16)]"

section \<open>Threads and payloads\<close>

abbreviation "BOOLEAN \<equiv> Scalar 1"

definition MFTAH_SYSTEM_MP_type :: ctype where
  "MFTAH_SYSTEM_MP_type =
     Struct False [(''ProcessorNumber'', UINT64), (''IsBSP'', BOOLEAN), (''IsEnabled'', BOOLEAN), (''IsHealthy'', BOOLEAN),
      (''IsWorking'', BOOLEAN)]"

definition MFTAH_SYSTEM_MP_CTX :: ctype where
  "MFTAH_SYSTEM_MP_CTX = Struct False [(''BspProcessorNumber'', UINT64), (''MpCount'', UINT64), (''MpList'', pointer)]"

definition PAYLOAD_type :: ctype where
  "PAYLOAD_type =
     Struct True [(''Payload'', pointer), (''FromMultiSelect'', BOOLEAN), (''Name'', pointer), (''VolumeHandle'', pointer),
      (''SharedMutex'', UINT8)]"

definition MFTAH_THREAD_type :: ctype where
  "MFTAH_THREAD_type =
     Struct False [(''AssignedProcessorNumber'', UINT64), (''CompletionEvent'', pointer), (''Started'', BOOLEAN), (''Finished'', BOOLEAN),
      (''ExitStatus'', UINT64), (''Method'', pointer), (''Context'', pointer)]"

definition DECRYPT_THREAD_CTX_type :: ctype where
  "DECRYPT_THREAD_CTX_type =
     Struct False [(''Thread'', pointer), (''CurrentPlace'', UINT64), (''WorkOrder'', pointer), (''Progress'', pointer),
      (''Sha256Key'', Arr UINT8 32), (''InitializationVector'', Arr UINT8 16)]"

section \<open>Hash and cipher contexts\<close>

definition Sha_256_type :: ctype where
  "Sha_256_type =
     Struct False [(''hash'', pointer), (''chunk'', Arr UINT8 64), (''chunk_pos'', pointer), (''space_left'', UINT64), (''total_len'', UINT64),
      (''h'', Arr UINT32 8)]"

definition AES_ctx_type :: ctype where
  "AES_ctx_type = Struct False [(''RoundKey'', Arr UINT8 240), (''Iv'', Arr UINT8 16)]"

lemmas loader_type_defs =
  EFI_ACPI_DESCRIPTION_HEADER_def EFI_ACPI_6_4_NVDIMM_FIRMWARE_INTERFACE_TABLE_def
  EFI_ACPI_6_4_NFIT_SYSTEM_PHYSICAL_ADDRESS_RANGE_STRUCTURE_def EFI_ACPI_TABLE_PROTOCOL_def EFI_RAM_DISK_PROTOCOL_def
  MEDIA_RAMDISK_DEVICE_PATH_def RAMDISK_PRIVATE_DATA_type_def MFTAH_SYSTEM_MP_type_def MFTAH_SYSTEM_MP_CTX_def PAYLOAD_type_def
  MFTAH_THREAD_type_def DECRYPT_THREAD_CTX_type_def Sha_256_type_def AES_ctx_type_def

section \<open>Sizes\<close>

text \<open>The sizes the loader allocates its objects with, and the distance of the threads in their array.\<close>

lemma object_sizes:
  "sizeof DECRYPT_THREAD_CTX_type = 80" "offsetof DECRYPT_THREAD_CTX_type [''CurrentPlace''] = Some 8" "sizeof MFTAH_THREAD_type = 48"
  "sizeof MFTAH_SYSTEM_MP_type = 16" "sizeof MFTAH_SYSTEM_MP_CTX = 24" "sizeof PAYLOAD_type = 26" "sizeof Sha_256_type = 128"
  "sizeof AES_ctx_type = 256"
  by (simp_all add: loader_type_defs layout_simps)

lemma slot_distance: "slot s (Suc i) = slot s i + of_nat (sizeof MFTAH_THREAD_type)"
  by (simp add: slot_def object_sizes algebra_simps)

section \<open>Properties\<close>

text \<open>C16: The NFIT is laid out as its declarations say: a table of 40 bytes and behind it one range structure, which states its own size and
  describes the disk.\<close>

theorem nfit_layout:
  assumes "sizeof EFI_GUID = 16" and "length (TypeGuid P) = 16"
  shows "let t = EFI_ACPI_6_4_NVDIMM_FIRMWARE_INTERFACE_TABLE; r = EFI_ACPI_6_4_NFIT_SYSTEM_PHYSICAL_ADDRESS_RANGE_STRUCTURE EFI_GUID;
      v = member_bytes (nfit_bytes date P c) t; w = member_bytes (drop (sizeof t) (nfit_bytes date P c)) r
    in length (nfit_bytes date P c) = sizeof t + sizeof r
     \<and> v [''Header'', ''Signature''] = Some (map of_char ''NFIT'') \<and> v [''Header'', ''Length''] = Some (le32 (of_nat (sizeof t + sizeof r)))
     \<and> v [''Header'', ''Checksum''] = Some [c] \<and> v [''Header'', ''OemId''] = Some (map of_char ''SOLS  '')
     \<and> v [''Header'', ''OemTableId''] = Some (map of_char ''MFTAHEFI'') \<and> v [''Header'', ''OemRevision''] = Some (le32 date)
     \<and> v [''Header'', ''CreatorId''] = Some (map of_char ''XMIT'')
     \<and> w [''Type''] = Some (le16 0) \<and> w [''Length''] = Some (le16 (of_nat (sizeof r))) \<and> w [''AddressRangeTypeGUID''] = Some (TypeGuid P)
     \<and> w [''SystemPhysicalAddressRangeBase''] = Some (le64 (StartingAddr P))
     \<and> w [''SystemPhysicalAddressRangeLength''] = Some (le64 (Size P))"
  using assms by (simp add: member_bytes_def nfit_bytes_def loader_type_defs layout_simps)

theorem nfit_layout_witness:
  "member_bytes (drop 40 (nfit_bytes 7 (mRamDiskPrivateDataTemplate\<lparr>StartingAddr := 0x1000, TypeGuid := replicate 16 7\<rparr>) 9))
     (EFI_ACPI_6_4_NFIT_SYSTEM_PHYSICAL_ADDRESS_RANGE_STRUCTURE (Struct False [(''Data1'', UINT32), (''Data'', Arr UINT8 12)]))
     [''SystemPhysicalAddressRangeBase''] = Some [0, 0x10, 0, 0, 0, 0, 0, 0]"
proof -
  have "sizeof EFI_ACPI_6_4_NVDIMM_FIRMWARE_INTERFACE_TABLE = 40" by (simp add: loader_type_defs layout_simps)
  moreover have "sizeof (Struct False [(''Data1'', UINT32), (''Data'', Arr UINT8 12)]) = 16" by (simp add: layout_simps)
  moreover have "le64 0x1000 = [0, 0x10, 0, 0, 0, 0, 0, 0]" by (simp add: le64_def be64_def upt_rec)
  ultimately show ?thesis
    using nfit_layout [of "Struct False [(''Data1'', UINT32), (''Data'', Arr UINT8 12)]"
        "mRamDiskPrivateDataTemplate\<lparr>StartingAddr := 0x1000, TypeGuid := replicate 16 7\<rparr>" 7 9]
    by (simp add: Let_def)
qed

text \<open>The device path node of a disk is one node of the size its header states, and holds the first and the last address of the disk and its
  type.\<close>

theorem device_node_layout:
  assumes "sizeof EFI_DEVICE_PATH_PROTOCOL = 4" and "sizeof EFI_GUID = 16" and "length (TypeGuid P) = 16"
  shows "let t = MEDIA_RAMDISK_DEVICE_PATH EFI_DEVICE_PATH_PROTOCOL EFI_GUID; n = RamDiskInitDeviceNode P mRamDiskDeviceNodeTemplate;
      v = member_bytes n t
    in length n = sizeof t \<and> v [''Header''] = Some ([4, 9] @ le16 (of_nat (sizeof t))) \<and> v [''StartingAddr''] = Some (le64 (StartingAddr P))
     \<and> v [''EndingAddr''] = Some (le64 (StartingAddr P + Size P - 1)) \<and> v [''TypeGuid''] = Some (TypeGuid P)
     \<and> v [''Instance''] = Some (le16 (InstanceNumber P))"
proof -
  have "RamDiskInitDeviceNode P mRamDiskDeviceNodeTemplate =
      [4, 9, 38, 0] @ le64 (StartingAddr P) @ le64 (StartingAddr P + Size P - 1) @ TypeGuid P @ le16 (InstanceNumber P)"
    using assms(3) by (simp add: RamDiskInitDeviceNode_def memcpy_at_def mRamDiskDeviceNodeTemplate_def)
  then show ?thesis
    using assms by (simp add: member_bytes_def loader_type_defs layout_simps le16_def)
qed

theorem device_node_layout_witness:
  "member_bytes (RamDiskInitDeviceNode (mRamDiskPrivateDataTemplate\<lparr>StartingAddr := 0x1000, Size := 0x200, TypeGuid := replicate 16 7\<rparr>)
     mRamDiskDeviceNodeTemplate) (MEDIA_RAMDISK_DEVICE_PATH (Arr UINT8 4) (Arr UINT8 16)) [''EndingAddr''] = Some [0xff, 0x11, 0, 0, 0, 0, 0, 0]"
proof -
  have "sizeof (Arr UINT8 4) = 4" "sizeof (Arr UINT8 16) = 16" by (simp_all add: layout_simps)
  moreover have "le64 0x11ff = [0xff, 0x11, 0, 0, 0, 0, 0, 0]" by (simp add: le64_def be64_def upt_rec)
  ultimately show ?thesis
    using device_node_layout [of "Arr UINT8 4" "Arr UINT8 16"
        "mRamDiskPrivateDataTemplate\<lparr>StartingAddr := 0x1000, Size := 0x200, TypeGuid := replicate 16 7\<rparr>"]
    by (simp add: Let_def)
qed

text \<open>The SSDT that is installed with the NFIT is a table whose length is stated and whose bytes sum to 0.\<close>

lemma ssdt_table:
  "member_bytes nvdimmRootAml EFI_ACPI_DESCRIPTION_HEADER [''Signature''] = Some (map of_char ''SSDT'')"
  "member_bytes nvdimmRootAml EFI_ACPI_DESCRIPTION_HEADER [''Length''] = Some (le32 (of_nat (length nvdimmRootAml)))"
  "sum_list nvdimmRootAml = 0"
  by (simp_all add: member_bytes_def nvdimmRootAml_def loader_type_defs layout_simps le32_def be32_def)

end
