(* ===== verification/Progress.thy ===== *)
theory Progress
  imports Util Complex_Main "HOL-Library.Log_Nat"
begin

text \<open>
  \<open>PrintProgress\<close> of \<open>src/src/boot/mftah_uefi/util.c\<close>: the progress bar, whose percentage is computed in double precision. The numbers are
  rationals, rounded where the code rounds: to the nearest number of 53 bits and at least \<open>2 ^ -1074\<close>, ties to even, as IEEE 754 asks. They are far
  from the overflow to infinity.
\<close>

section \<open>Double precision\<close>

definition half_even :: "rat \<Rightarrow> int" where
  "half_even x = (let f = \<lfloor>x\<rfloor>; d = x - of_int f in if d < 1 / 2 \<or> d = 1 / 2 \<and> even f then f else f + 1)"

text \<open>The distance of the doubles around \<open>x\<close> is \<open>2 ^ spacing x / 2 ^ 1074\<close>.\<close>

definition spacing :: "rat \<Rightarrow> nat" where
  "spacing x = floorlog 2 (nat \<lfloor>x * 2 ^ 1074\<rfloor>) - 53"

definition unit_at :: "rat \<Rightarrow> rat" where
  "unit_at x = 2 ^ spacing x / 2 ^ 1074"

definition double :: "rat \<Rightarrow> rat" where
  "double x = of_int (half_even (x / unit_at x)) * unit_at x"

section \<open>The progress bar\<close>

datatype printed = Print string "u64 list"

text \<open>The calls of \<open>Print\<close>; the converted \<open>double\<close> must fit an \<open>int\<close>, else the behaviour is undefined and the result \<open>None\<close>. A null pointer
  is \<open>None\<close> as an argument, for which nothing is printed.\<close>

definition PrintProgress :: "u64 option \<Rightarrow> u64 option \<Rightarrow> printed list option" where
  "PrintProgress CurrentValue OutOfValue =
     (case (CurrentValue, OutOfValue) of
        (Some cur, Some out_of) \<Rightarrow>
          if out_of = 0 then Some []
          else
          let PercentRaw = double (double (of_nat (unat cur)) / double (of_nat (unat out_of)));
              percent = double (PercentRaw * 100)
          in if percent \<ge> 2 ^ 31 then None
          else
          let PercentDone = of_int (min 100 \<lfloor>percent\<rfloor>) :: u8;
              PercentByFive = of_int (min 20 (uint PercentDone div 5)) :: u8
          in Some ([Print (CHR 0x0d # ''  %3d%% ['') [ucast PercentDone]]
                   @ replicate (unat PercentByFive) (Print ''='' []) @ replicate (nat (20 - uint PercentByFive)) (Print '' '' [])
                   @ [Print ''] (%16x / %16x)   '' [cur, out_of]])
      | _ \<Rightarrow> Some [])"

section \<open>Rounding\<close>

lemma half_even_near: "\<bar>of_int (half_even x) - x\<bar> \<le> 1 / 2"
proof -
  have "0 \<le> x - of_int \<lfloor>x\<rfloor>" "x - of_int \<lfloor>x\<rfloor> < 1" by linarith+
  then show ?thesis by (auto simp: half_even_def Let_def abs_le_iff)
qed

lemma half_even_of_int [simp]: "half_even (of_int n) = n"
  by (simp add: half_even_def)

lemma half_even_mono:
  assumes "x \<le> y"
  shows "half_even x \<le> half_even y"
proof (cases "\<lfloor>x\<rfloor> = \<lfloor>y\<rfloor>")
  case True
  then show ?thesis using assms by (auto simp: half_even_def Let_def)
next
  case False
  then have "\<lfloor>x\<rfloor> + 1 \<le> \<lfloor>y\<rfloor>" using floor_mono [OF assms] by linarith
  moreover have "half_even x \<le> \<lfloor>x\<rfloor> + 1" "\<lfloor>y\<rfloor> \<le> half_even y" by (auto simp: half_even_def Let_def)
  ultimately show ?thesis by linarith
qed

lemma unit_at_pos [simp]: "0 < unit_at x"
  by (simp add: unit_at_def)

text \<open>In units of their distance, the numbers around \<open>x\<close> have 53 bits, and 53 full ones above the smallest distance.\<close>

lemma floorlog_scaled:
  assumes "0 \<le> x"
  shows "x * 2 ^ 1074 < 2 ^ floorlog 2 (nat \<lfloor>x * 2 ^ 1074\<rfloor>)"
    and "1 \<le> x * 2 ^ 1074 \<Longrightarrow> 2 ^ (floorlog 2 (nat \<lfloor>x * 2 ^ 1074\<rfloor>) - 1) \<le> x * 2 ^ 1074"
proof -
  let ?y = "x * 2 ^ 1074" and ?L = "floorlog 2 (nat \<lfloor>x * 2 ^ 1074\<rfloor>)"
  have pos: "0 \<le> ?y" using assms by simp
  have "nat \<lfloor>?y\<rfloor> < 2 ^ ?L" using floorlog_leD [of 2 "nat \<lfloor>?y\<rfloor>" ?L] by simp
  then have "\<lfloor>?y\<rfloor> < 2 ^ ?L" using pos by (simp add: nat_less_iff)
  then show "?y < 2 ^ ?L" by (simp add: floor_less_iff)
  assume "1 \<le> ?y"
  then have "0 < nat \<lfloor>?y\<rfloor>" by (simp add: le_floor_iff)
  then have "2 ^ (?L - 1) \<le> nat \<lfloor>?y\<rfloor>" using floorlog_bounds [of "nat \<lfloor>?y\<rfloor>" 2] by simp
  then have "2 ^ (?L - 1) \<le> \<lfloor>?y\<rfloor>" using pos by (simp add: le_nat_iff)
  then show "2 ^ (?L - 1) \<le> ?y" by (simp add: le_floor_iff)
qed

lemma in_units:
  assumes "0 \<le> x"
  shows "x / unit_at x < 2 ^ 53" and "0 < spacing x \<Longrightarrow> 2 ^ 52 \<le> x / unit_at x"
proof -
  let ?L = "floorlog 2 (nat \<lfloor>x * 2 ^ 1074\<rfloor>)"
  have eq: "x / unit_at x = x * 2 ^ 1074 / 2 ^ spacing x" by (simp add: unit_at_def)
  have "(2 :: rat) ^ ?L \<le> 2 ^ (53 + spacing x)" by (intro power_increasing) (simp_all add: spacing_def)
  then have "x * 2 ^ 1074 < 2 ^ 53 * 2 ^ spacing x" using floorlog_scaled(1) [OF assms] by (simp only: power_add)
  then show "x / unit_at x < 2 ^ 53" unfolding eq by (simp add: divide_less_eq)
  assume s: "0 < spacing x"
  then have L: "?L - 1 = 52 + spacing x" by (simp add: spacing_def)
  have "1 \<le> x * 2 ^ 1074"
  proof (rule ccontr)
    assume "\<not> 1 \<le> x * 2 ^ 1074"
    then have "nat \<lfloor>x * 2 ^ 1074\<rfloor> = 0" by (simp add: floor_le_iff)
    then show False using s by (simp add: spacing_def floorlog_def)
  qed
  then have "2 ^ 52 * 2 ^ spacing x \<le> x * 2 ^ 1074" using floorlog_scaled(2) [OF assms] unfolding L power_add by simp
  then show "2 ^ 52 \<le> x / unit_at x" unfolding eq by (simp add: le_divide_eq)
qed

lemma spacing_mono: "0 \<le> x \<Longrightarrow> x \<le> y \<Longrightarrow> spacing x \<le> spacing y"
  unfolding spacing_def by (intro diff_le_mono floorlog_mono nat_mono floor_mono mult_right_mono) simp_all

lemma double_mono:
  assumes "0 \<le> x" and "x \<le> y"
  shows "double x \<le> double y"
proof (cases "spacing x = spacing y")
  case True
  then have "unit_at x = unit_at y" by (simp add: unit_at_def)
  then show ?thesis
    using half_even_mono [OF divide_right_mono [OF assms(2)], of "unit_at y"] less_imp_le [OF unit_at_pos] by (simp add: double_def mult_right_mono)
next
  case False
  then have s: "spacing x < spacing y" using spacing_mono [OF assms] by simp
  then have "unit_at x * 2 ^ Suc 0 \<le> unit_at y"
    unfolding unit_at_def times_divide_eq_left power_add [symmetric] by (intro divide_right_mono power_increasing) simp_all
  then have u: "2 * unit_at x \<le> unit_at y" by simp
  have "half_even (x / unit_at x) \<le> half_even (of_int (2 ^ 53))" using in_units(1) [OF assms(1)] by (intro half_even_mono) simp
  then have "(of_int (half_even (x / unit_at x)) :: rat) \<le> of_int (2 ^ 53)" by (simp only: of_int_le_iff half_even_of_int)
  then have "double x \<le> of_int (2 ^ 53) * unit_at x"
    unfolding double_def by (rule mult_right_mono) (rule less_imp_le [OF unit_at_pos])
  also have "\<dots> = of_int (2 ^ 52) * (2 * unit_at x)" by simp
  also have "\<dots> \<le> of_int (2 ^ 52) * unit_at y" using u by (rule mult_left_mono) simp
  also have "\<dots> \<le> double y"
  proof -
    have "half_even (of_int (2 ^ 52)) \<le> half_even (y / unit_at y)" using in_units(2) [of y] assms s by (intro half_even_mono) simp
    then have "(of_int (2 ^ 52) :: rat) \<le> of_int (half_even (y / unit_at y))" by (simp only: of_int_le_iff half_even_of_int)
    then show ?thesis unfolding double_def by (rule mult_right_mono) (rule less_imp_le [OF unit_at_pos])
  qed
  finally show ?thesis .
qed

lemma power_quotient: "s \<le> n \<Longrightarrow> (2 :: rat) ^ s / 2 ^ n = 1 / 2 ^ (n - s)"
  by (simp add: power_diff)

lemma double_exact:
  assumes "n < 2 ^ 53"
  shows "double (of_nat n) = of_nat n"
proof -
  let ?x = "of_nat n :: rat"
  have "(2 ^ 1074 :: rat) = of_nat (2 ^ 1074)" by (simp only: of_nat_power of_nat_numeral)
  then have "nat \<lfloor>?x * 2 ^ 1074\<rfloor> = n * 2 ^ 1074" by (simp only: of_nat_mult [symmetric] floor_of_nat nat_int)
  moreover have "n * 2 ^ 1074 < 2 ^ 1127" using mult_strict_right_mono [OF assms, of "2 ^ 1074"] by (simp only: power_add [symmetric]) simp
  ultimately have "spacing ?x \<le> 1074" using floorlog_leI [of "n * 2 ^ 1074" 2 1127] by (simp only: spacing_def) simp
  then have "unit_at ?x = 1 / 2 ^ (1074 - spacing ?x)" unfolding unit_at_def by (rule power_quotient)
  then have "?x / unit_at ?x = of_int (int n * 2 ^ (1074 - spacing ?x))" by simp
  then have "of_int (half_even (?x / unit_at ?x)) = ?x / unit_at ?x" by (simp only: half_even_of_int)
  then show ?thesis using less_imp_neq [OF unit_at_pos [of ?x], symmetric] by (simp add: double_def)
qed

lemma double_numerals [simp]: "double 0 = 0" "double 1 = 1" "double 100 = 100"
  using double_exact [of 0] double_exact [of 1] double_exact [of 100] by simp_all

abbreviation "eps \<equiv> 1 / 2 ^ 53 :: rat"

lemma double_near:
  assumes "1 / 2 ^ 1000 \<le> x"
  shows "\<bar>double x - x\<bar> \<le> x * eps"
proof -
  have x: "0 \<le> x" using assms by (rule order_trans [rotated]) simp
  have "0 < spacing x"
  proof (rule ccontr)
    assume "\<not> 0 < spacing x"
    then have "x * 2 ^ 1074 < 2 ^ 53" using in_units(1) [OF x] by (simp add: unit_at_def)
    moreover have "1 / 2 ^ 1000 * 2 ^ 1074 \<le> x * 2 ^ 1074" using assms by (rule mult_right_mono) simp
    ultimately show False by simp
  qed
  then have "2 ^ 52 * unit_at x \<le> x" using in_units(2) [OF x] by (simp add: le_divide_eq)
  moreover have "double x - x = (of_int (half_even (x / unit_at x)) - x / unit_at x) * unit_at x"
    using less_imp_neq [OF unit_at_pos [of x], symmetric] by (simp add: double_def left_diff_distrib)
  then have "\<bar>double x - x\<bar> \<le> 1 / 2 * unit_at x"
    using mult_right_mono [OF half_even_near [of "x / unit_at x"], of "unit_at x"] less_imp_le [OF unit_at_pos [of x]] by (simp only: abs_mult) simp
  ultimately show ?thesis by simp
qed

lemma double_between:
  assumes "1 / 2 ^ 1000 \<le> x"
  shows "x * (1 - eps) \<le> double x" and "double x \<le> x * (1 + eps)"
  using double_near [OF assms] unfolding right_diff_distrib distrib_left abs_le_iff by linarith+

text \<open>The percentage before it is cut down to an integer.\<close>

definition percentage :: "nat \<Rightarrow> nat \<Rightarrow> rat" where
  "percentage cur out_of = double (double (double (of_nat cur) / double (of_nat out_of)) * 100)"

lemma double_ge_1: "0 < n \<Longrightarrow> 1 \<le> double (of_nat n)"
  using double_mono [of 1 "of_nat n"] by simp

lemma double_nonneg: "0 \<le> x \<Longrightarrow> 0 \<le> double x"
  using double_mono [of 0 x] by simp

lemma percentage_mono:
  assumes "c \<le> c'" and "0 < t"
  shows "percentage c t \<le> percentage c' t"
proof -
  have "double (of_nat c) \<le> double (of_nat c')" using assms(1) by (intro double_mono) simp_all
  then have "double (of_nat c) / double (of_nat t) \<le> double (of_nat c') / double (of_nat t)"
    using double_ge_1 [OF assms(2)] by (intro divide_right_mono) simp_all
  then show ?thesis
    unfolding percentage_def using double_ge_1 [OF assms(2)] by (intro double_mono mult_right_mono) (simp_all add: double_nonneg)
qed

lemma percentage_ends: "0 < t \<Longrightarrow> percentage t t = 100" "percentage 0 t = 0"
  using double_ge_1 [of t] by (simp_all add: percentage_def)

lemma percentage_bounds:
  assumes "0 < c" and "0 < t" and "t < 2 ^ 64"
  shows "percentage c t \<le> of_nat c / of_nat t * 100 + of_nat c / of_nat t * (500 * eps)"
    and "of_nat c / of_nat t * 100 - of_nat c / of_nat t * (500 * eps) \<le> percentage c t"
proof -
  let ?c = "of_nat c :: rat" and ?t = "of_nat t :: rat" and ?r = "double (of_nat c) / double (of_nat t)"
  define K where "K = ?c / ?t"
  have ct: "1 \<le> ?c" "1 \<le> ?t" "?t \<le> 2 ^ 64" using assms by simp_all
  have K: "1 / 2 ^ 64 \<le> K" unfolding K_def using ct by (intro frac_le) simp_all
  have dc: "?c * (1 - eps) \<le> double ?c" "double ?c \<le> ?c * (1 + eps)" and dt: "?t * (1 - eps) \<le> double ?t" "double ?t \<le> ?t * (1 + eps)"
    by (rule double_between, rule order_trans [rotated], rule ct(1), simp)+ (rule double_between, rule order_trans [rotated], rule ct(2), simp)+
  have pos: "0 < double ?t" "0 < double ?c" using double_ge_1 [of t] double_ge_1 [of c] assms(1,2) by simp_all
  have "?r \<le> (?c * (1 + eps)) / (?t * (1 - eps))" using dc(2) dt(1) ct by (intro frac_le) simp_all
  then have r1: "?r \<le> K * ((1 + eps) / (1 - eps))" by (simp only: K_def times_divide_times_eq)
  have "(?c * (1 - eps)) / (?t * (1 + eps)) \<le> ?r" using dc(1) dt(2) ct pos by (intro frac_le) simp_all
  then have r2: "K * ((1 - eps) / (1 + eps)) \<le> ?r" by (simp only: K_def times_divide_times_eq)
  let ?d = "double ?r" and ?p = "percentage c t"
  have small: "1 / 2 ^ 1000 \<le> (1 / 2 ^ 64) * ((1 - eps) / (1 + eps))" by simp
  also have "\<dots> \<le> ?r" by (rule order_trans [OF mult_right_mono [OF K] r2]) simp
  finally have r0: "1 / 2 ^ 1000 \<le> ?r" .
  have d: "?r * (1 - eps) \<le> ?d" "?d \<le> ?r * (1 + eps)" using double_between [OF r0] .
  have "1 / 2 ^ 1000 \<le> (1 / 2 ^ 64) * ((1 - eps) / (1 + eps)) * (1 - eps) * 100" by simp
  also have "\<dots> \<le> ?r * (1 - eps) * 100"
    by (intro mult_right_mono order_trans [OF mult_right_mono [OF K] r2]) simp_all
  also have "\<dots> \<le> ?d * 100" using d(1) by (rule mult_right_mono) simp
  finally have p: "?d * 100 * (1 - eps) \<le> ?p" "?p \<le> ?d * 100 * (1 + eps)" unfolding percentage_def by (rule double_between)+
  have "?p \<le> ?r * (1 + eps) * 100 * (1 + eps)" using p(2) mult_right_mono [OF d(2), of "100 * (1 + eps)"] by (simp add: mult.assoc)
  also have "\<dots> \<le> K * ((1 + eps) / (1 - eps)) * (1 + eps) * 100 * (1 + eps)" by (intro mult_right_mono r1) simp_all
  also have "\<dots> = K * ((1 + eps) / (1 - eps) * (1 + eps) * 100 * (1 + eps))" by (simp only: mult.assoc)
  also have "\<dots> \<le> K * (100 + 500 * eps)" using K by (intro mult_left_mono) (simp_all add: order_trans [OF _ K])
  finally show "percentage c t \<le> of_nat c / of_nat t * 100 + of_nat c / of_nat t * (500 * eps)" unfolding K_def by (simp only: distrib_left)
  have "K * (100 - 500 * eps) \<le> K * ((1 - eps) / (1 + eps) * (1 - eps) * 100 * (1 - eps))"
    using K by (intro mult_left_mono) (simp_all add: order_trans [OF _ K])
  also have "\<dots> = K * ((1 - eps) / (1 + eps)) * (1 - eps) * 100 * (1 - eps)" by (simp only: mult.assoc)
  also have "\<dots> \<le> ?r * (1 - eps) * 100 * (1 - eps)" by (intro mult_right_mono r2) simp_all
  also have "\<dots> \<le> ?p" using p(1) mult_right_mono [OF d(1), of "100 * (1 - eps)"] by (simp add: mult.assoc)
  finally show "of_nat c / of_nat t * 100 - of_nat c / of_nat t * (500 * eps) \<le> percentage c t" unfolding K_def by (simp only: right_diff_distrib)
qed

lemma percentage_near:
  assumes "c \<le> t" and "0 < t" and "t < 2 ^ 64"
  shows "\<bar>percentage c t - of_nat (100 * c) / of_nat t\<bar> \<le> 1 / 2 ^ 44"
proof (cases "c = 0")
  case True
  then show ?thesis by (simp add: percentage_ends)
next
  case False
  define K where "K = (of_nat c / of_nat t :: rat)"
  have "K \<le> 1" using assms(1,2) by (simp add: K_def)
  then have "K * (500 * eps) \<le> 1 * (500 * eps)" by (rule mult_right_mono) simp
  also have "\<dots> \<le> 1 / 2 ^ 44" by simp
  finally have "K * (500 * eps) \<le> 1 / 2 ^ 44" .
  moreover have "of_nat (100 * c) / of_nat t = K * 100" by (simp add: K_def)
  moreover have "percentage c t \<le> K * 100 + K * (500 * eps)" "K * 100 - K * (500 * eps) \<le> percentage c t"
    unfolding K_def using False assms(2,3) by (intro percentage_bounds; simp)+
  ultimately show ?thesis unfolding abs_le_iff by linarith
qed

text \<open>A percentage up to \<open>2 ^ 31 - 1\<close> fits an \<open>int\<close> also after it is rounded.\<close>

lemma percentage_int:
  assumes "100 * c \<le> (2 ^ 31 - 1) * t" and "0 < c" and "0 < t" and "t < 2 ^ 64"
  shows "percentage c t < 2 ^ 31"
proof -
  define K where "K = (of_nat c / of_nat t :: rat)"
  have "(of_nat (100 * c) :: rat) \<le> of_nat ((2 ^ 31 - 1) * t)" using assms(1) by (simp only: of_nat_le_iff)
  then have K: "K * 100 \<le> 2 ^ 31 - 1" using assms(3) by (simp add: K_def divide_le_eq)
  then have "K \<le> 2 ^ 31" by simp
  then have "K * (500 * eps) \<le> 2 ^ 31 * (500 * eps)" by (rule mult_right_mono) simp
  also have "\<dots> < 1" by simp
  finally have "K * (500 * eps) < 1" .
  moreover have "percentage c t \<le> K * 100 + K * (500 * eps)" unfolding K_def by (rule percentage_bounds(1) [OF assms(2-4)])
  ultimately show ?thesis using K by linarith
qed

section \<open>The line printed\<close>

definition progress_line :: "nat \<Rightarrow> u64 \<Rightarrow> u64 \<Rightarrow> printed list" where
  "progress_line k cur out_of =
     [Print (CHR 0x0d # ''  %3d%% ['') [of_nat k]] @ replicate (k div 5) (Print ''='' []) @ replicate (20 - k div 5) (Print '' '' [])
     @ [Print ''] (%16x / %16x)   '' [cur, out_of]]"

lemma percentage_range:
  assumes "c \<le> t" and "0 < t"
  shows "0 \<le> percentage c t" and "percentage c t \<le> 100"
  using percentage_mono [of 0 c t] percentage_mono [of c t t] assms by (simp_all add: percentage_ends)

lemma PrintProgress_percentage:
  "PrintProgress (Some cur) (Some out_of) =
     (if out_of = 0 then Some []
      else if percentage (unat cur) (unat out_of) \<ge> 2 ^ 31 then None
      else
      let PercentDone = of_int (min 100 \<lfloor>percentage (unat cur) (unat out_of)\<rfloor>) :: u8;
          PercentByFive = of_int (min 20 (uint PercentDone div 5)) :: u8
      in Some ([Print (CHR 0x0d # ''  %3d%% ['') [ucast PercentDone]]
               @ replicate (unat PercentByFive) (Print ''='' []) @ replicate (nat (20 - uint PercentByFive)) (Print '' '' [])
               @ [Print ''] (%16x / %16x)   '' [cur, out_of]]))"
  by (simp only: PrintProgress_def percentage_def prod.case option.case Let_def)

lemma PrintProgress_clamped:
  assumes "out_of \<noteq> 0"
  shows "PrintProgress (Some cur) (Some out_of) = (if percentage (unat cur) (unat out_of) \<ge> 2 ^ 31 then None
    else Some (progress_line (min 100 (nat \<lfloor>percentage (unat cur) (unat out_of)\<rfloor>)) cur out_of))"
proof -
  let ?p = "percentage (unat cur) (unat out_of)"
  have "0 < unat out_of" using assms by (simp add: unat_gt_0)
  then have "0 \<le> ?p" using percentage_mono [of 0 "unat cur" "unat out_of"] by (simp add: percentage_ends)
  then have "0 \<le> \<lfloor>?p\<rfloor>" by (simp only: zero_le_floor)
  then obtain n where n: "\<lfloor>?p\<rfloor> = int n" using nonneg_int_cases by blast
  define k where "k = min 100 n"
  have k: "min 100 (int n) = int k" "k \<le> 100" by (simp_all add: k_def of_nat_min)
  have k8: "uint (of_int (int k) :: u8) = int k" and k64: "ucast (of_int (int k) :: u8) = (of_nat k :: u64)"
    using k(2) by (simp_all add: uint_word_of_int unsigned_of_int unsigned_of_nat take_bit_int_eq_self take_bit_nat_eq_self del: of_int_of_nat_eq)
  have five: "uint (of_int (min 20 (int k div 5)) :: u8) = int (k div 5)" "unat (of_int (min 20 (int k div 5)) :: u8) = k div 5"
    using k(2) by (auto simp: uint_word_of_int unsigned_of_int min_def take_bit_int_eq_self)
  have "nat (20 - int (k div 5)) = 20 - k div 5" using k(2) by (simp add: nat_diff_distrib')
  then show ?thesis
    using assms by (simp only: PrintProgress_percentage Let_def n k(1) k8 k64 five progress_line_def if_False nat_int k_def [symmetric])
qed

lemma PrintProgress_line:
  assumes "out_of \<noteq> 0" and "cur \<le> out_of"
  shows "PrintProgress (Some cur) (Some out_of) = Some (progress_line (nat \<lfloor>percentage (unat cur) (unat out_of)\<rfloor>) cur out_of)"
    and "nat \<lfloor>percentage (unat cur) (unat out_of)\<rfloor> \<le> 100"
proof -
  let ?p = "percentage (unat cur) (unat out_of)"
  have "unat cur \<le> unat out_of" "0 < unat out_of" using assms by (simp_all add: word_le_nat_alt unat_gt_0)
  note p = percentage_range [OF this]
  have "\<lfloor>?p\<rfloor> \<le> \<lfloor>100 :: rat\<rfloor>" by (rule floor_mono [OF p(2)])
  then show le: "nat \<lfloor>?p\<rfloor> \<le> 100" by (simp only: floor_numeral nat_le_iff of_nat_numeral)
  have "\<not> ?p \<ge> 2 ^ 31" using p(2) by (auto dest: order_trans)
  then show "PrintProgress (Some cur) (Some out_of) = Some (progress_line (nat \<lfloor>?p\<rfloor>) cur out_of)"
    using PrintProgress_clamped [OF assms(1), of cur] le by (simp only: if_False min_absorb2)
qed

section \<open>Properties\<close>

text \<open>C36: The bar always has 20 places, and the percentage next to it is never above 100. Up to the total it is the exact one cut down, up to an error of
  2^-44 before it is cut, and 100 at the end; beyond the total it is held at 100, as long as the percentage fits an \<open>int\<close>.\<close>

theorem progress_shown:
  assumes "out_of \<noteq> 0"
  shows "(\<forall>shown. PrintProgress (Some cur) (Some out_of) = Some shown \<longrightarrow> (\<exists>k \<le> 100. shown = progress_line k cur out_of))
    \<and> (cur \<le> out_of \<longrightarrow> (\<exists>k. PrintProgress (Some cur) (Some out_of) = Some (progress_line k cur out_of) \<and> k \<le> 100
         \<and> of_nat k - 1 / 2 ^ 44 \<le> (of_nat (100 * unat cur) / of_nat (unat out_of) :: rat)
         \<and> (of_nat (100 * unat cur) / of_nat (unat out_of) :: rat) < of_nat k + 1 + 1 / 2 ^ 44 \<and> (cur = out_of \<longrightarrow> k = 100)))
    \<and> (out_of < cur \<and> 100 * unat cur \<le> (2 ^ 31 - 1) * unat out_of
         \<longrightarrow> PrintProgress (Some cur) (Some out_of) = Some (progress_line 100 cur out_of))"
proof (intro conjI impI allI)
  let ?p = "percentage (unat cur) (unat out_of)"
  have pos: "0 < unat out_of" using assms by (simp add: unat_gt_0)
  fix shown assume "PrintProgress (Some cur) (Some out_of) = Some shown"
  then show "\<exists>k \<le> 100. shown = progress_line k cur out_of"
    unfolding PrintProgress_clamped [OF assms] by (intro exI [of _ "min 100 (nat \<lfloor>?p\<rfloor>)"]) (auto split: if_splits)
next
  let ?p = "percentage (unat cur) (unat out_of)"
  assume "cur \<le> out_of"
  then have le: "unat cur \<le> unat out_of" and pos: "0 < unat out_of" using assms by (simp_all add: word_le_nat_alt unat_gt_0)
  have "\<bar>?p - of_nat (100 * unat cur) / of_nat (unat out_of)\<bar> \<le> 1 / 2 ^ 44" by (rule percentage_near [OF le pos unat_u64])
  moreover have "of_nat (nat \<lfloor>?p\<rfloor>) \<le> ?p" and "?p < of_nat (nat \<lfloor>?p\<rfloor>) + 1" using percentage_range(1) [OF le pos] by linarith+
  moreover have "nat \<lfloor>?p\<rfloor> = 100" if "cur = out_of" using percentage_ends(1) [OF pos] that by simp
  ultimately show "\<exists>k. PrintProgress (Some cur) (Some out_of) = Some (progress_line k cur out_of) \<and> k \<le> 100
         \<and> of_nat k - 1 / 2 ^ 44 \<le> (of_nat (100 * unat cur) / of_nat (unat out_of) :: rat)
         \<and> (of_nat (100 * unat cur) / of_nat (unat out_of) :: rat) < of_nat k + 1 + 1 / 2 ^ 44 \<and> (cur = out_of \<longrightarrow> k = 100)"
    using PrintProgress_line [OF assms \<open>cur \<le> out_of\<close>] unfolding abs_le_iff
    by (intro exI [of _ "nat \<lfloor>?p\<rfloor>"] conjI) linarith+
next
  let ?p = "percentage (unat cur) (unat out_of)"
  assume a: "out_of < cur \<and> 100 * unat cur \<le> (2 ^ 31 - 1) * unat out_of"
  then have lt: "unat out_of < unat cur" and pos: "0 < unat out_of" using assms by (simp_all add: word_less_nat_alt unat_gt_0)
  have "?p < 2 ^ 31" using a lt pos by (intro percentage_int unat_u64) simp_all
  moreover have "100 \<le> ?p" using percentage_mono [OF less_imp_le [OF lt] pos] percentage_ends(1) [OF pos] by simp
  then have "\<lfloor>100 :: rat\<rfloor> \<le> \<lfloor>?p\<rfloor>" by (rule floor_mono)
  then have "100 \<le> nat \<lfloor>?p\<rfloor>" unfolding floor_numeral by linarith
  then have "min 100 (nat \<lfloor>?p\<rfloor>) = 100" by (rule min_absorb1)
  ultimately show "PrintProgress (Some cur) (Some out_of) = Some (progress_line 100 cur out_of)"
    using PrintProgress_clamped [OF assms, of cur] by (simp only: not_le [symmetric] if_False)
qed

theorem progress_shown_witness:
  "(\<exists>k. PrintProgress (Some 512) (Some 1024) = Some (progress_line k 512 1024) \<and> 49 \<le> k \<and> k \<le> 50)
    \<and> PrintProgress (Some 2048) (Some 1024) = Some (progress_line 100 2048 1024)"
proof
  obtain k where k: "PrintProgress (Some 512) (Some 1024) = Some (progress_line k 512 1024)" "of_nat k - 1 / 2 ^ 44 \<le> (50 :: rat)"
    "(50 :: rat) < of_nat k + 1 + 1 / 2 ^ 44"
    using progress_shown [of 1024 512] by auto
  then have "(of_nat k :: rat) < of_nat 51" "(of_nat 48 :: rat) < of_nat k" by simp_all
  then show "\<exists>k. PrintProgress (Some 512) (Some 1024) = Some (progress_line k 512 1024) \<and> 49 \<le> k \<and> k \<le> 50"
    using k(1) by (simp only: of_nat_less_iff) auto
  show "PrintProgress (Some 2048) (Some 1024) = Some (progress_line 100 2048 1024)" using progress_shown [of 1024 2048] by simp
qed

text \<open>C37: The bar never goes back while the current value grows.\<close>

theorem progress_monotone:
  assumes "out_of \<noteq> 0" and "a \<le> b" and "b \<le> out_of"
  shows "\<exists>j k. PrintProgress (Some a) (Some out_of) = Some (progress_line j a out_of)
    \<and> PrintProgress (Some b) (Some out_of) = Some (progress_line k b out_of) \<and> j \<le> k"
proof -
  have "unat a \<le> unat b" "0 < unat out_of" using assms by (simp_all add: word_le_nat_alt unat_gt_0)
  then have "nat \<lfloor>percentage (unat a) (unat out_of)\<rfloor> \<le> nat \<lfloor>percentage (unat b) (unat out_of)\<rfloor>"
    by (intro nat_mono floor_mono percentage_mono)
  then show ?thesis using PrintProgress_line(1) [OF assms(1)] order_trans [OF assms(2,3)] assms(3) by blast
qed

theorem progress_monotone_witness:
  "\<exists>j k. PrintProgress (Some 16) (Some 64) = Some (progress_line j 16 64) \<and> PrintProgress (Some 48) (Some 64) = Some (progress_line k 48 64) \<and> j \<le> k"
  using progress_monotone [of 64 16 48] by simp

lemma half_even_at:
  assumes "of_int n - 1 / 2 < x" and "x < of_int n + 1 / 2"
  shows "half_even x = n"
proof -
  have "\<bar>of_int (half_even x) - of_int n :: rat\<bar> < 1" using half_even_near [of x] assms unfolding abs_le_iff abs_less_iff by linarith
  then have "of_int \<bar>half_even x - n\<bar> < (of_int 1 :: rat)" by simp
  then have "\<bar>half_even x - n\<bar> < 1" by (simp only: of_int_less_iff)
  then show ?thesis by simp
qed

lemma double_at:
  assumes "2 ^ 52 \<le> x * 2 ^ m" and "x * 2 ^ m < 2 ^ 53" and "m \<le> 1074"
  shows "double x = of_int (half_even (x * 2 ^ m)) / 2 ^ m"
proof -
  have scale: "x * 2 ^ 1074 = x * 2 ^ m * 2 ^ (1074 - m)" using assms(3) by (simp only: mult.assoc power_add [symmetric]) simp
  have "2 ^ (52 + (1074 - m)) \<le> x * 2 ^ 1074" and "x * 2 ^ 1074 < 2 ^ (53 + (1074 - m))"
    unfolding scale power_add using assms(1,2) by (simp_all add: mult_right_mono)
  then have "2 ^ (52 + (1074 - m)) \<le> \<lfloor>x * 2 ^ 1074\<rfloor>" and "\<lfloor>x * 2 ^ 1074\<rfloor> < 2 ^ (53 + (1074 - m))"
    by (simp_all only: le_floor_iff floor_less_iff of_int_power of_int_numeral)
  then have y: "2 ^ (53 + (1074 - m) - 1) \<le> nat \<lfloor>x * 2 ^ 1074\<rfloor>" "nat \<lfloor>x * 2 ^ 1074\<rfloor> < 2 ^ (53 + (1074 - m))"
    by (simp_all add: le_nat_iff nat_less_iff)
  have "floorlog 2 (nat \<lfloor>x * 2 ^ 1074\<rfloor>) = 53 + (1074 - m)"
    by (rule order.antisym [OF floorlog_leI [OF y(2)] floorlog_geI [OF y(1)]]) simp_all
  then have "spacing x = 1074 - m" by (simp add: spacing_def)
  then have "unit_at x = 1 / 2 ^ m" using power_quotient [of "1074 - m" 1074] assms(3) by (simp only: unit_at_def) simp
  then show ?thesis by (simp add: double_def)
qed

text \<open>The percentage can be short by one although the exact one is an integer: 29 of 100 are shown as 28 percent.\<close>

theorem progress_falls_short: "PrintProgress (Some 29) (Some 100) = Some (progress_line 28 29 100)"
proof -
  have raw: "double (29 / 100) = 5224175567749775 / 2 ^ 54"
    using half_even_at [of 5224175567749775 "29 / 100 * 2 ^ 54"] by (subst double_at [of _ 54]) simp_all
  have "double (5224175567749775 / 2 ^ 54 * 100) = 8162774324609023 / 2 ^ 48"
    using half_even_at [of 8162774324609023 "5224175567749775 / 2 ^ 54 * 100 * 2 ^ 48"] by (subst double_at [of _ 48]) simp_all
  moreover have "percentage 29 100 = double (double (29 / 100) * 100)" using double_exact [of 29] by (simp add: percentage_def)
  ultimately have "percentage 29 100 = 8162774324609023 / 2 ^ 48" unfolding raw by (rule trans [rotated])
  moreover have "\<lfloor>8162774324609023 / 2 ^ 48 :: rat\<rfloor> = 28" by (simp add: floor_eq_iff)
  ultimately have "\<lfloor>percentage 29 100\<rfloor> = 28" by (simp only:)
  then have "nat \<lfloor>percentage 29 100\<rfloor> = 28" by simp
  then show ?thesis using PrintProgress_line(1) [of 100 29] by simp
qed

end
