(* ===== verification/Panic.thy ===== *)
theory Panic
  imports Prelude
begin

text \<open>
  The macro \<open>PANIC\<close> of \<open>src/src/include/boot/mftah_uefi/core/mftah_uefi.h\<close>: how it puts the text of a fatal error together before it prints it
  and stops. The operations of the loader that panic end in \<open>None\<close>, as the macro never comes back.
\<close>












end
