(* ===== verification/Kernel_Report.thy ===== *)
theory Kernel_Report
  imports Kernel
begin

text \<open>
  What the kernel reports on the serial port while it looks for its pool, as a whole: \<open>kinit\<close> returns, and the bytes it sends are those of an abstract
  printer that reuses one buffer for all lines and never clears it.
\<close>

section \<open>The abstract printer\<close>

text \<open>The bytes at \<open>a\<close>, a text written over the beginning of a buffer, and what is sent of a buffer: everything before the first 0.\<close>

definition line_at :: "kmem \<Rightarrow> nat \<Rightarrow> nat \<Rightarrow> bytes" where
  "line_at m a n = map (\<lambda>i. m (a + i)) [0..<n]"

definition overlay :: "bytes \<Rightarrow> bytes \<Rightarrow> bytes" where
  "overlay x buf = x @ drop (length x) buf"

definition until0 :: "bytes \<Rightarrow> bytes" where
  "until0 = takeWhile (\<lambda>b. b \<noteq> 0)"

primrec reprint :: "bytes list \<Rightarrow> bytes \<Rightarrow> bytes" where
  "reprint [] buf = []"
| "reprint (x # xs) buf = until0 (overlay x buf) @ reprint xs (overlay x buf)"

definition iterating_text :: "kmem \<Rightarrow> nat \<Rightarrow> bytes" where
  "iterating_text m mem_map =
     render (\<lambda>_. []) iterating_ts [ucast (tag_size m mem_map), ucast (tag_size m mem_map div EntrySize m mem_map)]"

definition entry_text :: "kmem \<Rightarrow> nat \<Rightarrow> bytes" where
  "entry_text m p = render (\<lambda>_. []) entry_ts [entry_Base m p, entry_Length m p, ucast (entry_Type m p)]"

definition hole_text :: "u64 \<Rightarrow> bytes" where
  "hole_text base = render (\<lambda>_. []) hole_ts [base]"

definition no_hole_msg :: bytes where
  "no_hole_msg = ascii ''Cannot find a suitable temporary memory hole (>=2MiB @1MiB).''"

lemma length_line_at [simp]: "length (line_at m a n) = n"
  by (simp add: line_at_def)

lemma overlay_first: "x \<noteq> [] \<Longrightarrow> overlay x (buf[0 := v]) = overlay x buf"
  by (cases x; cases buf) (simp_all add: overlay_def)

lemma cstring_until0:
  assumes "i < n" and "m (a + i) = 0"
  shows "cstring m a (until0 (line_at m a n))"
proof -
  let ?l = "length (until0 (line_at m a n))"
  have "\<exists>b \<in> set (line_at m a n). b = 0" using assms by (force simp: line_at_def)
  then have "until0 (line_at m a n) \<noteq> line_at m a n" by (auto simp: until0_def takeWhile_eq_all_conv)
  moreover have "line_at m a n = until0 (line_at m a n) @ dropWhile (\<lambda>b. b \<noteq> 0) (line_at m a n)" by (simp add: until0_def)
  ultimately have l: "?l < n" using length_takeWhile_le [of "\<lambda>b. b \<noteq> 0" "line_at m a n"]
    by (metis append_Nil2 append_eq_conv_conj le_neq_implies_less length_line_at take_all_iff until0_def order_refl)
  then have "line_at m a n ! ?l = 0" using nth_length_takeWhile [of "\<lambda>b. b \<noteq> 0" "line_at m a n"] by (auto simp: until0_def)
  then have "m (a + ?l) = 0" using l by (simp add: line_at_def)
  moreover have "m (a + j) = until0 (line_at m a n) ! j" if "j < ?l" for j
    using that l takeWhile_nth [of j "\<lambda>b. b \<noteq> 0" "line_at m a n"] by (simp add: until0_def line_at_def)
  moreover have "0 \<notin> set (until0 (line_at m a n))" by (auto simp: until0_def dest: set_takeWhileD)
  ultimately show ?thesis by (simp add: cstring_def)
qed

section \<open>Lengths of the lines\<close>

lemma length_hex: "length (number (hex_digits b x)) \<le> 8"
proof -
  have "unat x < 16 ^ 8" using unat_u32 [of x] by simp
  then have "length (digits 16 (unat x)) \<le> 8" by (rule digits_less)
  then show ?thesis by (simp add: number_def hex_digits_def)
qed

lemma length_dec: "n < 2 ^ 32 \<Longrightarrow> length (number (dec_digits n)) \<le> 10"
  using digits_less [of n 10 10] by (simp add: number_def dec_digits_def)

lemma length_plain: "length (render S (plain t @ ts) as) = length t + length (render S ts as)"
  by (induction t) (simp_all add: plain_def ascii_def)

lemma nat_sint_u32: "nat (sint (x :: u32)) < 2 ^ 32"
  using sint_lt [of x] by simp

lemma length_texts: "length (iterating_text m p) < 256" "length (entry_text m p) < 256" "length (hole_text b) < 256"
proof -
  note dec = length_dec [OF unat_u32] length_dec [OF nat_sint_u32]
  show "length (iterating_text m p) < 256"
    using dec(1) [of "ucast (ucast (tag_size m p) :: u64)"] dec(1) [of "ucast (ucast (tag_size m p div EntrySize m p) :: u64)"]
    by (simp add: iterating_text_def iterating_ts_def length_plain)
  show "length (entry_text m p) < 256"
    using length_hex [of True "ucast (entry_Base m p)"] length_hex [of True "ucast (entry_Length m p)"] dec(2) [of "ucast (ucast (entry_Type m p) :: u64)"]
    by (simp add: entry_text_def entry_ts_def length_plain)
  show "length (hole_text b) < 256"
    using length_hex [of True "ucast b"] by (simp add: hole_text_def hole_ts_def length_plain)
qed

lemma entry_text_nonempty: "entry_text m p \<noteq> []"
  by (simp add: entry_text_def entry_ts_def plain_def ascii_def)

section \<open>One line\<close>

lemma print_and_send:
  assumes "sending_device dev" and "uart_enabled u" and "line \<noteq> 0" and "supported ts args" and "string_args ts args = {}"
    and "frame_ok fr line limit" and "m (hex_as_str fr + 16) = 0" and "0 \<le> limit" and "length (render (\<lambda>_. []) ts args) < nat limit"
    and "m (line + (nat limit - 1)) = 0"
  shows "\<exists>r m' t. snprintf fr line limit (concat (map encode ts) @ [0]) args m = Some (r, m')
    \<and> uart_puts dev line (u\<lparr>mem := m'\<rparr>) = Some (u\<lparr>mem := m', ports := ports u @ t\<rparr>)
    \<and> sent t = until0 (overlay (render (\<lambda>_. []) ts args) (line_at m line (nat limit)))
    \<and> line_at m' line (nat limit) = overlay (render (\<lambda>_. []) ts args) (line_at m line (nat limit))
    \<and> m' (hex_as_str fr + 16) = 0 \<and> m' (line + (nat limit - 1)) = 0
    \<and> (\<forall>p. \<not> in_locals fr p \<and> \<not> (line \<le> p \<and> p < line + nat limit) \<longrightarrow> m' p = m p)"
proof -
  let ?x = "render (\<lambda>_. []) ts args" and ?n = "nat limit"
  obtain r m' where m': "snprintf fr line limit (concat (map encode ts) @ [0]) args m = Some (r, m')"
    and w: "\<And>p. \<not> in_locals fr p \<Longrightarrow> m' p = write_bytes line ?x m p"
    using line_print [of ts args fr line limit m, OF assms(4-8) refl] assms(9) by (auto simp: less_imp_le)
  have apart: "\<not> in_locals fr (line + i)" if "i < ?n" for i
    using assms(6) that by (auto simp: frame_ok_def in_locals_def)
  have buf: "line_at m' line ?n = overlay ?x (line_at m line ?n)"
    using assms(9) w [OF apart] by (intro nth_equalityI) (auto simp: line_at_def overlay_def write_bytes_def nth_append)
  have last: "m' (line + (?n - 1)) = 0" using assms(9,10) w [OF apart, of "?n - 1"] by (auto simp: write_bytes_def)
  have "\<not> in_locals fr (hex_as_str fr + 16)" and "\<not> (line \<le> hex_as_str fr + 16 \<and> hex_as_str fr + 16 < line + ?n)"
    using assms(6) by (auto simp: frame_ok_def)
  then have "m' (hex_as_str fr + 16) = 0" using assms(7,9) w [of "hex_as_str fr + 16"] by (auto simp: write_bytes_def)
  moreover have "cstring m' line (until0 (line_at m' line ?n))" using assms(9) last by (intro cstring_until0 [of "?n - 1"]) auto
  then have "\<exists>t. uart_puts dev line (u\<lparr>mem := m'\<rparr>) = Some (u\<lparr>mem := m', ports := ports u @ t\<rparr>) \<and> sent t = until0 (line_at m' line ?n)"
    using uart_puts_text [OF assms(1), of "u\<lparr>mem := m'\<rparr>" line] assms(2,3) by fastforce
  moreover have "m' p = m p" if "\<not> in_locals fr p" "\<not> (line \<le> p \<and> p < line + ?n)" for p
    using w [OF that(1)] that(2) assms(9) by (auto simp: write_bytes_def)
  ultimately show ?thesis using m' buf last by auto
qed

section \<open>The loop\<close>

text \<open>Memory still holds the header of the map and its entries from \<open>k\<close> on.\<close>

definition ahead :: "kmem \<Rightarrow> kmem \<Rightarrow> nat \<Rightarrow> nat \<Rightarrow> nat \<Rightarrow> nat \<Rightarrow> nat \<Rightarrow> bool" where
  "ahead m0 m a len mem_map E k \<longleftrightarrow>
     (\<forall>p. a \<le> p \<and> p < a + len \<and> (p < mem_map + 16 \<or> entry_at mem_map E k \<le> p) \<longrightarrow> m p = m0 p)"

lemma ahead_reads:
  assumes "ahead m0 m a len mem_map E k" and "map_geometry m0 a len mem_map E n" and "k \<le> n"
  shows "tag_size m mem_map = tag_size m0 mem_map" and "EntrySize m mem_map = EntrySize m0 mem_map"
    and "k < n \<Longrightarrow> entry_Base m (entry_at mem_map E k) = entry_Base m0 (entry_at mem_map E k)"
    and "k < n \<Longrightarrow> entry_Length m (entry_at mem_map E k) = entry_Length m0 (entry_at mem_map E k)"
    and "k < n \<Longrightarrow> entry_Type m (entry_at mem_map E k) = entry_Type m0 (entry_at mem_map E k)"
proof -
  have head: "same_block mem_map 16 m0 m"
    using assms(1,2) by (auto simp: ahead_def same_block_def map_geometry_def)
  show "tag_size m mem_map = tag_size m0 mem_map" and "EntrySize m mem_map = EntrySize m0 mem_map"
    by (simp_all add: tag_size_def EntrySize_def rd32_same [OF head])
  assume k: "k < n"
  have entry: "same_block (entry_at mem_map E k) 24 m0 m"
    using assms(1) entry_inside [OF assms(2) k] by (auto simp: ahead_def same_block_def)
  show "entry_Base m (entry_at mem_map E k) = entry_Base m0 (entry_at mem_map E k)"
    and "entry_Length m (entry_at mem_map E k) = entry_Length m0 (entry_at mem_map E k)"
    and "entry_Type m (entry_at mem_map E k) = entry_Type m0 (entry_at mem_map E k)"
    by (simp_all add: entry_Base_def entry_Length_def entry_Type_def rd64_same [OF entry] rd32_same [OF entry])
qed

lemma ahead_next: "ahead m0 m a len mem_map E k \<Longrightarrow> ahead m0 m a len mem_map E (Suc k)"
  by (auto simp: ahead_def entry_at_def)

lemma ahead_mark:
  assumes "ahead m0 m a len mem_map E k" and "24 \<le> E"
  shows "ahead m0 (wr32 (entry_at mem_map E k + 16) v m) a len mem_map E (Suc k)"
  using assms by (auto simp: ahead_def wr32_def entry_at_def)

text \<open>The context after the entries at \<open>ps\<close> have been considered.\<close>

definition chosen :: "kmem \<Rightarrow> crows_context \<Rightarrow> nat list \<Rightarrow> crows_context" where
  "chosen m ctx ps =
     (if kmem_base ctx \<noteq> 0 then ctx
      else case find (suitable m) ps of None \<Rightarrow> ctx
        | Some p \<Rightarrow> ctx\<lparr>kmem_base := entry_Base m p, kmem_len := entry_Length m p\<rparr>)"

lemma suitable_base: "suitable m p \<Longrightarrow> entry_Base m p \<noteq> 0"
  by (auto simp: suitable_def)

lemma chosen_Cons:
  "chosen m ctx (p # ps) =
     chosen m (if kmem_base ctx = 0 \<and> suitable m p then ctx\<lparr>kmem_base := entry_Base m p, kmem_len := entry_Length m p\<rparr> else ctx) ps"
  by (auto simp: chosen_def suitable_base)

lemma sint_type_nonneg:
  assumes "(t :: u32) < 2 ^ 31"
  shows "0 \<le> sint (ucast (ucast t :: u64) :: u32)"
proof -
  have "unat t div 2 ^ 31 = 0" using assms by (simp add: word_less_nat_alt)
  then have "\<not> bit (unat t) 31" by (simp only: bit_iff_odd) simp
  then have "\<not> bit t (LENGTH(32) - Suc 0)" by (simp add: bit_unsigned_iff)
  then have "0 \<le> sint t" by (simp only: bit_last_iff not_less)
  moreover have "ucast (ucast t :: u64) = t" by (rule bit_word_eqI) (simp add: bit_simps)
  ultimately show ?thesis by (simp only:)
qed

text \<open>What the pass over one entry does.\<close>

lemma one_entry:
  assumes dev: "sending_device dev" and fr: "frame_ok fr line 256" and geo: "map_geometry m0 a len mem_map E n"
    and stack: "stack_apart fr line a len" and hex: "\<not> (a \<le> hex_as_str fr + 16 \<and> hex_as_str fr + 16 < a + len)"
    and type: "entry_Type m0 (entry_at mem_map E k) < 2 ^ 31" and k: "k < n"
    and on: "uart_enabled s" and h: "mem s (hex_as_str fr + 16) = 0" and z: "mem s (line + 255) = 0"
    and ahead: "ahead m0 (mem s) a len mem_map E k"
  shows "\<exists>s' t. kinit_loop dev fr line mem_map (entry_at mem_map E k) ctx s =
      kinit_loop dev fr line mem_map (entry_at mem_map E (Suc k))
        (if kmem_base ctx = 0 \<and> suitable m0 (entry_at mem_map E k)
         then ctx\<lparr>kmem_base := entry_Base m0 (entry_at mem_map E k), kmem_len := entry_Length m0 (entry_at mem_map E k)\<rparr> else ctx) s'
    \<and> ports s' = ports s @ t \<and> sent t = until0 (overlay (entry_text m0 (entry_at mem_map E k)) (line_at (mem s) line 256))
    \<and> line_at (mem s') line 256 = overlay (entry_text m0 (entry_at mem_map E k)) (line_at (mem s) line 256)
    \<and> uart_enabled s' \<and> mem s' (hex_as_str fr + 16) = 0 \<and> mem s' (line + 255) = 0 \<and> ahead m0 (mem s') a len mem_map E (Suc k)
    \<and> (\<forall>p. \<not> touchable fr line 256 p \<and> \<not> (a \<le> p \<and> p < a + len) \<longrightarrow> mem s' p = mem s p)"
proof -
  let ?p = "entry_at mem_map E k"
  define m1 where "m1 = (mem s)(line := 0)"
  have line: "line \<noteq> 0" "\<And>p. a \<le> p \<Longrightarrow> p < a + len \<Longrightarrow> \<not> touchable fr line 256 p" using stack by (auto simp: stack_apart_def)
  note reads = ahead_reads [OF ahead geo less_imp_le [OF k]]
  have E: "24 \<le> E" using geo by (simp add: map_geometry_def)
  have "k * E < n * E" using k E by simp
  then have lt: "?p < mem_map + unat (tag_size (mem s) mem_map)" using reads(1) geo by (simp add: map_geometry_def entry_at_def)
  obtain cs where "cstring (mem s) line cs" using cstring_exists [of "mem s" line 255, OF z] by blast
  then have clear: "clear_loop line 0 (mem s) = Some m1" unfolding m1_def by (rule clear_loop_first [OF line(1)])
  have "ahead m0 m1 a len mem_map E k" using ahead line(2) [of line] by (auto simp: ahead_def touchable_def m1_def)
  note reads1 = ahead_reads [OF this geo less_imp_le [OF k]]
  have h1: "m1 (hex_as_str fr + 16) = 0" and z1: "m1 (line + (nat 256 - 1)) = 0" using h z by (simp_all add: m1_def)
  have sup: "supported entry_ts [entry_Base m0 ?p, entry_Length m0 ?p, ucast (entry_Type m0 ?p)]"
    using sint_type_nonneg [OF type] by (simp add: entry_ts_def plain_def ascii_def)
  have buf1: "overlay (entry_text m0 ?p) (line_at m1 line 256) = overlay (entry_text m0 ?p) (line_at (mem s) line 256)"
  proof -
    have "line_at m1 line 256 = (line_at (mem s) line 256)[0 := 0]"
      by (rule nth_equalityI) (simp_all add: line_at_def nth_list_update m1_def)
    then show ?thesis by (simp add: overlay_first entry_text_nonempty)
  qed
  obtain r m' t where m': "snprintf fr line 256 (concat (map encode entry_ts) @ [0]) [entry_Base m0 ?p, entry_Length m0 ?p, ucast (entry_Type m0 ?p)] m1 = Some (r, m')"
    and puts: "uart_puts dev line (s\<lparr>mem := m'\<rparr>) = Some (s\<lparr>mem := m', ports := ports s @ t\<rparr>)"
    and t: "sent t = until0 (overlay (entry_text m0 ?p) (line_at (mem s) line 256))"
    and buf: "line_at m' line 256 = overlay (entry_text m0 ?p) (line_at (mem s) line 256)"
    and h': "m' (hex_as_str fr + 16) = 0" and z': "m' (line + 255) = 0"
    and out: "\<And>p. \<not> in_locals fr p \<Longrightarrow> \<not> (line \<le> p \<and> p < line + 256) \<Longrightarrow> m' p = m1 p"
    using print_and_send [OF dev on line(1) sup entry_ts(3) fr h1 _ _ z1] length_texts(2) [of m0 ?p]
    unfolding entry_text_def [symmetric] by (auto simp: buf1)
  have same: "m' p = mem s p" if "\<not> touchable fr line 256 p" for p
    using out [of p] that by (auto simp: touchable_def m1_def)
  have ahead': "ahead m0 m' a len mem_map E k" using ahead same line(2) by (auto simp: ahead_def)
  note reads' = ahead_reads [OF ahead' geo less_imp_le [OF k]]
  let ?s1 = "s\<lparr>mem := m', ports := ports s @ t\<rparr>" and ?take = "kmem_base ctx = 0 \<and> suitable m0 ?p"
  let ?s' = "if ?take then ?s1\<lparr>mem := wr32 (?p + 16) 2 m'\<rparr> else ?s1"
  let ?ctx = "if ?take then ctx\<lparr>kmem_base := entry_Base m0 ?p, kmem_len := entry_Length m0 ?p\<rparr> else ctx"
  have "suitable m' ?p = suitable m0 ?p" using reads'(3-5) k by (simp add: suitable_def)
  then have took: "consider_entry ?p ctx ?s1 = (?ctx, ?s')" using reads'(3,4) k by (simp add: consider_entry_cases)
  have aheadn: "ahead m0 (mem ?s') a len mem_map E (Suc k)" using ahead_mark [OF ahead' E] ahead_next [OF ahead'] by simp
  have inside: "a \<le> ?p + i \<and> ?p + i < a + len" if "i < 24" for i using entry_inside [OF geo k] that by simp
  have mark: "mem ?s' p = m' p" if "\<not> (a \<le> p \<and> p < a + len)" for p
    using that inside [of 16] inside [of 17] inside [of 18] inside [of 19] by (auto simp: wr32_def)
  have line': "mem ?s' (line + i) = m' (line + i)" if "i < 256" for i
    using line(2) [of "line + i"] that by (intro mark) (auto simp: touchable_def)
  have "?p + unat (EntrySize (mem ?s') mem_map) = entry_at mem_map E (Suc k)"
    using ahead_reads(2) [OF aheadn geo] k geo by (simp add: map_geometry_def entry_at_def)
  then have "kinit_loop dev fr line mem_map ?p ctx s = kinit_loop dev fr line mem_map (entry_at mem_map E (Suc k)) ?ctx ?s'"
    using lt clear m' puts took reads1(3-5) k by (subst kinit_loop.simps) (simp only: if_True option.case prod.case Let_def entry_ts(1))
  moreover have "ports ?s' = ports s @ t" and "uart_enabled ?s'" using on by simp_all
  moreover have "line_at (mem ?s') line 256 = overlay (entry_text m0 ?p) (line_at (mem s) line 256)"
    unfolding buf [symmetric] using line' by (simp add: line_at_def)
  moreover have "mem ?s' (hex_as_str fr + 16) = 0" using mark [OF hex] h' by simp
  moreover have "mem ?s' (line + 255) = 0" using line' [of 255] z' by simp
  moreover have "\<forall>p. \<not> touchable fr line 256 p \<and> \<not> (a \<le> p \<and> p < a + len) \<longrightarrow> mem ?s' p = mem s p"
    by (intro allI impI, elim conjE) (rule trans [OF mark same])
  ultimately show ?thesis using t aheadn by (intro exI [of _ ?s'] exI [of _ t] conjI)
qed

text \<open>The whole loop.\<close>

lemma kinit_loop_reports:
  assumes dev: "sending_device dev" and fr: "frame_ok fr line 256" and geo: "map_geometry m0 a len mem_map E n"
    and stack: "stack_apart fr line a len" and hex: "\<not> (a \<le> hex_as_str fr + 16 \<and> hex_as_str fr + 16 < a + len)"
    and type: "\<And>k. k < n \<Longrightarrow> entry_Type m0 (entry_at mem_map E k) < 2 ^ 31"
  shows "k \<le> n \<Longrightarrow> uart_enabled s \<Longrightarrow> mem s (hex_as_str fr + 16) = 0 \<Longrightarrow> mem s (line + 255) = 0 \<Longrightarrow>
    ahead m0 (mem s) a len mem_map E k \<Longrightarrow>
    \<exists>s' t. kinit_loop dev fr line mem_map (entry_at mem_map E k) ctx s =
        Some (chosen m0 ctx (map (entry_at mem_map E) [k..<n]), s')
    \<and> ports s' = ports s @ t
    \<and> sent t = reprint (map (\<lambda>i. entry_text m0 (entry_at mem_map E i)) [k..<n]) (line_at (mem s) line 256)
    \<and> uart_enabled s' \<and> mem s' (hex_as_str fr + 16) = 0
    \<and> (\<forall>p. \<not> touchable fr line 256 p \<and> \<not> (a \<le> p \<and> p < a + len) \<longrightarrow> mem s' p = mem s p)"
proof (induction "n - k" arbitrary: k ctx s)
  case 0
  then have k: "k = n" by simp
  have "unat (tag_size (mem s) mem_map) = 16 + n * E"
    using ahead_reads(1) [OF 0(6) geo] 0(2) geo by (simp add: map_geometry_def)
  then have "kinit_loop dev fr line mem_map (entry_at mem_map E k) ctx s = Some (ctx, s)"
    using k by (subst kinit_loop.simps) (simp add: entry_at_def)
  then show ?case using 0 k by (intro exI [of _ s] exI [of _ "[]"]) (simp add: chosen_def sent_def)
next
  case (Suc d)
  have k: "k < n" using Suc(2) by simp
  then have range: "[k..<n] = k # [Suc k..<n]" by (simp add: upt_conv_Cons)
  let ?p = "entry_at mem_map E k"
  let ?ctx = "if kmem_base ctx = 0 \<and> suitable m0 ?p then ctx\<lparr>kmem_base := entry_Base m0 ?p, kmem_len := entry_Length m0 ?p\<rparr> else ctx"
  obtain s1 t1 where step: "kinit_loop dev fr line mem_map ?p ctx s = kinit_loop dev fr line mem_map (entry_at mem_map E (Suc k)) ?ctx s1"
    and t1: "ports s1 = ports s @ t1" "sent t1 = until0 (overlay (entry_text m0 ?p) (line_at (mem s) line 256))"
    and buf: "line_at (mem s1) line 256 = overlay (entry_text m0 ?p) (line_at (mem s) line 256)"
    and ok: "uart_enabled s1" "mem s1 (hex_as_str fr + 16) = 0" "mem s1 (line + 255) = 0" "ahead m0 (mem s1) a len mem_map E (Suc k)"
    and out: "\<forall>p. \<not> touchable fr line 256 p \<and> \<not> (a \<le> p \<and> p < a + len) \<longrightarrow> mem s1 p = mem s p"
    using one_entry [OF dev fr geo stack hex type [OF k] k Suc(4-7)] by blast
  have "d = n - Suc k" "Suc k \<le> n" using Suc(2) by simp_all
  from Suc(1) [OF this ok] obtain s2 t2 where
    rest: "kinit_loop dev fr line mem_map (entry_at mem_map E (Suc k)) ?ctx s1 = Some (chosen m0 ?ctx (map (entry_at mem_map E) [Suc k..<n]), s2)"
    and t2: "ports s2 = ports s1 @ t2"
      "sent t2 = reprint (map (\<lambda>i. entry_text m0 (entry_at mem_map E i)) [Suc k..<n]) (line_at (mem s1) line 256)"
    and ok2: "uart_enabled s2" "mem s2 (hex_as_str fr + 16) = 0"
    and out2: "\<forall>p. \<not> touchable fr line 256 p \<and> \<not> (a \<le> p \<and> p < a + len) \<longrightarrow> mem s2 p = mem s1 p" by blast
  have "kinit_loop dev fr line mem_map ?p ctx s = Some (chosen m0 ctx (map (entry_at mem_map E) [k..<n]), s2)"
    unfolding step rest range list.map chosen_Cons by (rule refl)
  moreover have "ports s2 = ports s @ t1 @ t2" using t1(1) t2(1) by simp
  moreover have "sent (t1 @ t2) = reprint (map (\<lambda>i. entry_text m0 (entry_at mem_map E i)) [k..<n]) (line_at (mem s) line 256)"
    unfolding range list.map reprint.simps buf [symmetric] t1(2) [unfolded buf [symmetric], symmetric] t2(2) [symmetric] by (simp add: sent_def)
  moreover have "\<forall>p. \<not> touchable fr line 256 p \<and> \<not> (a \<le> p \<and> p < a + len) \<longrightarrow> mem s2 p = mem s p" using out out2 by metis
  ultimately show ?case using ok2 by blast
qed

section \<open>The report of \<open>kinit\<close>\<close>

definition entries :: "nat \<Rightarrow> nat \<Rightarrow> nat \<Rightarrow> nat list" where
  "entries mem_map E n = map (entry_at mem_map E) [0..<n]"

text \<open>
  What \<open>kinit\<close> needs of its surroundings: a memory map of \<open>n\<close> whole entries of types below \<open>2 ^ 31\<close> inside the information block
  (the type is printed as a signed number), the stack apart from the block, and two bytes that the code relies on without writing
  them: the one behind the hexadecimal digits of \<open>snprintf\<close> and the last of the line buffer are 0.
\<close>

definition kinit_setting :: "frame \<Rightarrow> nat \<Rightarrow> kmem \<Rightarrow> nat \<Rightarrow> nat \<Rightarrow> nat \<Rightarrow> nat \<Rightarrow> nat \<Rightarrow> bool" where
  "kinit_setting fr line m info len mem_map E n \<longleftrightarrow>
     info \<noteq> 0 \<and> multiboot2_seek_tag m MBI_MEMORY_MAP info = Some mem_map \<and> map_geometry m info len mem_map E n
     \<and> list_all (\<lambda>p. entry_Type m p < 2 ^ 31) (entries mem_map E n)
     \<and> frame_ok fr line 256 \<and> stack_apart fr line info len \<and> \<not> (info \<le> hex_as_str fr + 16 \<and> hex_as_str fr + 16 < info + len)
     \<and> m (hex_as_str fr + 16) = 0 \<and> m (line + 255) = 0"

text \<open>The pool is apart from what the report touches.\<close>

definition pool_apart :: "frame \<Rightarrow> nat \<Rightarrow> nat \<Rightarrow> nat \<Rightarrow> nat \<Rightarrow> nat \<Rightarrow> bool" where
  "pool_apart fr line info len base L \<longleftrightarrow>
     (\<forall>q. base \<le> q \<and> q < base + L \<longrightarrow> \<not> touchable fr line 256 q \<and> \<not> (info \<le> q \<and> q < info + len))"

definition map_report :: "kmem \<Rightarrow> nat \<Rightarrow> nat \<Rightarrow> nat \<Rightarrow> nat \<Rightarrow> bytes" where
  "map_report m line mem_map E n =
     reprint (iterating_text m mem_map # map (entry_text m) (entries mem_map E n)) (line_at m line 256)"

lemma kinit_prologue:
  assumes dev: "sending_device dev" and on: "uart_enabled s" and set: "kinit_setting fr line (mem s) info len mem_map E n"
    and ctx: "kmem_base ctx = 0"
  shows "\<exists>m t u s' r. multiboot2_seek_tag (mem s) MBI_MEMORY_MAP info = Some mem_map \<and> mem_map \<noteq> 0 \<and> EntrySize (mem s) mem_map \<noteq> 0
    \<and> snprintf fr line 256 (concat (map encode iterating_ts) @ [0])
        [ucast (tag_size (mem s) mem_map), ucast (tag_size (mem s) mem_map div EntrySize (mem s) mem_map)] (mem s) = Some (r, m)
    \<and> uart_puts dev line (s\<lparr>mem := m\<rparr>) = Some u
    \<and> kinit_loop dev fr line mem_map (mem_map + 16) (ctx\<lparr>memory_map := mem_map\<rparr>) u =
        Some (chosen (mem s) (ctx\<lparr>memory_map := mem_map\<rparr>) (entries mem_map E n), s')
    \<and> ports s' = ports s @ t \<and> sent t = map_report (mem s) line mem_map E n \<and> uart_enabled s' \<and> mem s' (hex_as_str fr + 16) = 0
    \<and> (\<forall>p. \<not> touchable fr line 256 p \<and> \<not> (info \<le> p \<and> p < info + len) \<longrightarrow> mem s' p = mem s p)"
proof -
  let ?m0 = "mem s"
  have geo: "map_geometry ?m0 info len mem_map E n" and fr: "frame_ok fr line 256" and stack: "stack_apart fr line info len"
    and hex: "\<not> (info \<le> hex_as_str fr + 16 \<and> hex_as_str fr + 16 < info + len)"
    and type: "\<And>k. k < n \<Longrightarrow> entry_Type ?m0 (entry_at mem_map E k) < 2 ^ 31"
    and z: "?m0 (hex_as_str fr + 16) = 0" "?m0 (line + 255) = 0" and seek: "multiboot2_seek_tag ?m0 MBI_MEMORY_MAP info = Some mem_map"
    using set by (simp_all add: kinit_setting_def entries_def list_all_iff)
  have ne: "mem_map \<noteq> 0" "EntrySize ?m0 mem_map \<noteq> 0" using set by (auto simp: kinit_setting_def map_geometry_def)
  have line: "line \<noteq> 0" "\<And>p. info \<le> p \<Longrightarrow> p < info + len \<Longrightarrow> \<not> touchable fr line 256 p" using stack by (auto simp: stack_apart_def)
  have lim: "(0 :: int) \<le> 256" "length (render (\<lambda>_. []) iterating_ts
      [ucast (tag_size ?m0 mem_map), ucast (tag_size ?m0 mem_map div EntrySize ?m0 mem_map)]) < nat 256"
    using length_texts(1) [of ?m0 mem_map] by (simp_all add: iterating_text_def)
  have last: "?m0 (line + (nat 256 - 1)) = 0" using z(2) by simp
  obtain r m1 t1 where m1: "snprintf fr line 256 (concat (map encode iterating_ts) @ [0])
        [ucast (tag_size ?m0 mem_map), ucast (tag_size ?m0 mem_map div EntrySize ?m0 mem_map)] ?m0 = Some (r, m1)"
    and u: "uart_puts dev line (s\<lparr>mem := m1\<rparr>) = Some (s\<lparr>mem := m1, ports := ports s @ t1\<rparr>)"
    and t1: "sent t1 = until0 (overlay (iterating_text ?m0 mem_map) (line_at ?m0 line 256))"
    and buf: "line_at m1 line 256 = overlay (iterating_text ?m0 mem_map) (line_at ?m0 line 256)"
    and z1: "m1 (hex_as_str fr + 16) = 0" "m1 (line + 255) = 0"
    and out: "\<And>p. \<not> in_locals fr p \<Longrightarrow> \<not> (line \<le> p \<and> p < line + 256) \<Longrightarrow> m1 p = ?m0 p"
    using print_and_send [OF dev on line(1) iterating_ts(2,3) fr z(1) lim last] unfolding iterating_text_def [symmetric] by auto
  have same: "m1 p = ?m0 p" if "\<not> touchable fr line 256 p" for p using out [of p] that by (auto simp: touchable_def)
  let ?u = "s\<lparr>mem := m1, ports := ports s @ t1\<rparr>"
  have "ahead ?m0 (mem ?u) info len mem_map E 0" using same line(2) by (auto simp: ahead_def)
  then obtain s' t where loop: "kinit_loop dev fr line mem_map (entry_at mem_map E 0) (ctx\<lparr>memory_map := mem_map\<rparr>) ?u =
        Some (chosen ?m0 (ctx\<lparr>memory_map := mem_map\<rparr>) (entries mem_map E n), s')"
    and t: "ports s' = ports ?u @ t" "sent t = reprint (map (\<lambda>i. entry_text ?m0 (entry_at mem_map E i)) [0..<n]) (line_at (mem ?u) line 256)"
    and s': "uart_enabled s'" "mem s' (hex_as_str fr + 16) = 0"
    and out': "\<forall>p. \<not> touchable fr line 256 p \<and> \<not> (info \<le> p \<and> p < info + len) \<longrightarrow> mem s' p = mem ?u p"
    using kinit_loop_reports [OF dev fr geo stack hex type, of 0 ?u "ctx\<lparr>memory_map := mem_map\<rparr>"] on z1 unfolding entries_def by auto
  have "sent (t1 @ t) = map_report ?m0 line mem_map E n"
    using t1 t(2) buf by (simp add: map_report_def entries_def comp_def)
  moreover have "ports s' = ports s @ (t1 @ t)" using t(1) by simp
  moreover have "\<forall>p. \<not> touchable fr line 256 p \<and> \<not> (info \<le> p \<and> p < info + len) \<longrightarrow> mem s' p = ?m0 p" using out' same by simp
  moreover have "kinit_loop dev fr line mem_map (mem_map + 16) (ctx\<lparr>memory_map := mem_map\<rparr>) ?u =
        Some (chosen ?m0 (ctx\<lparr>memory_map := mem_map\<rparr>) (entries mem_map E n), s')" using loop by (simp add: entry_at_def)
  ultimately show ?thesis using seek ne m1 u s' by blast
qed

text \<open>A block of 104 bytes with one region of 1 MiB at 2 MiB, of a given type, on a machine with the serial port on.\<close>

definition serial_on :: "kmem \<Rightarrow> machine" where
  "serial_on m = \<lparr>mem = m, ports = [], uart_enabled = True\<rparr>"

definition typed_block :: "8 word \<Rightarrow> kmem" where
  "typed_block t = block_mem 1000 (map_block[0 := 104, 40 := t])"

abbreviation "no_ctx \<equiv> \<lparr>memory_map = 0, kmem_base = 0, kmem_len = 0\<rparr>"

lemma typed_block_reads:
  "tag_size (typed_block t) 1008 = 40" "EntrySize (typed_block t) 1008 = 24" "entry_Base (typed_block t) 1024 = 0x200000"
  "entry_Length (typed_block t) 1024 = 0x100000" "entry_Type (typed_block t) 1024 = ucast t"
  by (simp_all add: entry_at_def entry_Base_def entry_Length_def entry_Type_def EntrySize_def tag_size_def rd64_def rd32_def
      typed_block_def block_mem_def map_block_def write_bytes_def)

lemma typed_block_setting: "kinit_setting kernel_frame 5000 (typed_block t) 1000 112 1008 24 1"
proof -
  have "unat t < 256" using unsigned_less [of t, where 'a = nat] by simp
  then have "(ucast t :: u32) < 2 ^ 31" by (simp add: word_less_nat_alt unsigned_ucast_eq take_bit_eq_mod)
  moreover have "typed_block t (hex_as_str kernel_frame + 16) = 0" "typed_block t 5255 = 0"
    by (simp_all add: typed_block_def block_mem_def kernel_frame_def map_block_def write_bytes_def)
  moreover have "multiboot2_seek_tag (typed_block t) MBI_MEMORY_MAP 1000 = Some 1008"
    by (simp add: multiboot2_seek_tag_def seek_loop.simps typed_block_def block_mem_def map_block_def write_bytes_def rd32_def
        tag_type_def tag_size_def)
  moreover have "stack_apart kernel_frame 5000 1000 112" by (simp add: stack_apart_def touchable_def in_locals_def kernel_frame_def)
  ultimately show ?thesis
    using kernel_frame_ok(1)
    by (simp add: kinit_setting_def map_geometry_def typed_block_reads entries_def entry_at_def)
       (simp add: kernel_frame_def)
qed

text \<open>When no entry of the map is a free region of 1 MiB from 2 MiB up, \<open>kinit\<close> still reports the whole map on a working serial
  port, then says that it found no memory hole and returns -1; the context keeps its empty pool.\<close>

theorem kinit_no_pool_reports:
  assumes "sending_device dev" and "uart_enabled s" and "kinit_setting fr line (mem s) info len mem_map E n" and "kmem_base ctx = 0"
    and "find (suitable (mem s)) (entries mem_map E n) = None"
  shows "\<exists>s' t. kinit dev fr line ctx info s = Some (- 1, ctx\<lparr>memory_map := mem_map\<rparr>, s') \<and> ports s' = ports s @ t
    \<and> sent t = map_report (mem s) line mem_map E n @ no_hole_msg \<and> uart_enabled s'"
proof -
  obtain m t u s1 r where pre: "multiboot2_seek_tag (mem s) MBI_MEMORY_MAP info = Some mem_map" "mem_map \<noteq> 0" "EntrySize (mem s) mem_map \<noteq> 0"
      "snprintf fr line 256 (concat (map encode iterating_ts) @ [0])
        [ucast (tag_size (mem s) mem_map), ucast (tag_size (mem s) mem_map div EntrySize (mem s) mem_map)] (mem s) = Some (r, m)"
      "uart_puts dev line (s\<lparr>mem := m\<rparr>) = Some u"
    and loop: "kinit_loop dev fr line mem_map (mem_map + 16) (ctx\<lparr>memory_map := mem_map\<rparr>) u =
        Some (chosen (mem s) (ctx\<lparr>memory_map := mem_map\<rparr>) (entries mem_map E n), s1)"
    and t: "ports s1 = ports s @ t" "sent t = map_report (mem s) line mem_map E n" "uart_enabled s1"
    using kinit_prologue [OF assms(1-4)] by blast
  have none: "chosen (mem s) (ctx\<lparr>memory_map := mem_map\<rparr>) (entries mem_map E n) = ctx\<lparr>memory_map := mem_map\<rparr>"
    using assms(5) by (simp add: chosen_def)
  obtain t2 where t2: "putc_all dev no_hole_msg s1 = Some (s1\<lparr>ports := ports s1 @ t2\<rparr>)" "sent t2 = no_hole_msg"
    using putc_all_sends [OF assms(1) t(3)] by blast
  have info: "info \<noteq> 0" using assms(3) by (simp add: kinit_setting_def)
  have "kinit dev fr line ctx info s = Some (- 1, ctx\<lparr>memory_map := mem_map\<rparr>, s1\<lparr>ports := ports s1 @ t2\<rparr>)"
    unfolding kinit_def no_hole_msg_def [symmetric] iterating_ts(1) using pre loop t2(1) t(3) info assms(4)
    by (simp add: none uart_puts_lit_def Let_def)
  then show ?thesis unfolding t(2) [symmetric] t2(2) [symmetric]
    using t(1,3) by (intro exI [of _ "s1\<lparr>ports := ports s1 @ t2\<rparr>"] exI [of _ "t @ t2"]) simp
qed

theorem kinit_no_pool_reports_witness:
  "\<exists>s' t. kinit slow_device kernel_frame 5000 no_ctx 1000 (serial_on (typed_block 2)) =
      Some (- 1, \<lparr>memory_map = 1008, kmem_base = 0, kmem_len = 0\<rparr>, s') \<and> ports s' = t
    \<and> sent t = map_report (typed_block 2) 5000 1008 24 1 @ no_hole_msg \<and> uart_enabled s'"
  using kinit_no_pool_reports [OF slow_device, of "serial_on (typed_block 2)" kernel_frame 5000 1000 112 1008 24 1 no_ctx]
    typed_block_setting [of 2]
  by (simp add: serial_on_def entries_def entry_at_def suitable_def typed_block_reads)

text \<open>When an entry of the map is a free region of 1 MiB from 2 MiB up, the pool is of a length that \<open>int\<close> holds and lies apart from the
  stack and the information block, and its last byte is 0, \<open>kinit\<close> returns 0 with the first such entry as its pool, filled with
  zeros. On the serial port it reports the whole map and then the text at the pool's address, in all the lines with what the
  line buffer and the pool held before.\<close>

theorem kinit_reports:
  assumes "sending_device dev" and "uart_enabled s" and "kinit_setting fr line (mem s) info len mem_map E n" and "kmem_base ctx = 0"
    and "find (suitable (mem s)) (entries mem_map E n) = Some p"
    and "base = unat (entry_Base (mem s) p)" and "L = unat (entry_Length (mem s) p)" and "L < 2 ^ 31" and "frame_ok fr base (int L)"
    and "pool_apart fr line info len base L" and "mem s (base + (L - 1)) = 0"
  shows "\<exists>s' t. kinit dev fr line ctx info s =
        Some (0, ctx\<lparr>memory_map := mem_map, kmem_base := entry_Base (mem s) p, kmem_len := entry_Length (mem s) p\<rparr>, s')
    \<and> ports s' = ports s @ t \<and> sent t = map_report (mem s) line mem_map E n
        @ until0 (overlay (hole_text (entry_Base (mem s) p)) (line_at (mem s) base L))
    \<and> line_at (mem s') base L = replicate L 0"
proof -
  obtain m t u s1 r where pre: "multiboot2_seek_tag (mem s) MBI_MEMORY_MAP info = Some mem_map" "mem_map \<noteq> 0" "EntrySize (mem s) mem_map \<noteq> 0"
      "snprintf fr line 256 (concat (map encode iterating_ts) @ [0])
        [ucast (tag_size (mem s) mem_map), ucast (tag_size (mem s) mem_map div EntrySize (mem s) mem_map)] (mem s) = Some (r, m)"
      "uart_puts dev line (s\<lparr>mem := m\<rparr>) = Some u"
    and loop: "kinit_loop dev fr line mem_map (mem_map + 16) (ctx\<lparr>memory_map := mem_map\<rparr>) u =
        Some (chosen (mem s) (ctx\<lparr>memory_map := mem_map\<rparr>) (entries mem_map E n), s1)"
    and t: "ports s1 = ports s @ t" "sent t = map_report (mem s) line mem_map E n" "uart_enabled s1"
    and h: "mem s1 (hex_as_str fr + 16) = 0"
    and out: "\<forall>p. \<not> touchable fr line 256 p \<and> \<not> (info \<le> p \<and> p < info + len) \<longrightarrow> mem s1 p = mem s p"
    using kinit_prologue [OF assms(1-4)] by blast
  let ?ctx = "ctx\<lparr>memory_map := mem_map, kmem_base := entry_Base (mem s) p, kmem_len := entry_Length (mem s) p\<rparr>"
  have some: "chosen (mem s) (ctx\<lparr>memory_map := mem_map\<rparr>) (entries mem_map E n) = ?ctx"
    using assms(4,5) by (simp add: chosen_def)
  have p: "suitable (mem s) p" using assms(5) by (auto simp: find_Some_iff)
  then have base: "base \<noteq> 0" "entry_Base (mem s) p \<noteq> 0" and L: "0x100000 \<le> L"
    using assms(6,7) by (auto simp: suitable_def word_le_nat_alt unat_eq_0)
  have limit: "sint (ucast (entry_Length (mem s) p) :: u32) = int L"
  proof -
    have "(ucast (entry_Length (mem s) p) :: u32) = of_nat L" using assms(7) by (simp add: of_nat_unat)
    moreover have "signed_take_bit 31 (int L) = int L" using assms(8) by (intro signed_take_bit_int_eq_self) simp_all
    ultimately show ?thesis by (simp add: signed_of_nat)
  qed
  have pool: "mem s1 q = mem s q" if "base \<le> q" "q < base + L" for q
  proof -
    show ?thesis using assms(10) out that by (simp add: pool_apart_def)
  qed
  then have pool_at: "line_at (mem s1) base L = line_at (mem s) base L" by (simp add: line_at_def)
  have last: "mem s1 (base + (nat (int L) - 1)) = 0" using pool [of "base + (L - 1)"] L assms(11) by simp
  have len: "length (render (\<lambda>_. []) hole_ts [entry_Base (mem s) p]) < nat (int L)" "(0 :: int) \<le> int L"
    using length_texts(3) [of "entry_Base (mem s) p"] L by (simp_all add: hole_text_def)
  obtain r2 m2 t2 where m2: "snprintf fr base (int L) (concat (map encode hole_ts) @ [0]) [entry_Base (mem s) p] (mem s1) = Some (r2, m2)"
    and puts: "uart_puts dev base (s1\<lparr>mem := m2\<rparr>) = Some (s1\<lparr>mem := m2, ports := ports s1 @ t2\<rparr>)"
    and t2: "sent t2 = until0 (overlay (hole_text (entry_Base (mem s) p)) (line_at (mem s) base L))"
    using print_and_send [OF assms(1) t(3) base(1) hole_ts(2,3) assms(9) h len(2,1) last]
    unfolding hole_text_def [symmetric] by (auto simp: pool_at)
  let ?s' = "s1\<lparr>mem := zero_bytes base L m2, ports := ports s1 @ t2\<rparr>"
  have info: "info \<noteq> 0" using assms(3) by (simp add: kinit_setting_def)
  have "of_nat base = entry_Base (mem s) p" using assms(6) by simp
  then have "kinit dev fr line ctx info s = Some (0, ?ctx, ?s')"
    unfolding kinit_def iterating_ts(1) hole_ts(1) using pre loop m2 puts info base limit
    by (simp add: some Let_def flip: assms(6,7))
  moreover have "line_at (mem ?s') base L = replicate L 0"
    by (rule nth_equalityI) (simp_all add: line_at_def zero_bytes_eq write_bytes_def)
  ultimately show ?thesis unfolding t(2) [symmetric] t2 [symmetric]
    using t(1) by (intro exI [of _ ?s'] exI [of _ "t @ t2"]) simp
qed

theorem kinit_reports_witness:
  "\<exists>s' t. kinit slow_device kernel_frame 5000 no_ctx 1000 (serial_on (typed_block 1)) =
      Some (0, \<lparr>memory_map = 1008, kmem_base = 0x200000, kmem_len = 0x100000\<rparr>, s') \<and> ports s' = t
    \<and> sent t = map_report (typed_block 1) 5000 1008 24 1 @ until0 (overlay (hole_text 0x200000) (line_at (typed_block 1) 0x200000 0x100000))
    \<and> line_at (mem s') 0x200000 0x100000 = replicate 0x100000 0"
proof -
  have "pool_apart kernel_frame 5000 1000 112 0x200000 0x100000"
    by (auto simp: pool_apart_def touchable_def in_locals_def kernel_frame_def)
  moreover have "typed_block 1 (0x200000 + (0x100000 - 1)) = 0"
    by (simp add: typed_block_def block_mem_def map_block_def write_bytes_def)
  moreover have "find (suitable (typed_block 1)) (entries 1008 24 1) = Some 1024"
    by (simp add: entries_def entry_at_def suitable_def typed_block_reads)
  ultimately show ?thesis
    using kinit_reports [OF slow_device, where s = "serial_on (typed_block 1)" and fr = kernel_frame and line = 5000 and info = 1000
        and len = 112 and mem_map = 1008 and E = 24 and n = 1 and ctx = no_ctx and p = 1024 and base = "0x200000" and L = "0x100000"]
      typed_block_setting [of 1] kernel_frame_ok(2)
    by (simp add: serial_on_def typed_block_reads)
qed

text \<open>The second line is sent with the end of the first one, which is longer.\<close>

lemma until0_padded:
  assumes "0 \<notin> set x"
  shows "until0 (x @ replicate n 0) = x"
proof -
  have "takeWhile (\<lambda>b. b \<noteq> 0) (x @ ys) = x @ takeWhile (\<lambda>b. b \<noteq> 0) ys" for ys
    by (rule takeWhile_append2) (use assms in auto)
  then show ?thesis using assms by (cases n) (auto simp: until0_def takeWhile_eq_all_conv)
qed

lemma reprint_two:
  assumes "0 \<notin> set x" and "0 \<notin> set y" and "length y \<le> length x"
  shows "reprint [x, y] (replicate n 0) = x @ y @ drop (length y) x"
proof -
  have "overlay y (x @ ys) = (y @ drop (length y) x) @ ys" for ys using assms(3) by (simp add: overlay_def)
  moreover have "0 \<notin> set (y @ drop (length y) x)" using assms(1,2) by (auto dest: in_set_dropD)
  moreover have "overlay x (replicate n 0) = x @ replicate (n - length x) 0" by (simp add: overlay_def)
  ultimately show ?thesis using until0_padded [OF assms(1)] by (simp add: until0_padded del: append_assoc)
qed

lemma map_report_tail:
  "map_report (typed_block 1) 5000 1008 24 1 =
     ascii ''Iterating Memory Map provided by Multiboot2 (40 bytes, 1 entries).'' @ crlf
     @ ascii ''   Base 0x200000 -- Length 0x100000 -- Type 1'' @ crlf @ ascii '' bytes, 1 entries).'' @ crlf"
proof -
  have line: "line_at (typed_block 1) 5000 256 = replicate 256 0"
    by (rule nth_equalityI) (simp_all add: line_at_def typed_block_def block_mem_def map_block_def write_bytes_def)
  have one: "iterating_text (typed_block 1) 1008 = ascii ''Iterating Memory Map provided by Multiboot2 (40 bytes, 1 entries).'' @ crlf"
    by (simp add: iterating_text_def iterating_ts_def plain_def ascii_def typed_block_reads number_def dec_digits_def digit_char_def digits.simps)
  have two: "entry_text (typed_block 1) 1024 = ascii ''   Base 0x200000 -- Length 0x100000 -- Type 1'' @ crlf"
    by (simp add: entry_text_def entry_ts_def plain_def ascii_def typed_block_reads number_def dec_digits_def hex_digits_def digit_char_def digits.simps)
  have "entries 1008 24 1 = [1024]" by (simp add: entries_def entry_at_def)
  then show ?thesis
    unfolding map_report_def line one two list.map
    by (simp only: list.map one two) (subst reprint_two, simp_all add: ascii_def)
qed

end
