(* ===== verification/Kernel_Boot.thy ===== *)
theory Kernel_Boot
  imports Kernel_Report
begin

text \<open>
  A whole run of the kernel: \<open>kmain\<close> up to its return, composed of the banner, the note about the information block, and the report
  of \<open>kinit\<close>.
\<close>

section \<open>The information block is left alone\<close>

text \<open>A search that ends does so in any memory that has the same block, with eight bytes behind it for the header of a last tag.\<close>

lemma seek_same:
  assumes "multiboot2_seek_tag m ty info = Some r" and "same_block info len m m'" and "unat (rd32 m info) + 8 \<le> len"
  shows "multiboot2_seek_tag m' ty info = Some r"
proof (cases "info = 0")
  case False
  have size: "rd32 m' info = rd32 m info" using assms(2,3) by (intro rd32_same) auto
  have reads: "tag_type m' p = tag_type m p" "tag_size m' p = tag_size m p" if "info \<le> p" "p < info + unat (rd32 m info)" for p
    unfolding tag_type_def tag_size_def using assms(3) that by (auto intro: rd32_same [OF assms(2)])
  have "seek_loop m (tag_code ty) info (info + 8) = Some r" using assms(1) False by (simp add: multiboot2_seek_tag_def)
  then have "m = m \<and> info = info \<and> info \<le> info + 8 \<longrightarrow> seek_loop m' (tag_code ty) info (info + 8) = Some r"
  proof (rule seek_loop.raw_induct [where P = "\<lambda>x t h p r. x = m \<and> h = info \<and> info \<le> p \<longrightarrow> seek_loop m' t info p = Some r", rotated])
    fix f x t h p r
    assume IH: "\<And>x t h p r. f x t h p = Some r \<Longrightarrow> x = m \<and> h = info \<and> info \<le> p \<longrightarrow> seek_loop m' t info p = Some r"
      and body: "(if p < h + unat (rd32 x h) then
        if t \<noteq> tag_type x p then f x t h (p + unat (tag_size x p)) else Some p else Some 0) = Some r"
    show "x = m \<and> h = info \<and> info \<le> p \<longrightarrow> seek_loop m' t info p = Some r"
      using body IH [of x t h "p + unat (tag_size x p)" r] size reads [of p]
      by (subst seek_loop.simps) (auto split: if_splits)
  qed
  then show ?thesis using False by (simp add: multiboot2_seek_tag_def)
qed (use assms(1) in \<open>simp add: multiboot2_seek_tag_def\<close>)

lemma kinit_setting_same:
  assumes "kinit_setting fr line m info len mem_map E n" and "same_block info len m m'" and "unat (rd32 m info) + 8 \<le> len"
    and "m' (hex_as_str fr + 16) = 0" and "m' (line + 255) = 0"
  shows "kinit_setting fr line m' info len mem_map E n"
proof -
  have geo: "map_geometry m info len mem_map E n" using assms(1) by (simp add: kinit_setting_def)
  have "multiboot2_seek_tag m' MBI_MEMORY_MAP info = Some mem_map"
    using seek_same [OF _ assms(2,3)] assms(1) by (simp add: kinit_setting_def)
  moreover have "map_geometry m' info len mem_map E n"
    using geo header_same [OF assms(2) geo] by (simp add: map_geometry_def)
  moreover have "list_all (\<lambda>p. entry_Type m' p < 2 ^ 31) (entries mem_map E n)"
    using assms(1) entry_same(3) [OF assms(2) geo] by (simp add: kinit_setting_def entries_def list_all_iff)
  ultimately show ?thesis using assms(1,4,5) by (simp add: kinit_setting_def)
qed

lemma line_at_last:
  assumes "line_at m' line 256 = line_at m line 256"
  shows "m' (line + 255) = m (line + 255)"
  using arg_cong [OF assms, of "\<lambda>xs. xs ! 255"] by (simp add: line_at_def)

lemma map_report_same:
  assumes "map_geometry m info len mem_map E n" and "same_block info len m m'" and "line_at m' line 256 = line_at m line 256"
  shows "map_report m' line mem_map E n = map_report m line mem_map E n"
    and "find (suitable m') (entries mem_map E n) = find (suitable m) (entries mem_map E n)"
proof -
  have "map (entry_text m') (entries mem_map E n) = map (entry_text m) (entries mem_map E n)"
    using entry_same [OF assms(2,1)] by (simp add: entries_def entry_text_def)
  moreover have "iterating_text m' mem_map = iterating_text m mem_map"
    using header_same [OF assms(2,1)] by (simp add: iterating_text_def)
  ultimately show "map_report m' line mem_map E n = map_report m line mem_map E n"
    by (simp only: map_report_def assms(3))
  show "find (suitable m') (entries mem_map E n) = find (suitable m) (entries mem_map E n)"
    using suitable_same [OF assms(2,1)] by (intro find_cong) (auto simp: entries_def)
qed

section \<open>Up to \<open>kinit\<close>\<close>

definition got_ts :: "token list" where
  "got_ts = plain ''Got Multiboot2 info block at physical address 0x'' @ [THex True] @ plain ''.'' @ map Text crlf"

definition got_text :: "u64 \<Rightarrow> bytes" where
  "got_text rbx = render (\<lambda>_. []) got_ts [rbx]"

definition unable_msg :: bytes where
  "unable_msg = ascii ''PANIC:  Unable to initialize the CrOwS kernel.'' @ crlf"

lemma got_ts:
  "ascii ''Got Multiboot2 info block at physical address 0x%X.'' @ crlf @ [0] = concat (map encode got_ts) @ [0]"
  "supported got_ts [a]" "string_args got_ts [a] = {}"
  by (simp_all add: got_ts_def plain_def ascii_def)

lemma got_text_length: "length (got_text rbx) < 128"
  using length_hex [of True "ucast rbx"] by (simp add: got_text_def got_ts_def length_plain)

text \<open>The buffer of the note is apart from the line buffer and from the information block, and its last byte is 0.\<close>

definition message_setting :: "frame \<Rightarrow> nat \<Rightarrow> nat \<Rightarrow> kmem \<Rightarrow> nat \<Rightarrow> nat \<Rightarrow> bool" where
  "message_setting fr message line m info len \<longleftrightarrow>
     message \<noteq> 0 \<and> frame_ok fr message 128 \<and> m (message + 127) = 0
     \<and> (\<forall>q. message \<le> q \<and> q < message + 128 \<longrightarrow> \<not> (line \<le> q \<and> q < line + 256) \<and> \<not> (info \<le> q \<and> q < info + len))"

definition boot_note :: "u64 \<Rightarrow> nat \<Rightarrow> kmem \<Rightarrow> bytes" where
  "boot_note rbx message m = 0x01 # welcome_msg @ uart_msg @ until0 (overlay (got_text rbx) (line_at m message 128))"

lemma kmain_prologue:
  assumes dev: "sending_device dev" and rax: "rax AND 0xffffffff = MULTIBOOT_INFO_MAGIC" and rbx: "info = unat (rbx AND 0xffffffff)"
    and set: "kinit_setting fr line (mem s) info len mem_map E n" and msg: "message_setting fr message line (mem s) info len"
    and size: "96 \<le> rd32 (mem s) info" "unat (rd32 (mem s) info) + 8 \<le> len"
  shows "\<exists>u t. kmain dev fr message line ctx rax rbx s =
      (case kinit dev fr line ctx info u of None \<Rightarrow> None
       | Some (r, _, s) \<Rightarrow> if r < 0 then uart_puts_lit dev unable_msg s else Some s)
    \<and> uart_enabled u \<and> ports u = ports s @ t \<and> sent t = boot_note (rbx AND 0xffffffff) message (mem s)
    \<and> same_block info len (mem s) (mem u) \<and> line_at (mem u) line 256 = line_at (mem s) line 256
    \<and> mem u (hex_as_str fr + 16) = 0
    \<and> (\<forall>q. \<not> in_locals fr q \<and> \<not> (message \<le> q \<and> q < message + 128) \<longrightarrow> mem u q = mem s q)"
proof -
  let ?s0 = "snd (uart_init s)" and ?b = "rbx AND 0xffffffff"
  have mask: "push_bit 32 1 - 1 = (0xffffffff :: u64)" by simp
  have init: "?s0 = s\<lparr>ports := ports s @ [Out (SERIAL_COM1 + 1) 0, Out (SERIAL_COM1 + 3) 0x80, Out (SERIAL_COM1 + 0) 1,
      Out (SERIAL_COM1 + 1) 0, Out (SERIAL_COM1 + 3) 3, Out (SERIAL_COM1 + 2) 0xc7, Out (SERIAL_COM1 + 4) 0x0b], uart_enabled := True\<rparr>"
    by (simp add: uart_init_def outb_def Let_def)
  have info: "info \<noteq> 0" and z: "mem s (hex_as_str fr + 16) = 0" and stack: "stack_apart fr line info len" and fr: "frame_ok fr line 256"
    using set by (simp_all add: kinit_setting_def)
  have m: "message \<noteq> 0" "frame_ok fr message 128" "mem s (message + (nat 128 - 1)) = 0" using msg by (simp_all add: message_setting_def)
  obtain t1 where t1: "uart_puts_lit dev welcome_msg ?s0 = Some (?s0\<lparr>ports := ports ?s0 @ t1\<rparr>)" "sent t1 = welcome_msg"
    using putc_all_sends [OF dev, of ?s0 welcome_msg] by (auto simp: init uart_puts_lit_def)
  obtain t2 where t2: "uart_puts_lit dev uart_msg (?s0\<lparr>ports := ports ?s0 @ t1\<rparr>) = Some (?s0\<lparr>ports := ports ?s0 @ t1 @ t2\<rparr>)" "sent t2 = uart_msg"
    using putc_all_sends [OF dev, of "?s0\<lparr>ports := ports ?s0 @ t1\<rparr>" uart_msg] by (auto simp: init uart_puts_lit_def)
  let ?s2 = "?s0\<lparr>ports := ports ?s0 @ t1 @ t2\<rparr>"
  have s2: "mem ?s2 = mem s" "uart_enabled ?s2" by (simp_all add: init)
  have len: "(0 :: int) \<le> 128" "length (render (\<lambda>_. []) got_ts [?b]) < nat 128"
    using got_text_length [of ?b] by (simp_all add: got_text_def)
  obtain r m3 t3 where m3: "snprintf fr message 128 (concat (map encode got_ts) @ [0]) [?b] (mem s) = Some (r, m3)"
    and puts: "uart_puts dev message (?s2\<lparr>mem := m3\<rparr>) = Some (?s2\<lparr>mem := m3, ports := ports ?s2 @ t3\<rparr>)"
    and t3: "sent t3 = until0 (overlay (got_text ?b) (line_at (mem s) message 128))"
    and z3: "m3 (hex_as_str fr + 16) = 0" "m3 (message + 127) = 0"
    and out: "\<And>q. \<not> in_locals fr q \<Longrightarrow> \<not> (message \<le> q \<and> q < message + 128) \<Longrightarrow> m3 q = mem s q"
    using print_and_send [OF dev s2(2) m(1) got_ts(2,3) m(2) z len m(3)] unfolding got_text_def [symmetric] by auto
  let ?m4 = "m3(message := 0)"
  obtain cs where "cstring m3 message cs" using cstring_exists [of m3 message 127, OF z3(2)] by blast
  then have clear: "clear_loop message 0 m3 = Some ?m4" by (rule clear_loop_first [OF m(1)])
  let ?u = "?s0\<lparr>ports := ports ?s0 @ t1 @ t2 @ t3, mem := ?m4\<rparr>"
  have same: "?m4 q = mem s q" if "\<not> in_locals fr q" "\<not> (message \<le> q \<and> q < message + 128)" for q
    using out [OF that] that(2) by auto
  have block: "same_block info len (mem s) ?m4"
  proof -
    have "?m4 q = mem s q" if "info \<le> q" "q < info + len" for q
      using stack msg that by (intro same) (auto simp: stack_apart_def touchable_def message_setting_def)
    then show ?thesis by (simp add: same_block_def)
  qed
  have "\<not> in_locals fr (line + i)" if "i < 256" for i
    using fr that by (auto simp: frame_ok_def in_locals_def)
  then have "?m4 (line + i) = mem s (line + i)" if "i < 256" for i
    using msg that by (intro same) (auto simp: message_setting_def)
  then have line: "line_at ?m4 line 256 = line_at (mem s) line 256" by (simp add: line_at_def)
  have h: "?m4 (hex_as_str fr + 16) = 0" using z3(1) by simp
  have "rd32 ?m4 info = rd32 (mem s) info" using size by (intro rd32_same [OF block]) auto
  then have big: "\<not> rd32 ?m4 info < 96" using size by simp
  have b: "?b \<noteq> 0" using rbx info by auto
  have "kmain dev fr message line ctx rax rbx s = (case kinit dev fr line ctx info ?u of None \<Rightarrow> None
       | Some (r, _, s) \<Rightarrow> if r < 0 then uart_puts_lit dev unable_msg s else Some s)"
    unfolding kmain_def got_ts(1) unable_msg_def mask using t1(1) t2(1) m3 puts clear big b rax s2
    by (simp add: split_beta Let_def flip: rbx)
  moreover have "ports ?u = ports s @ ([Out (SERIAL_COM1 + 1) 0, Out (SERIAL_COM1 + 3) 0x80, Out (SERIAL_COM1 + 0) 1,
      Out (SERIAL_COM1 + 1) 0, Out (SERIAL_COM1 + 3) 3, Out (SERIAL_COM1 + 2) 0xc7, Out (SERIAL_COM1 + 4) 0x0b] @ t1 @ t2 @ t3)"
    by (simp add: init)
  moreover have "sent ([Out (SERIAL_COM1 + 1) 0, Out (SERIAL_COM1 + 3) 0x80, Out (SERIAL_COM1 + 0) 1,
      Out (SERIAL_COM1 + 1) 0, Out (SERIAL_COM1 + 3) 3, Out (SERIAL_COM1 + 2) 0xc7, Out (SERIAL_COM1 + 4) 0x0b] @ t1 @ t2 @ t3)
      = boot_note ?b message (mem s)"
    using t1(2) t2(2) t3 by (simp add: boot_note_def sent_def SERIAL_COM1_def)
  moreover have "mem ?u = ?m4" "uart_enabled ?u" by (simp_all add: init)
  moreover have "\<forall>q. \<not> in_locals fr q \<and> \<not> (message \<le> q \<and> q < message + 128) \<longrightarrow> ?m4 q = mem s q" using same by blast
  ultimately show ?thesis using block line h by (intro exI [of _ ?u] exI conjI) (assumption | simp only:)+
qed

section \<open>Properties\<close>

text \<open>C23: Without a region for the pool the kernel still sends its banner, the address of the information block and the whole memory
  map, says that there is no memory hole, panics and returns.\<close>

theorem kmain_without_pool:
  assumes "sending_device dev" and "rax AND 0xffffffff = MULTIBOOT_INFO_MAGIC" and "info = unat (rbx AND 0xffffffff)"
    and "kinit_setting fr line (mem s) info len mem_map E n" and "message_setting fr message line (mem s) info len"
    and "96 \<le> rd32 (mem s) info" and "unat (rd32 (mem s) info) + 8 \<le> len" and "kmem_base ctx = 0"
    and "find (suitable (mem s)) (entries mem_map E n) = None"
  shows "\<exists>s' t. kmain dev fr message line ctx rax rbx s = Some s' \<and> ports s' = ports s @ t
    \<and> sent t = boot_note (rbx AND 0xffffffff) message (mem s) @ map_report (mem s) line mem_map E n @ no_hole_msg @ unable_msg"
proof -
  obtain u t where run: "kmain dev fr message line ctx rax rbx s = (case kinit dev fr line ctx info u of None \<Rightarrow> None
       | Some (r, _, s) \<Rightarrow> if r < 0 then uart_puts_lit dev unable_msg s else Some s)"
    and on: "uart_enabled u" and t: "ports u = ports s @ t" "sent t = boot_note (rbx AND 0xffffffff) message (mem s)"
    and block: "same_block info len (mem s) (mem u)" and line: "line_at (mem u) line 256 = line_at (mem s) line 256"
    and h: "mem u (hex_as_str fr + 16) = 0"
    using kmain_prologue [OF assms(1-7)] by blast
  have geo: "map_geometry (mem s) info len mem_map E n" and z: "mem s (line + 255) = 0" using assms(4) by (simp_all add: kinit_setting_def)
  have last: "mem u (line + 255) = 0" using line_at_last [OF line] z by simp
  have set: "kinit_setting fr line (mem u) info len mem_map E n" by (rule kinit_setting_same [OF assms(4) block assms(7) h last])
  note report = map_report_same [OF geo block line]
  obtain s1 t1 where k: "kinit dev fr line ctx info u = Some (- 1, ctx\<lparr>memory_map := mem_map\<rparr>, s1)" and t1: "ports s1 = ports u @ t1"
      "sent t1 = map_report (mem s) line mem_map E n @ no_hole_msg" and on1: "uart_enabled s1"
    using kinit_no_pool_reports [OF assms(1) on set assms(8)] assms(9) unfolding report by blast
  obtain t2 where t2: "putc_all dev unable_msg s1 = Some (s1\<lparr>ports := ports s1 @ t2\<rparr>)" "sent t2 = unable_msg"
    using putc_all_sends [OF assms(1) on1] by blast
  have "kmain dev fr message line ctx rax rbx s = Some (s1\<lparr>ports := ports s1 @ t2\<rparr>)"
    unfolding run k using t2(1) on1 by (simp add: uart_puts_lit_def)
  then show ?thesis using t t1 t2(2) by (intro exI [of _ "s1\<lparr>ports := ports s1 @ t2\<rparr>"] exI [of _ "t @ t1 @ t2"]) simp
qed

lemma example_message: "message_setting kernel_frame 4000 5000 (typed_block t) 1000 112"
  by (auto simp: message_setting_def frame_ok_def in_locals_def kernel_frame_def typed_block_def block_mem_def map_block_def write_bytes_def)

lemma example_size: "rd32 (typed_block t) 1000 = 104"
  by (simp add: typed_block_def block_mem_def map_block_def write_bytes_def rd32_def)

theorem kmain_without_pool_witness:
  "\<exists>s' t. kmain slow_device kernel_frame 4000 5000 no_ctx 0x36d76289 1000 (serial_on (typed_block 2)) = Some s' \<and> ports s' = t
    \<and> sent t = boot_note 1000 4000 (typed_block 2) @ map_report (typed_block 2) 5000 1008 24 1 @ no_hole_msg @ unable_msg"
  using kmain_without_pool [OF slow_device, where rax = "0x36d76289" and rbx = 1000 and info = 1000 and fr = kernel_frame and line = 5000
      and s = "serial_on (typed_block 2)" and len = 112 and mem_map = 1008 and E = 24 and n = 1 and message = 4000 and ctx = no_ctx]
    typed_block_setting [of 2] example_message [of 2] example_size [of 2]
  by (simp add: serial_on_def entries_def entry_at_def suitable_def typed_block_reads MULTIBOOT_INFO_MAGIC_def)

text \<open>The first suitable region is a pool that the code can use: its length fits an \<open>int\<close>, it lies apart from everything the kernel touches
  before, and its last byte is 0.\<close>

definition pool_setting :: "frame \<Rightarrow> nat \<Rightarrow> nat \<Rightarrow> kmem \<Rightarrow> nat \<Rightarrow> nat \<Rightarrow> nat \<Rightarrow> nat \<Rightarrow> bool" where
  "pool_setting fr message line m info len base L \<longleftrightarrow>
     L < 2 ^ 31 \<and> frame_ok fr base (int L) \<and> pool_apart fr line info len base L \<and> m (base + (L - 1)) = 0
     \<and> (\<forall>q. base \<le> q \<and> q < base + L \<longrightarrow> \<not> (message \<le> q \<and> q < message + 128))"

text \<open>C22: A whole run of the kernel that succeeds: handed an information block with a memory map that has a free region of 1 MiB from
  2 MiB up, it returns, having sent exactly its banner, the address of the block, the report of every entry of the map and the
  address of the pool, which is the first such region and is filled with zeros.\<close>

theorem kmain_boots:
  assumes "sending_device dev" and "rax AND 0xffffffff = MULTIBOOT_INFO_MAGIC" and "info = unat (rbx AND 0xffffffff)"
    and "kinit_setting fr line (mem s) info len mem_map E n" and "message_setting fr message line (mem s) info len"
    and "96 \<le> rd32 (mem s) info" and "unat (rd32 (mem s) info) + 8 \<le> len" and "kmem_base ctx = 0"
    and "find (suitable (mem s)) (entries mem_map E n) = Some p"
    and "base = unat (entry_Base (mem s) p)" and "L = unat (entry_Length (mem s) p)"
    and "pool_setting fr message line (mem s) info len base L"
  shows "\<exists>s' t. kmain dev fr message line ctx rax rbx s = Some s' \<and> ports s' = ports s @ t
    \<and> sent t = boot_note (rbx AND 0xffffffff) message (mem s) @ map_report (mem s) line mem_map E n
        @ until0 (overlay (hole_text (entry_Base (mem s) p)) (line_at (mem s) base L))
    \<and> line_at (mem s') base L = replicate L 0"
proof -
  obtain u t where run: "kmain dev fr message line ctx rax rbx s = (case kinit dev fr line ctx info u of None \<Rightarrow> None
       | Some (r, _, s) \<Rightarrow> if r < 0 then uart_puts_lit dev unable_msg s else Some s)"
    and on: "uart_enabled u" and t: "ports u = ports s @ t" "sent t = boot_note (rbx AND 0xffffffff) message (mem s)"
    and block: "same_block info len (mem s) (mem u)" and line: "line_at (mem u) line 256 = line_at (mem s) line 256"
    and h: "mem u (hex_as_str fr + 16) = 0"
    and out: "\<forall>q. \<not> in_locals fr q \<and> \<not> (message \<le> q \<and> q < message + 128) \<longrightarrow> mem u q = mem s q"
    using kmain_prologue [OF assms(1-7)] by blast
  have geo: "map_geometry (mem s) info len mem_map E n" and z: "mem s (line + 255) = 0" using assms(4) by (simp_all add: kinit_setting_def)
  have last: "mem u (line + 255) = 0" using line_at_last [OF line] z by simp
  have set: "kinit_setting fr line (mem u) info len mem_map E n" by (rule kinit_setting_same [OF assms(4) block assms(7) h last])
  note report = map_report_same [OF geo block line]
  obtain k where k: "k < n" "p = entry_at mem_map E k" using assms(9) by (auto simp: find_Some_iff entries_def)
  note entry = entry_same [OF block geo k(1), folded k(2)]
  have pool: "mem u (base + i) = mem s (base + i)" if "i < L" for i
    using assms(12) out that by (auto simp: pool_setting_def pool_apart_def touchable_def)
  then have pool_at: "line_at (mem u) base L = line_at (mem s) base L" by (simp add: line_at_def)
  have "0 < L" using assms(9,11) by (auto simp: find_Some_iff suitable_def word_le_nat_alt)
  then have last: "mem u (base + (L - 1)) = 0" using pool [of "L - 1"] assms(12) by (simp add: pool_setting_def)
  have ps: "L < 2 ^ 31" "frame_ok fr base (int L)" "pool_apart fr line info len base L" using assms(12) by (simp_all add: pool_setting_def)
  obtain s1 t1 where k: "kinit dev fr line ctx info u =
      Some (0, ctx\<lparr>memory_map := mem_map, kmem_base := entry_Base (mem s) p, kmem_len := entry_Length (mem s) p\<rparr>, s1)"
    and t1: "ports s1 = ports u @ t1" "sent t1 = map_report (mem s) line mem_map E n
        @ until0 (overlay (hole_text (entry_Base (mem s) p)) (line_at (mem s) base L))" and zero: "line_at (mem s1) base L = replicate L 0"
    using kinit_reports [OF assms(1) on set assms(8), of p base L] assms(9-11) ps last unfolding report entry pool_at by blast
  have "kmain dev fr message line ctx rax rbx s = Some s1" unfolding run k by simp
  then show ?thesis using t t1 zero by (intro exI [of _ s1] exI [of _ "t @ t1"]) simp
qed

theorem kmain_boots_witness:
  "\<exists>s' t. kmain slow_device kernel_frame 4000 5000 no_ctx 0x36d76289 1000 (serial_on (typed_block 1)) = Some s' \<and> ports s' = t
    \<and> sent t = boot_note 1000 4000 (typed_block 1) @ map_report (typed_block 1) 5000 1008 24 1
        @ until0 (overlay (hole_text 0x200000) (line_at (typed_block 1) 0x200000 0x100000))
    \<and> line_at (mem s') 0x200000 0x100000 = replicate 0x100000 0"
proof -
  have "find (suitable (typed_block 1)) (entries 1008 24 1) = Some 1024"
    by (simp add: entries_def entry_at_def suitable_def typed_block_reads)
  moreover have "pool_setting kernel_frame 4000 5000 (typed_block 1) 1000 112 0x200000 0x100000"
    using kernel_frame_ok(2)
    by (auto simp: pool_setting_def pool_apart_def touchable_def in_locals_def kernel_frame_def typed_block_def block_mem_def map_block_def
        write_bytes_def)
  ultimately show ?thesis
    using kmain_boots [OF slow_device, where rax = "0x36d76289" and rbx = 1000 and info = 1000 and fr = kernel_frame and line = 5000
        and s = "serial_on (typed_block 1)" and len = 112 and mem_map = 1008 and E = 24 and n = 1 and message = 4000 and ctx = no_ctx
        and p = 1024 and base = "0x200000" and L = "0x100000"]
      typed_block_setting [of 1] example_message [of 1] example_size [of 1]
    by (simp add: serial_on_def typed_block_reads MULTIBOOT_INFO_MAGIC_def)
qed

end
