(* ===== verification/Spec2Isabelle.thy ===== *)
theory Spec2Isabelle
  imports Sha256 Hmac Aes Ramdisk KString Uart Multiboot Kernel Input Threading ThreadRace BootSafety BootDisk FileLoad Discovery Decryption Wrappers
    Layout Multiboot_Layout Loader_Layout Progress Panic Kernel_Report Kernel_Boot
begin

text \<open>
  CrOwS is a boot chain in C: \<open>mftah_uefi\<close>, a UEFI application that finds an encrypted disk image, asks for its password, decrypts it into memory
  and starts the system on it, and a small kernel that is started by a Multiboot2 loader. This library models both and proves what makes them correct,
  and where they are not, what they do instead.

  \<^bold>\<open>The parts of the program and how they interact.\<close> Paths are below \<open>src/src/\<close>; \<open>B\<close> is \<open>boot/mftah_uefi\<close>, \<open>K\<close> is \<open>kernel\<close>.
  \<^item> \<open>B/main.c\<close>, \<open>efi_main\<close>: initialises the console, ACPI, the RAM disk driver and the MFTAH library, then lets the user choose a payload
    (\<open>B/loader.c\<close>) and type a password (\<open>B/input.c\<close>), checks the password against the head of the file, loads and decrypts the whole file,
    leaves hints in EFI variables, registers the result as a RAM disk (\<open>B/ramdisk.c\<close>) and starts the boot executable of the volume that holds a
    canary file.
  \<^item> \<open>B/sha256.c\<close> and \<open>B/aes.c\<close> are the primitives behind the MFTAH library, \<open>B/wrappers.c\<close> its view of the firmware, and the second half of
    \<open>B/util.c\<close> its hooks for decrypting with several processors, on top of the thread pool of \<open>B/threading.c\<close>.
  \<^item> \<open>K/core/main.c\<close>: \<open>kmain\<close> checks what the loader handed over, \<open>kinit\<close> looks for a memory pool in the memory map
    (\<open>K/core/multiboot.c\<close>) and reports on the serial port (\<open>K/core/str.c\<close>, \<open>K/drivers/uart.c\<close>, \<open>K/core/port_io.c\<close>).

  \<^bold>\<open>The model.\<close> Every function is a definition of the same name, over states passed explicitly; a loop of a function is a definition of its own.
  \<^item> The firmware, \<open>gnu-efi\<close> and the MFTAH library are not in the repository. \<open>Efi\<close> makes their calls a datatype \<open>efi_call\<close>; the state
    records the calls made, and a \<open>firmware\<close> answers each call as a function of that history, so it may answer in any way and change its mind. The string
    functions and the constants of MFTAH are the record \<open>libs\<close>. A theorem that relies on documented behaviour of either says so in a named
    hypothesis: \<open>strings_ok\<close>, \<open>checks_purely\<close>, \<open>serves_directory\<close>, \<open>names_files\<close>, \<open>reads_on\<close>, \<open>fresh_pool\<close>, and \<open>spares\<close>, which is a
    property of one run: none of its calls writes to a given range of memory. The boot of \<open>BootDemo\<close> has it.
  \<^item> Memory is a map from 64-bit addresses to bytes, where the kernel's is a map from natural numbers; typed objects the loader keeps in pools, the
    thread objects, the RAM disks and the contexts of workers, are maps of their own from addresses. \<open>CopyMem\<close> and \<open>SetMem\<close> of the firmware and the
    standard \<open>memcpy\<close> and \<open>memset\<close> have their documented effect.
  \<^item> Machine integers are words of their width. A status is a 64-bit word, as in UEFI. Results are options: \<open>None\<close> is a run that does not come
    back, by \<open>PANIC\<close>, by a reset or in an endless wait, or one that touches an object that does not exist. Loops that the input may keep going for ever
    are partial functions, and that they return is proved where it holds; no definition uses fuel.
  \<^item> The state of the loader grows by record extension, in the order of the static variables' owners: \<open>uefi\<close>, \<open>acpi_state\<close>,
    \<open>rd_state\<close>, \<open>mp_state\<close>, \<open>loader_state\<close>, \<open>boot_state\<close>, \<open>worker_state\<close>.

  \<^bold>\<open>The theories.\<close>
  \<^item> \<open>Prelude\<close>: word types, buffers, byte order. \<open>Hash_Interface\<close>, \<open>Block_Interface\<close>: the contracts of a streaming hash and of a block
    device, as locales, with the facts their clients use; \<open>Sha256\<close> and \<open>Ramdisk\<close> interpret them on the code's models.
  \<^item> \<open>Step_Interface\<close>: the contract of a step system with an invariant; \<open>Threading\<close>, \<open>ThreadRace\<close> and \<open>Decryption\<close> interpret it.
  \<^item> \<open>Sha256\<close>, \<open>Hmac\<close>, \<open>Aes\<close>: the primitives, each proved equal to a definition after its standard (FIPS 180-4, RFC 2104, FIPS 197) through a
    refinement of the buffer and the rolling schedule; decryption inverts encryption. The tables are shared with those definitions.
  \<^item> \<open>Efi\<close>, \<open>Util\<close>, \<open>Acpi\<close>, \<open>Input\<close>, \<open>Ramdisk\<close>, \<open>Threading\<close>, \<open>Libs\<close>, \<open>Loader\<close>, \<open>BootMain\<close>, \<open>Decryption\<close>,
    \<open>Wrappers\<close>: one theory for each file of the loader, with the lemmas on its operations. \<open>ThreadRace\<close> interleaves \<open>StartThread\<close> and
    \<open>FinishThread\<close> on two processors, step by step.
  \<^item> \<open>Emits\<close>: rules that follow a program of the loader construct by construct (\<open>sat\<close> for total ones, \<open>ends\<close> for those that may not
    return, the collection \<open>vc\<close>), and which calls each operation makes. \<open>BootSafety\<close>, \<open>BootDisk\<close>, \<open>FileLoad\<close>, \<open>Discovery\<close>: the
    properties of the loader as a whole and of its longer loops. \<open>BootDemo\<close> evaluates one complete boot for their witnesses.
  \<^item> \<open>Progress\<close>: the progress bar of \<open>B/util.c\<close>, a function to the calls of \<open>Print\<close> it makes, over rationals rounded as doubles are.
    \<open>Panic\<close>: how the macro \<open>PANIC\<close> puts its text together.
  \<^item> \<open>KString\<close>, \<open>Uart\<close>, \<open>Multiboot\<close>, \<open>Kernel\<close>: the kernel. \<open>Kernel_Report\<close> and \<open>Kernel_Boot\<close>: an abstract printer with one buffer that
    is never cleared, and that \<open>kinit\<close> and \<open>kmain\<close> implement it.
  \<^item> \<open>Layout\<close>: the types of C as a datatype, with size, alignment and the place of members. \<open>Multiboot_Layout\<close> and \<open>Loader_Layout\<close>: the
    structures the headers declare, \<open>packed\<close> where they are; types of \<open>gnu-efi\<close> are parameters. They tie the offsets and the byte strings of the
    other theories to those declarations.

  \<^bold>\<open>What is shown.\<close>
  \<^item> Of the boot flow: no image is started before a password was accepted and a payload decrypted after that, and only from a volume with the canary;
    the payload is decrypted with the very password accepted in every run that spares the buffer the password is kept in;
    the disk that is offered is the decrypted payload, with its base, its length and its memory; which files are found, which line selects one, when a file
    is loaded whole.
  \<^item> Of the drivers: a RAM disk is a block device over its range and nothing else, on both protocols; registering and publishing succeed, refuse and fail as
    stated; the line editor refines an ideal one; the thread pool never puts two threads on a processor when its operations run alone. Of
    \<open>StartThread\<close> against \<open>FinishThread\<close>, step by step: which interleavings lose a processor, and that the mutex excludes if its test and its
    setting are not interrupted, and does not otherwise.
  \<^item> Of the kernel: what \<open>snprintf\<close> prints, that it stays inside its buffers, what is sent on the port, which tag is found and when the search hangs,
    that it boots with exactly the report expected and the first suitable region as its pool, or panics without one.
  \<^item> Of the data: the offsets the kernel reads at, its Multiboot2 header, the NFIT and the device path node agree with the declarations.
  \<^item> Where the code does not do what it means to, the theorem states what it does.

  \<^bold>\<open>Not modelled.\<close>
  \<^item> Console output (\<open>Print\<close> and its macros, the calls of \<open>PrintProgress\<close>, the ASCII art, \<open>B/wrappers.c\<close>'s \<open>Print\<close>): it changes no state of the program;
    nor does the text of the password prompt (\<open>SPrint\<close>) or \<open>InitializeLib\<close> of \<open>gnu-efi\<close>.
    \<open>ASSERT\<close> and \<open>DPRINT\<close> are compiled out of the default build.
  \<^item> The progress the library reports while it decrypts is not part of the atomic call \<open>Crypt\<close>; it is a step of its own, \<open>SaveThreadProgress\<close>.
  \<^item> The interrupt flag and the stack of the kernel; \<open>boot/uefi\<close>, an unfinished stub that does not compile; the boot sector and the assembly files.
  \<^item> A zeroed pool is recorded as \<open>AllocatePool\<close>, the name of the allocation beneath it.
\<close>

end
